(* ===== verification/Prelude.thy ===== *)
theory Prelude
  imports Complex_Main "HOL-Library.List_Lexorder" "HOL-Library.Char_ord"
begin

text \<open>
  Shared vocabulary of the development.

  The worker keeps its state in PostgreSQL tables.  A table is a list of rows
  here, in insertion order, and this theory holds the few relational operations
  the worker's SQL uses, with the lemmas that every component shares:
  \<^const>\<open>map\<close>-based \<open>UPDATE .. WHERE\<close> (\<open>update_where\<close>),
  \<open>UPDATE .. RETURNING\<close> (\<open>returning\<close>), \<open>ORDER BY k ASC LIMIT 1\<close>
  (\<open>min_row\<close>), \<open>ORDER BY k ASC\<close> (\<open>sort_key\<close> of the library, which is stable)
  and \<open>SUM\<close> / \<open>COUNT\<close>.  It also holds the arithmetic of Python floats as far as
  the worker uses them: the product of an integer with a fixed binary64 constant,
  rounded to the nearest binary64 number, then truncated by \<open>int(..)\<close>.

  Times are integers in microseconds (the resolution of \<open>timestamptz\<close>), and SQL
  \<open>NOW()\<close> is a parameter that is constant within one transaction, as in PostgreSQL.
\<close>

named_theorems table_simps "relational operations on tables"
named_theorems sql_defs "definitions of the worker's SQL statements"

type_synonym time = int

definition second :: int where
  "second = 1000000"

abbreviation seconds :: "int \<Rightarrow> int" where
  "seconds n \<equiv> n * second"

section \<open>Relational operations\<close>

definition update_where :: "('r \<Rightarrow> bool) \<Rightarrow> ('r \<Rightarrow> 'r) \<Rightarrow> 'r list \<Rightarrow> 'r list" where
  "update_where P f rows = map (\<lambda>r. if P r then f r else r) rows"

definition returning :: "('r \<Rightarrow> bool) \<Rightarrow> ('r \<Rightarrow> 'r) \<Rightarrow> 'r list \<Rightarrow> 'r list" where
  "returning P f rows = map f (filter P rows)"

fun min_row :: "('r \<Rightarrow> int) \<Rightarrow> 'r list \<Rightarrow> 'r option" where
  "min_row k [] = None"
| "min_row k (r # rows) =
     (case min_row k rows of
        None \<Rightarrow> Some r
      | Some m \<Rightarrow> if k r \<le> k m then Some r else Some m)"

definition max_row :: "('r \<Rightarrow> int) \<Rightarrow> 'r list \<Rightarrow> 'r option" where
  "max_row k rows = min_row (\<lambda>r. - k r) rows"

definition sum_of :: "('r \<Rightarrow> int) \<Rightarrow> 'r list \<Rightarrow> int" where
  "sum_of f rows = sum_list (map f rows)"

definition count_where :: "('r \<Rightarrow> bool) \<Rightarrow> 'r list \<Rightarrow> int" where
  "count_where P rows = int (length (filter P rows))"

text \<open>A nullable column compared in SQL: a comparison with NULL is not true.\<close>

definition sql_before :: "int option \<Rightarrow> int \<Rightarrow> bool" where
  "sql_before c t = (case c of None \<Rightarrow> False | Some x \<Rightarrow> x < t)"

definition sql_null_or_before :: "int option \<Rightarrow> int \<Rightarrow> bool" where
  "sql_null_or_before c t = (case c of None \<Rightarrow> True | Some x \<Rightarrow> x < t)"

subsection \<open>Lemmas on tables\<close>

lemma update_where_Nil [table_simps, simp]: "update_where P f [] = []"
  by (simp add: update_where_def)

lemma update_where_Cons [table_simps, simp]:
  "update_where P f (r # rows) = (if P r then f r else r) # update_where P f rows"
  by (simp add: update_where_def)

lemma length_update_where [table_simps, simp]: "length (update_where P f rows) = length rows"
  by (simp add: update_where_def)

lemma update_where_append [table_simps]:
  "update_where P f (xs @ ys) = update_where P f xs @ update_where P f ys"
  by (simp add: update_where_def)

lemma set_update_where:
  "set (update_where P f rows) = (\<lambda>r. if P r then f r else r) ` set rows"
  by (simp add: update_where_def)

lemma update_where_no_match: "(\<And>r. r \<in> set rows \<Longrightarrow> \<not> P r) \<Longrightarrow> update_where P f rows = rows"
  by (induction rows) auto

lemma map_key_update_where:
  "(\<And>r. P r \<Longrightarrow> k (f r) = k r) \<Longrightarrow> map k (update_where P f rows) = map k rows"
  by (induction rows) auto

lemma filter_update_where_same:
  "(\<And>r. P r \<Longrightarrow> Q (f r) = Q r) \<Longrightarrow>
   filter Q (update_where P f rows) = update_where P f (filter Q rows)"
  by (induction rows) auto

lemma update_where_all:
  "(\<And>r. r \<in> set rows \<Longrightarrow> Q r) \<Longrightarrow> (\<And>r. P r \<Longrightarrow> Q r \<Longrightarrow> Q (f r)) \<Longrightarrow>
   r' \<in> set (update_where P f rows) \<Longrightarrow> Q r'"
  by (auto simp: set_update_where)

lemma update_where_keeps: "a \<in> set rows \<Longrightarrow> \<not> P a \<Longrightarrow> a \<in> set (update_where P f rows)"
  by (induction rows) auto

lemma returning_Nil [simp]: "returning P f [] = []"
  by (simp add: returning_def)

lemma returning_empty_iff: "returning P f rows = [] \<longleftrightarrow> (\<forall>r \<in> set rows. \<not> P r)"
  by (simp add: returning_def filter_empty_conv)

lemma min_row_None_iff [simp]: "min_row k rows = None \<longleftrightarrow> rows = []"
  by (cases rows) (auto split: option.splits)

lemma min_row_mem: "min_row k rows = Some m \<Longrightarrow> m \<in> set rows"
  by (induction rows arbitrary: m) (auto split: option.splits if_splits)

lemma min_row_least: "min_row k rows = Some m \<Longrightarrow> r \<in> set rows \<Longrightarrow> k m \<le> k r"
  by (induction rows arbitrary: m r) (fastforce split: option.splits if_splits)+

lemma max_row_None_iff [simp]: "max_row k rows = None \<longleftrightarrow> rows = []"
  by (simp add: max_row_def)

lemma max_row_mem: "max_row k rows = Some m \<Longrightarrow> m \<in> set rows"
  by (auto simp: max_row_def dest: min_row_mem)

lemma max_row_greatest: "max_row k rows = Some m \<Longrightarrow> r \<in> set rows \<Longrightarrow> k r \<le> k m"
  by (auto simp: max_row_def dest: min_row_least)

lemmas min_row_facts = min_row_mem min_row_least min_row_None_iff

lemma sum_of_Nil [simp]: "sum_of f [] = 0"
  by (simp add: sum_of_def)

lemma sum_of_Cons [simp]: "sum_of f (r # rows) = f r + sum_of f rows"
  by (simp add: sum_of_def)

lemma sum_of_append [simp]: "sum_of f (xs @ ys) = sum_of f xs + sum_of f ys"
  by (simp add: sum_of_def)

lemma sum_of_nonneg: "(\<And>r. r \<in> set rows \<Longrightarrow> 0 \<le> f r) \<Longrightarrow> 0 \<le> sum_of f rows"
  by (induction rows) auto

lemma count_where_Nil [simp]: "count_where P [] = 0"
  by (simp add: count_where_def)

lemma count_where_Cons [simp]:
  "count_where P (r # rows) = (if P r then 1 else 0) + count_where P rows"
  by (simp add: count_where_def)

lemma count_where_append [simp]: "count_where P (xs @ ys) = count_where P xs + count_where P ys"
  by (simp add: count_where_def)

lemma count_where_nonneg [simp]: "0 \<le> count_where P rows"
  by (simp add: count_where_def)

lemma count_where_zero_iff: "count_where P rows = 0 \<longleftrightarrow> (\<forall>r \<in> set rows. \<not> P r)"
  by (simp add: count_where_def filter_empty_conv)

lemma count_where_pos_iff: "0 < count_where P rows \<longleftrightarrow> (\<exists>r \<in> set rows. P r)"
  by (auto simp: count_where_def filter_empty_conv)

lemma count_where_split:
  "count_where P rows = count_where (\<lambda>t. P t \<and> Q t) rows + count_where (\<lambda>t. P t \<and> \<not> Q t) rows"
  by (induction rows) auto

text \<open>A keyed update moves a count by exactly the change of the one row it hits.\<close>

lemma count_where_update_key:
  assumes "distinct (map key rows)" "r \<in> set rows" "\<And>x. P x \<longleftrightarrow> key x = key r \<and> R x"
    and "R r"
  shows "count_where Q (update_where P f rows)
         = count_where Q rows - (if Q r then 1 else 0) + (if Q (f r) then 1 else 0)"
  using assms
proof (induction rows)
  case (Cons a rows)
  show ?case
  proof (cases "a = r")
    case True
    then have "\<And>x. x \<in> set rows \<Longrightarrow> \<not> P x"
      using Cons.prems by (auto simp: rev_image_eqI)
    then have "update_where P f rows = rows" by (rule update_where_no_match)
    moreover have "P a" using True Cons.prems by blast
    ultimately show ?thesis using True by simp
  next
    case False
    then have "r \<in> set rows" using Cons.prems by simp
    moreover have "key a \<noteq> key r" using Cons.prems False calculation by (auto simp: rev_image_eqI)
    ultimately show ?thesis using Cons by simp
  qed
qed simp

lemma sum_of_update_key:
  assumes "distinct (map key rows)" "r \<in> set rows" "\<And>x. P x \<longleftrightarrow> key x = key r \<and> R x"
    and "R r"
  shows "sum_of g (update_where P f rows) = sum_of g rows - g r + g (f r)"
  using assms
proof (induction rows)
  case (Cons a rows)
  show ?case
  proof (cases "a = r")
    case True
    then have "\<And>x. x \<in> set rows \<Longrightarrow> \<not> P x"
      using Cons.prems by (auto simp: rev_image_eqI)
    then have "update_where P f rows = rows" by (rule update_where_no_match)
    moreover have "P a" using True Cons.prems by blast
    ultimately show ?thesis using True by simp
  next
    case False
    then have "r \<in> set rows" using Cons.prems by simp
    moreover have "key a \<noteq> key r" using Cons.prems False calculation by (auto simp: rev_image_eqI)
    ultimately show ?thesis using Cons by simp
  qed
qed simp

lemma sql_before_simps [simp]:
  "sql_before None t = False" "sql_before (Some x) t = (x < t)"
  "sql_null_or_before None t = True" "sql_null_or_before (Some x) t = (x < t)"
  by (simp_all add: sql_before_def sql_null_or_before_def)

section \<open>Python integers and floats\<close>

text \<open>
  \<open>round_half_even x y\<close> is the quotient of naturals rounded to nearest, ties to even.
  A binary64 constant \<open>m / 2 ^ k\<close> times an integer \<open>w\<close> is \<open>m * w / 2 ^ k\<close>, correctly
  rounded to 53 significant bits; \<open>float_mul_trunc\<close> does this rounding and then
  truncates to an integer, as \<open>int(c * w)\<close> does.  Overflow and subnormals do not occur
  for the magnitudes the worker uses (counts of tokens and milliseconds).
\<close>

definition round_half_even :: "nat \<Rightarrow> nat \<Rightarrow> nat" where
  "round_half_even x y =
     (let q = x div y; r = x mod y in
      if 2 * r < y then q
      else if 2 * r > y then q + 1
      else if even q then q else q + 1)"

fun bit_length :: "nat \<Rightarrow> nat" where
  "bit_length n = (if n = 0 then 0 else 1 + bit_length (n div 2))"

declare bit_length.simps [simp del]

definition round53 :: "nat \<Rightarrow> nat" where
  "round53 n = (let b = bit_length n in
     if b \<le> 53 then n else round_half_even n (2 ^ (b - 53)) * 2 ^ (b - 53))"

definition float_mul_trunc :: "nat \<Rightarrow> nat \<Rightarrow> nat \<Rightarrow> nat" where
  "float_mul_trunc m k w = round53 (m * w) div 2 ^ k"

lemma bit_length_0 [simp]: "bit_length 0 = 0"
  by (simp add: bit_length.simps)

lemma less_two_power_bit_length: "n < 2 ^ bit_length n"
proof (induction n rule: bit_length.induct)
  case (1 n)
  show ?case
  proof (cases "n = 0")
    case False
    then have "n div 2 < 2 ^ bit_length (n div 2)" using 1 by simp
    then have "n < 2 * 2 ^ bit_length (n div 2)" by linarith
    then show ?thesis using False by (subst bit_length.simps) simp
  qed simp
qed

lemma bit_length_le: "n < 2 ^ k \<Longrightarrow> bit_length n \<le> k"
proof (induction n arbitrary: k rule: bit_length.induct)
  case (1 n)
  show ?case
  proof (cases "n = 0")
    case False
    then obtain j where k: "k = Suc j" using "1.prems" by (cases k) auto
    then have "n div 2 < 2 ^ j" using "1.prems" by auto
    then have "bit_length (n div 2) \<le> j" using 1 False by simp
    then show ?thesis using False k by (subst bit_length.simps) simp
  qed simp
qed

lemma round53_exact: "n < 2 ^ 53 \<Longrightarrow> round53 n = n"
  using bit_length_le [of n 53] by (simp add: round53_def Let_def)

lemma float_mul_trunc_exact: "m * w < 2 ^ 53 \<Longrightarrow> float_mul_trunc m k w = m * w div 2 ^ k"
  by (simp add: float_mul_trunc_def round53_exact)

section \<open>Python text\<close>

text \<open>
  Python text is a sequence of code points; \<open>lit\<close> turns an ASCII literal into one.
  Identifiers and other ASCII-only columns keep the type \<^typ>\<open>string\<close>.
\<close>

type_synonym pystr = "nat list"

definition lit :: "string \<Rightarrow> pystr" where
  "lit s = map of_char s"

lemma lit_Nil: "lit [] = []" and lit_Cons: "lit (c # s) = of_char c # lit s"
  by (simp_all add: lit_def)

lemma length_lit [simp]: "length (lit s) = length s"
  by (simp add: lit_def)

section \<open>Lists\<close>

lemma distinct_map_eq: "distinct (map k xs) \<Longrightarrow> x \<in> set xs \<Longrightarrow> y \<in> set xs \<Longrightarrow> k x = k y \<Longrightarrow> x = y"
  by (auto simp: distinct_map inj_on_def)

lemma filter_key_singleton:
  "distinct (map k xs) \<Longrightarrow> x \<in> set xs \<Longrightarrow> filter (\<lambda>y. k y = k x) xs = [x]"
  by (induction xs) (auto simp: filter_empty_conv rev_image_eqI)

lemma those_Some: "those xs = Some ys \<longleftrightarrow> xs = map Some ys"
  by (induction xs arbitrary: ys) (auto split: option.splits)

end
