(* ===== verification/Text.thy ===== *)
theory Text
  imports Prelude
begin

text \<open>
  JSON values (\<open>JTime\<close> is the ISO text of a timestamp) and Python text.  A \<open>str\<close> is the list of its code points (\<open>pystr\<close>); the
  operations of \<open>str\<close> the worker uses are defined here, with the Unicode white space of
  \<open>str.strip\<close>.  \<open>executor/text.py\<close> (\<open>flatten_text\<close>) is the first client.
\<close>

section \<open>JSON\<close>

datatype json =
    JNull
  | JBool bool
  | JNum int
  | JStr pystr
  | JTime time
  | JList "json list"
  | JObj "(string \<times> json) list"

definition json_get :: "string \<Rightarrow> json \<Rightarrow> json option" where
  "json_get k j = (case j of JObj kvs \<Rightarrow> map_of kvs k | _ \<Rightarrow> None)"

definition json_truthy :: "json \<Rightarrow> bool" where
  "json_truthy j = (case j of JNull \<Rightarrow> False | JBool b \<Rightarrow> b | JNum n \<Rightarrow> n \<noteq> 0 | JStr s \<Rightarrow> s \<noteq> []
     | JList xs \<Rightarrow> xs \<noteq> [] | JObj xs \<Rightarrow> xs \<noteq> [] | JTime _ \<Rightarrow> True)"

text \<open>\<open>a or b\<close> on two lookups.\<close>

definition or_else :: "json option \<Rightarrow> json option \<Rightarrow> json option" where
  "or_else a b = (case a of Some j \<Rightarrow> if json_truthy j then a else b | None \<Rightarrow> b)"

text \<open>\<open>int(...)\<close> of a token count; anything but a number or a flag raises.\<close>

definition py_int :: "json \<Rightarrow> int option" where
  "py_int j = (case j of JNum i \<Rightarrow> Some i | JBool b \<Rightarrow> Some (if b then 1 else 0) | _ \<Rightarrow> None)"

section \<open>Operations of \<open>str\<close>\<close>

definition py_spaces :: "nat list" where
  "py_spaces = [9, 10, 11, 12, 13, 28, 29, 30, 31, 32, 133, 160, 5760, 8192, 8193, 8194, 8195, 8196,
     8197, 8198, 8199, 8200, 8201, 8202, 8232, 8233, 8239, 8287, 12288]"

definition is_space :: "nat \<Rightarrow> bool" where
  "is_space c \<longleftrightarrow> c \<in> set py_spaces"

definition lstrip :: "pystr \<Rightarrow> pystr" where
  "lstrip s = dropWhile is_space s"

definition rstrip :: "pystr \<Rightarrow> pystr" where
  "rstrip s = rev (dropWhile is_space (rev s))"

definition strip :: "pystr \<Rightarrow> pystr" where
  "strip s = rstrip (lstrip s)"

fun join :: "pystr \<Rightarrow> pystr list \<Rightarrow> pystr" where
  "join sep [] = []"
| "join sep [x] = x"
| "join sep (x # y # xs) = x @ sep @ join sep (y # xs)"

definition replace_char :: "nat \<Rightarrow> pystr \<Rightarrow> pystr \<Rightarrow> pystr" where
  "replace_char c new s = concat (map (\<lambda>x. if x = c then new else [x]) s)"

definition startswith :: "pystr \<Rightarrow> pystr \<Rightarrow> bool" where
  "startswith p s \<longleftrightarrow> take (length p) s = p"

definition endswith :: "pystr \<Rightarrow> pystr \<Rightarrow> bool" where
  "endswith p s \<longleftrightarrow> startswith (rev p) (rev s)"

fun contains_text :: "pystr \<Rightarrow> pystr \<Rightarrow> bool" where
  "contains_text p [] \<longleftrightarrow> p = []"
| "contains_text p (c # s) \<longleftrightarrow> startswith p (c # s) \<or> contains_text p s"

fun split_char :: "nat \<Rightarrow> pystr \<Rightarrow> pystr list" where
  "split_char c [] = [[]]"
| "split_char c (x # s) =
     (if x = c then [] # split_char c s
      else case split_char c s of [] \<Rightarrow> [[x]] | y # ys \<Rightarrow> (x # y) # ys)"

definition NL :: nat where "NL = 10"

text \<open>\<open>str(n)\<close>, which f-strings use.\<close>

fun dec_nat :: "nat \<Rightarrow> pystr" where
  "dec_nat n = (if n < 10 then [48 + n] else dec_nat (n div 10) @ [48 + n mod 10])"

declare dec_nat.simps [simp del]

definition dec :: "int \<Rightarrow> pystr" where
  "dec i = (if i < 0 then 45 # dec_nat (nat (- i)) else dec_nat (nat i))"

text \<open>\<open>s.encode("utf-8")\<close> of one code point, and the length in bytes.\<close>

definition utf8_char :: "nat \<Rightarrow> nat list" where
  "utf8_char c =
     (if c < 128 then [c]
      else if c < 2048 then [192 + c div 64, 128 + c mod 64]
      else if c < 65536 then [224 + c div 4096, 128 + c div 64 mod 64, 128 + c mod 64]
      else [240 + c div 262144, 128 + c div 4096 mod 64, 128 + c div 64 mod 64, 128 + c mod 64])"

definition utf8 :: "pystr \<Rightarrow> nat list" where
  "utf8 s = concat (map utf8_char s)"

text \<open>A strict decoder; lone surrogates cannot be encoded, so \<open>is_scalar\<close> excludes them.\<close>

definition is_scalar :: "nat \<Rightarrow> bool" where
  "is_scalar c \<longleftrightarrow> c < 1114112 \<and> \<not> (55296 \<le> c \<and> c \<le> 57343)"

definition is_cont :: "nat \<Rightarrow> bool" where
  "is_cont b \<longleftrightarrow> 128 \<le> b \<and> b < 192"

fun utf8_decode :: "nat list \<Rightarrow> pystr option" where
  "utf8_decode [] = Some []"
| "utf8_decode (a # r) =
     (if a < 128 then map_option ((#) a) (utf8_decode r)
      else if 192 \<le> a \<and> a < 224 then
        (case r of
           b # r' \<Rightarrow>
             let c = (a - 192) * 64 + (b - 128) in
             if is_cont b \<and> 128 \<le> c then map_option ((#) c) (utf8_decode r') else None
         | _ \<Rightarrow> None)
      else if 224 \<le> a \<and> a < 240 then
        (case r of
           b # b2 # r' \<Rightarrow>
             let c = (a - 224) * 4096 + (b - 128) * 64 + (b2 - 128) in
             if is_cont b \<and> is_cont b2 \<and> 2048 \<le> c \<and> is_scalar c
             then map_option ((#) c) (utf8_decode r') else None
         | _ \<Rightarrow> None)
      else if 240 \<le> a \<and> a < 248 then
        (case r of
           b # b2 # b3 # r' \<Rightarrow>
             let c = (a - 240) * 262144 + (b - 128) * 4096 + (b2 - 128) * 64 + (b3 - 128) in
             if is_cont b \<and> is_cont b2 \<and> is_cont b3 \<and> 65536 \<le> c \<and> is_scalar c
             then map_option ((#) c) (utf8_decode r') else None
         | _ \<Rightarrow> None)
      else None)"

text \<open>
  \<open>s.encode("utf-8")[:n].decode("utf-8", errors="ignore")\<close>: cutting valid UTF-8 at byte \<open>n\<close>
  leaves at most one incomplete sequence, which is dropped.
\<close>

fun utf8_prefix :: "nat \<Rightarrow> pystr \<Rightarrow> pystr" where
  "utf8_prefix n [] = []"
| "utf8_prefix n (c # s) =
     (if length (utf8_char c) \<le> n then c # utf8_prefix (n - length (utf8_char c)) s else [])"

text \<open>\<open>s.splitlines()\<close>, without the line ends.\<close>

definition is_line_end :: "nat \<Rightarrow> bool" where
  "is_line_end c \<longleftrightarrow> c \<in> set [10, 11, 12, 13, 28, 29, 30, 133, 8232, 8233]"

fun splitlines_from :: "bool \<Rightarrow> pystr \<Rightarrow> pystr \<Rightarrow> pystr list" where
  "splitlines_from after_cr cur [] = (if cur = [] then [] else [rev cur])"
| "splitlines_from after_cr cur (c # s) =
     (if after_cr \<and> c = 10 then splitlines_from False cur s
      else if is_line_end c then rev cur # splitlines_from (c = 13) [] s
      else splitlines_from False (c # cur) s)"

definition splitlines :: "pystr \<Rightarrow> pystr list" where
  "splitlines s = splitlines_from False [] s"

text \<open>\<open>repr(s)\<close>; \<open>printable\<close> is the Unicode table behind \<open>str.isprintable\<close> for non-ASCII characters.\<close>

definition hex_digit :: "nat \<Rightarrow> nat" where
  "hex_digit i = (if i < 10 then 48 + i else 87 + i)"

definition hex_of :: "nat \<Rightarrow> nat \<Rightarrow> pystr" where
  "hex_of k n = map (\<lambda>i. hex_digit (n div 16 ^ (k - 1 - i) mod 16)) [0..<k]"

definition repr_char :: "(nat \<Rightarrow> bool) \<Rightarrow> nat \<Rightarrow> nat \<Rightarrow> pystr" where
  "repr_char printable q c =
     (if c = q \<or> c = 92 then [92, c]
      else if c = 9 then lit (CHR 92 # ''t'')
      else if c = 10 then lit (CHR 92 # ''n'')
      else if c = 13 then lit (CHR 92 # ''r'')
      else if 32 \<le> c \<and> c < 127 \<or> 127 < c \<and> printable c then [c]
      else if c < 256 then lit (CHR 92 # ''x'') @ hex_of 2 c
      else if c < 65536 then lit (CHR 92 # ''u'') @ hex_of 4 c
      else lit (CHR 92 # ''U'') @ hex_of 8 c)"

definition repr :: "(nat \<Rightarrow> bool) \<Rightarrow> pystr \<Rightarrow> pystr" where
  "repr printable s =
     (let q = (if 39 \<in> set s \<and> 34 \<notin> set s then 34 else 39)
      in [q] @ concat (map (repr_char printable q) s) @ [q])"

section \<open>Text of a message content\<close>

fun block_text :: "json \<Rightarrow> pystr option" where
  "block_text (JStr s) = Some s"
| "block_text (JObj kvs) = (case map_of kvs ''text'' of Some (JStr s) \<Rightarrow> Some s | _ \<Rightarrow> None)"
| "block_text _ = None"

text \<open>A content is a text or a list of blocks, so the last branch of \<open>flatten_text\<close> is not reached.\<close>

datatype content = Plain pystr | Blocks "json list"

fun flatten_text :: "content \<Rightarrow> pystr" where
  "flatten_text (Plain s) = s"
| "flatten_text (Blocks bs) = concat (List.map_filter block_text bs)"

section \<open>Lemmas\<close>

lemma length_join: "length (join sep xs) = sum_list (map length xs) + length sep * (length xs - 1)"
  by (induction sep xs rule: join.induct) auto

lemma set_join: "set (join sep xs) \<subseteq> set sep \<union> \<Union> (set (map set xs))"
  by (induction sep xs rule: join.induct) auto

lemma join_append:
  "xs \<noteq> [] \<Longrightarrow> ys \<noteq> [] \<Longrightarrow> join sep (xs @ ys) = join sep xs @ sep @ join sep ys"
  by (induction sep xs rule: join.induct) (auto simp: neq_Nil_conv)

lemma join_Cons: "xs \<noteq> [] \<Longrightarrow> join sep (x # xs) = x @ sep @ join sep xs"
  by (cases xs) auto

lemma set_strip: "set (strip s) \<subseteq> set s"
  unfolding strip_def rstrip_def lstrip_def
  by (metis set_dropWhileD set_rev subsetI)

lemma strip_infix: "\<exists>a b. s = a @ strip s @ b \<and> list_all is_space a \<and> list_all is_space b"
proof -
  let ?l = "dropWhile is_space s"
  have "s = takeWhile is_space s @ rev (dropWhile is_space (rev ?l)) @ rev (takeWhile is_space (rev ?l))"
    by (metis rev_append rev_rev_ident takeWhile_dropWhile_id)
  moreover have "list_all is_space (takeWhile is_space x)" for x
    by (induction x) auto
  ultimately show ?thesis unfolding strip_def rstrip_def lstrip_def
    by (metis list_all_rev)
qed

lemma length_strip: "length (strip s) \<le> length s"
  by (metis strip_infix length_append le_add1 le_add2 le_trans)

lemma dropWhile_idem: "dropWhile P (dropWhile P xs) = dropWhile P xs"
  by (induction xs) auto

lemma rstrip_hd: "\<not> is_space c \<Longrightarrow> rstrip (c # t) = c # rstrip t"
  by (induction t rule: rev_induct) (auto simp: rstrip_def dropWhile_append)

lemma strip_idem [simp]: "strip (strip s) = strip s"
proof (cases "lstrip s")
  case Nil
  then show ?thesis by (simp add: strip_def rstrip_def) (simp add: lstrip_def)
next
  case (Cons c t)
  then have "\<not> is_space c" unfolding lstrip_def by (metis dropWhile_eq_Cons_conv)
  moreover have "rstrip (rstrip x) = rstrip x" for x by (simp add: rstrip_def dropWhile_idem)
  moreover have "lstrip (c # rstrip t) = c # rstrip t" using \<open>\<not> is_space c\<close> by (simp add: lstrip_def)
  ultimately show ?thesis using Cons by (simp add: strip_def rstrip_hd)
qed

lemma replace_char_fresh: "c \<notin> set new \<Longrightarrow> c \<notin> set (replace_char c new s)"
  by (auto simp: replace_char_def)

lemma dec_nat_digits: "set (dec_nat n) \<subseteq> {48..57} \<and> dec_nat n \<noteq> []"
proof (induction n rule: dec_nat.induct)
  case (1 n)
  then show ?case by (subst dec_nat.simps) (auto simp: dec_nat.simps [of n])
qed

lemma join_split_char: "join [c] (split_char c s) = s"
proof (induction c s rule: split_char.induct)
  case (2 c x s)
  have hd: "join sep ((y # a) # l) = y # join sep (a # l)" for sep y a l
    by (cases l) auto
  have "split_char c s \<noteq> []" by (cases s) (auto split: list.splits)
  then show ?case using 2 by (cases "split_char c s") (auto simp: join_Cons hd)
qed simp

lemma utf8_append [simp]: "utf8 (s @ t) = utf8 s @ utf8 t"
  by (simp add: utf8_def)

lemma utf8_length: "length s \<le> length (utf8 s) \<and> length (utf8 s) \<le> 4 * length s"
  by (induction s) (auto simp: utf8_def utf8_char_def)

lemma sextets:
  fixes c :: nat
  shows "c div 64 * 64 + c mod 64 = c"
    "c div 4096 * 4096 + c div 64 mod 64 * 64 + c mod 64 = c"
    "c div 262144 * 262144 + c div 4096 mod 64 * 4096 + c div 64 mod 64 * 64 + c mod 64 = c"
proof -
  have d: "c div 4096 = c div 64 div 64" "c div 262144 = c div 64 div 64 div 64"
    by (simp_all add: div_mult2_eq [symmetric])
  have "c = c div 64 * 64 + c mod 64" "c div 64 = c div 64 div 64 * 64 + c div 64 mod 64"
    "c div 64 div 64 = c div 64 div 64 div 64 * 64 + c div 64 div 64 mod 64" by simp_all
  then show "c div 64 * 64 + c mod 64 = c"
    "c div 4096 * 4096 + c div 64 mod 64 * 64 + c mod 64 = c"
    "c div 262144 * 262144 + c div 4096 mod 64 * 4096 + c div 64 mod 64 * 64 + c mod 64 = c"
    unfolding d by linarith+
qed

lemma decode_char:
  assumes "is_scalar c"
  shows "utf8_decode (utf8_char c @ r) = map_option ((#) c) (utf8_decode r)"
proof -
  have c: "c < 1114112" using assms by (simp add: is_scalar_def)
  have cont: "is_cont (128 + n mod 64)" "128 + n mod 64 - 128 = n mod 64" for n
    by (simp_all add: is_cont_def)
  consider "c < 128" | "128 \<le> c" "c < 2048" | "2048 \<le> c" "c < 65536" | "65536 \<le> c" by linarith
  then show ?thesis
  proof cases
    case 1 then show ?thesis by (simp add: utf8_char_def)
  next
    case 2
    then have "192 + c div 64 < 224" by (simp add: div_less_iff_less_mult)
    with 2 show ?thesis by (simp add: utf8_char_def cont sextets)
  next
    case 3
    then have "224 + c div 4096 < 240" by (simp add: div_less_iff_less_mult)
    with 3 show ?thesis using assms by (simp add: utf8_char_def cont sextets)
  next
    case 4
    have "240 + c div 262144 < 248" using c by (simp add: div_less_iff_less_mult)
    with 4 show ?thesis using assms by (simp add: utf8_char_def cont sextets)
  qed
qed

lemma utf8_roundtrip: "list_all is_scalar s \<Longrightarrow> utf8_decode (utf8 s) = Some s"
  by (induction s) (simp_all add: utf8_def decode_char)

lemma utf8_prefix_bound: "length (utf8 (utf8_prefix n s)) \<le> n"
  by (induction n s rule: utf8_prefix.induct) (auto simp: utf8_def)

lemma utf8_prefix_prefix: "\<exists>t. s = utf8_prefix n s @ t"
  by (induction n s rule: utf8_prefix.induct) auto

lemma split_char_append:
  "c \<notin> set x \<Longrightarrow> split_char c (x @ c # s) = x # split_char c s"
  by (induction x) auto

lemma split_char_fresh: "c \<notin> set x \<Longrightarrow> split_char c x = [x]"
  by (induction x) auto

lemma startswith_append [simp]: "startswith p (p @ s)"
  by (simp add: startswith_def)

lemma endswith_append [simp]: "endswith p (s @ p)"
  by (simp add: endswith_def)

lemma startswith_iff: "startswith p s \<longleftrightarrow> (\<exists>t. s = p @ t)"
  by (metis append_take_drop_id startswith_append startswith_def)

lemma startswithI: "s = p @ t \<Longrightarrow> startswith p s"
  by simp

lemma set_map_filter: "set (List.map_filter f xs) = {y. \<exists>x \<in> set xs. f x = Some y}"
  by (induction xs) (auto simp: List.map_filter_simps split: option.splits)

end
