(* ===== verification/Store.thy ===== *)
theory Store
  imports Text
begin

text \<open>
  The database schema the worker runs on: one record type per table
  (\<open>tasks\<close>, \<open>agents\<close>, \<open>agent_runtime_state\<close>, \<open>agent_cost_ledger\<close>, \<open>task_events\<close>,
  \<open>workers\<close>, \<open>checkpoints\<close>, \<open>checkpoint_writes\<close>, \<open>agent_memory_entries\<close>, \<open>task_attached_memories\<close>) with the columns that the worker
  reads or writes, and the record \<open>db\<close> of all tables.  Column names are the source's,
  with a prefix where two tables share one (and \<open>task_output\<close> for \<open>output\<close>, a keyword).  Surrogate keys that no query of the worker
  reads (\<open>event_id\<close>, \<open>entry_id\<close>) are left out; integer columns are unbounded.
  A value of type \<open>db\<close> is a committed state; a transaction is a function on it.
\<close>

datatype task_status =
    Queued
  | Running
  | Completed
  | DeadLetter
  | WaitingForApproval
  | WaitingForInput
  | Paused

record task =
  task_id :: string
  tenant_id :: string
  agent_id :: string
  status :: task_status
  worker_pool_id :: string
  version :: int
  task_output :: json
  lease_owner :: "string option"
  lease_expiry :: "time option"
  retry_count :: int
  max_retries :: int
  retry_after :: "time option"
  retry_history :: "time list"
  task_timeout_seconds :: int
  last_error_code :: "string option"
  last_error_message :: "pystr option"
  last_worker_id :: "string option"
  dead_letter_reason :: "string option"
  dead_lettered_at :: "time option"
  created_at :: time
  timeout_reference_at :: "time option"
  pending_input_prompt :: "pystr option"
  pending_approval_action :: json
  human_input_timeout_at :: "time option"
  human_response :: "pystr option"
  pause_reason :: "string option"
  pause_details :: json
  resume_eligible_at :: "time option"
  updated_at :: time

record agent =
  a_tenant :: string
  a_agent :: string
  a_active :: bool
  max_concurrent :: int
  budget_max_per_task :: int
  budget_max_per_hour :: int

record runtime_state =
  rs_tenant :: string
  rs_agent :: string
  running_task_count :: int
  hour_window_cost :: int
  scheduler_cursor :: time
  rs_updated_at :: time

record ledger_row =
  l_tenant :: string
  l_agent :: string
  l_task :: string
  l_checkpoint :: string
  l_cost :: int
  l_created_at :: time
  l_operation :: string
  l_model_id :: "pystr option"
  l_tokens_in :: int
  l_tokens_out :: int
  l_summarized_through :: "int option"

record task_event =
  ev_tenant :: string
  ev_task :: string
  ev_agent :: string
  ev_type :: string
  ev_before :: "task_status option"
  ev_after :: "task_status option"
  ev_worker :: "string option"
  ev_error_code :: "string option"
  ev_error_message :: "pystr option"
  ev_details :: json
  ev_at :: time

datatype worker_status = Online | Draining | Offline

record worker_row =
  w_id :: string
  w_status :: worker_status
  last_heartbeat_at :: time

record checkpoint_row =
  ck_task :: string
  ck_ns :: string
  ck_id :: string
  ck_worker :: string
  ck_parent :: "string option"
  ck_ts :: string
  ck_parent_ts :: "string option"
  ck_payload :: json
  ck_metadata :: json
  ck_cost :: int
  ck_exec_metadata :: "json option"
  ck_created_at :: time

record write_row =
  wr_task :: string
  wr_ns :: string
  wr_checkpoint :: string
  wr_writer :: "string option"
  wr_path :: string
  wr_idx :: int
  wr_channel :: string
  wr_type :: string
  wr_blob :: "nat list"

record memory_row =
  m_id :: string
  m_tenant :: string
  m_agent :: string
  m_task :: string
  m_title :: pystr
  m_summary :: pystr
  m_observations :: "pystr list"
  m_rationales :: "pystr list option"
  m_outcome :: string
  m_tags :: "pystr list"
  m_vec :: "string option"
  m_model :: "string option"
  m_version :: int
  m_created_at :: time
  m_updated_at :: time

record attached_row =
  at_task :: string
  at_position :: int
  at_memory :: string

record db =
  tasks :: "task list"
  agents :: "agent list"
  runtime :: "runtime_state list"
  ledger :: "ledger_row list"
  events :: "task_event list"
  workers :: "worker_row list"
  checkpoints :: "checkpoint_row list"
  ck_writes :: "write_row list"
  memories :: "memory_row list"
  attached :: "attached_row list"
  notifies :: "string list"

text \<open>The columns an \<open>agents\<close> row is joined on.\<close>

definition agent_key :: "agent \<Rightarrow> string \<times> string" where
  "agent_key a = (a_tenant a, a_agent a)"

definition rs_key :: "runtime_state \<Rightarrow> string \<times> string" where
  "rs_key r = (rs_tenant r, rs_agent r)"

definition task_agent :: "task \<Rightarrow> string \<times> string" where
  "task_agent t = (tenant_id t, agent_id t)"

section \<open>Lookups\<close>

definition find_task :: "db \<Rightarrow> string \<Rightarrow> task option" where
  "find_task d tid = find (\<lambda>t. task_id t = tid) (tasks d)"

definition find_agent :: "db \<Rightarrow> string \<Rightarrow> string \<Rightarrow> agent option" where
  "find_agent d tn ag = find (\<lambda>a. a_tenant a = tn \<and> a_agent a = ag) (agents d)"

definition find_runtime :: "db \<Rightarrow> string \<Rightarrow> string \<Rightarrow> runtime_state option" where
  "find_runtime d tn ag = find (\<lambda>r. rs_tenant r = tn \<and> rs_agent r = ag) (runtime d)"

definition running_of :: "db \<Rightarrow> string \<Rightarrow> string \<Rightarrow> int" where
  "running_of d tn ag =
     count_where (\<lambda>t. tenant_id t = tn \<and> agent_id t = ag \<and> status t = Running) (tasks d)"

text \<open>
  The lease gate, the predicate of every lease-validated statement
  (\<open>WHERE task_id = .. AND tenant_id = .. AND status = 'running' AND lease_owner = ..\<close>).
\<close>

definition holds_lease :: "string \<Rightarrow> string \<Rightarrow> string \<Rightarrow> task \<Rightarrow> bool" where
  "holds_lease tid tn w t \<longleftrightarrow>
     task_id t = tid \<and> tenant_id t = tn \<and> status t = Running \<and> lease_owner t = Some w"

definition lease_ok :: "string \<Rightarrow> string \<Rightarrow> string \<Rightarrow> db \<Rightarrow> bool" where
  "lease_ok tid tn w d \<longleftrightarrow> (\<exists>t \<in> set (tasks d). holds_lease tid tn w t)"

text \<open>The primary keys of the schema, the part of a database state that SQL enforces.\<close>

definition keys_ok :: "db \<Rightarrow> bool" where
  "keys_ok d \<longleftrightarrow> distinct (map task_id (tasks d)) \<and> distinct (map agent_key (agents d))
     \<and> distinct (map rs_key (runtime d))"

definition empty_db :: db where
  "empty_db = \<lparr>tasks = [], agents = [], runtime = [], ledger = [], events = [], workers = [],
     checkpoints = [], ck_writes = [], memories = [], attached = [], notifies = []\<rparr>"

text \<open>A task row with the column defaults of the schema, as the API inserts it.\<close>

definition new_task :: "string \<Rightarrow> string \<Rightarrow> string \<Rightarrow> string \<Rightarrow> time \<Rightarrow> task" where
  "new_task tid tn ag pl now =
     \<lparr>task_id = tid, tenant_id = tn, agent_id = ag, status = Queued, worker_pool_id = pl,
      version = 1, task_output = JNull, lease_owner = None, lease_expiry = None, retry_count = 0,
      max_retries = 3, retry_after = None, retry_history = [], task_timeout_seconds = 3600,
      last_error_code = None, last_error_message = None, last_worker_id = None,
      dead_letter_reason = None, dead_lettered_at = None, created_at = now,
      timeout_reference_at = Some now, pending_input_prompt = None,
      pending_approval_action = JNull, human_input_timeout_at = None, human_response = None,
      pause_reason = None, pause_details = JNull, resume_eligible_at = None, updated_at = now\<rparr>"

section \<open>Lemmas on lookups\<close>

lemma find_Some_mem: "find P xs = Some x \<Longrightarrow> x \<in> set xs \<and> P x"
  by (induction xs) (auto split: if_splits)

lemma find_map_update:
  "(\<And>x. k (g x) = k x) \<Longrightarrow>
   find (\<lambda>x. k x = a) (map g xs) = map_option g (find (\<lambda>x. k x = a) xs)"
  by (induction xs) auto

lemma find_task_Some: "find_task d tid = Some t \<Longrightarrow> t \<in> set (tasks d) \<and> task_id t = tid"
  unfolding find_task_def by (rule find_Some_mem)

lemma find_distinct:
  "distinct (map k xs) \<Longrightarrow> x \<in> set xs \<Longrightarrow> find (\<lambda>y. k y = k x) xs = Some x"
  by (induction xs) (auto simp: rev_image_eqI)

lemma find_task_mem:
  "keys_ok d \<Longrightarrow> t \<in> set (tasks d) \<Longrightarrow> find_task d (task_id t) = Some t"
  unfolding find_task_def keys_ok_def by (rule find_distinct) auto

lemma lease_ok_unique:
  assumes "keys_ok d" "lease_ok tid tn w d" "lease_ok tid tn' w' d"
  shows "w = w' \<and> tn = tn'"
  using assms distinct_map_eq [of task_id "tasks d"]
  by (fastforce simp: lease_ok_def holds_lease_def keys_ok_def)

lemma running_of_nonneg [simp]: "0 \<le> running_of d tn ag"
  by (simp add: running_of_def)

end
