(* ===== verification/Repositories.thy ===== *)
theory Repositories
  imports Store
begin

text \<open>
  The table helpers of \<open>core/agent_runtime_state_repository.py\<close>,
  \<open>core/cost_ledger_repository.py\<close>, \<open>core/checkpoint_repository.py\<close> and the event
  insert of \<open>core/reaper.py\<close>.  Each is a function on \<open>db\<close> with the transaction's
  \<open>NOW()\<close> as its first argument.  The INSERT of a ledger row can be refused by the
  CHECK on \<open>operation\<close> (migration 0016), so it returns \<open>Inl\<close> of an error; for
  \<open>compaction.tier3\<close> rows it is idempotent under the partial unique index.
\<close>

datatype db_error = CheckViolation string

type_synonym 'a result = "db_error + 'a"

section \<open>agent_runtime_state\<close>

definition epoch_row :: "time \<Rightarrow> string \<Rightarrow> string \<Rightarrow> int \<Rightarrow> runtime_state" where
  "epoch_row now tn ag cost =
     \<lparr>rs_tenant = tn, rs_agent = ag, running_task_count = 0, hour_window_cost = cost,
      scheduler_cursor = 0, rs_updated_at = now\<rparr>"

definition upsert_runtime ::
  "string \<Rightarrow> string \<Rightarrow> runtime_state \<Rightarrow> (runtime_state \<Rightarrow> runtime_state) \<Rightarrow> db \<Rightarrow> db" where
  "upsert_runtime tn ag fresh f d =
     (if \<exists>r \<in> set (runtime d). rs_key r = (tn, ag)
      then d\<lparr>runtime := update_where (\<lambda>r. rs_key r = (tn, ag)) f (runtime d)\<rparr>
      else d\<lparr>runtime := runtime d @ [fresh]\<rparr>)"

definition increment_hour_window_cost :: "time \<Rightarrow> string \<Rightarrow> string \<Rightarrow> int \<Rightarrow> db \<Rightarrow> db" where
  "increment_hour_window_cost now tn ag delta =
     upsert_runtime tn ag (epoch_row now tn ag delta)
       (\<lambda>r. r\<lparr>hour_window_cost := hour_window_cost r + delta, rs_updated_at := now\<rparr>)"

definition decrement_running_count :: "time \<Rightarrow> string \<Rightarrow> string \<Rightarrow> db \<Rightarrow> db" where
  "decrement_running_count now tn ag =
     upsert_runtime tn ag (epoch_row now tn ag 0)
       (\<lambda>r. r\<lparr>running_task_count := max (running_task_count r - 1) 0, rs_updated_at := now\<rparr>)"

section \<open>agent_cost_ledger\<close>

definition ledger_operations :: "string list" where
  "ledger_operations =
     [''model_token_spend'', ''sandbox_runtime'', ''memory_write'', ''compaction.tier3'']"

definition tier3_conflict :: "ledger_row \<Rightarrow> ledger_row \<Rightarrow> bool" where
  "tier3_conflict a b \<longleftrightarrow>
     l_operation a = ''compaction.tier3'' \<and> l_operation b = ''compaction.tier3''
     \<and> l_tenant a = l_tenant b \<and> l_task a = l_task b \<and> l_checkpoint a = l_checkpoint b
     \<and> l_summarized_through a \<noteq> None \<and> l_summarized_through a = l_summarized_through b"

definition insert_cost_row :: "ledger_row \<Rightarrow> db \<Rightarrow> db result" where
  "insert_cost_row row d =
     (if l_operation row \<notin> set ledger_operations
      then Inl (CheckViolation ''agent_cost_ledger_operation_check'')
      else if \<exists>r \<in> set (ledger d). tier3_conflict r row then Inr d
      else Inr (d\<lparr>ledger := ledger d @ [row]\<rparr>))"

text \<open>A row with the keyword defaults of \<open>insert_cost_row\<close>.\<close>

definition cost_row :: "time \<Rightarrow> string \<Rightarrow> string \<Rightarrow> string \<Rightarrow> string \<Rightarrow> int \<Rightarrow> ledger_row" where
  "cost_row now tn ag tid ck cost =
     \<lparr>l_tenant = tn, l_agent = ag, l_task = tid, l_checkpoint = ck, l_cost = cost,
      l_created_at = now, l_operation = ''model_token_spend'', l_model_id = None,
      l_tokens_in = 0, l_tokens_out = 0, l_summarized_through = None\<rparr>"

definition sum_task_cost :: "db \<Rightarrow> string \<Rightarrow> int" where
  "sum_task_cost d tid = sum_of l_cost (filter (\<lambda>r. l_task r = tid) (ledger d))"

definition in_hour_window :: "time \<Rightarrow> string \<Rightarrow> string \<Rightarrow> ledger_row \<Rightarrow> bool" where
  "in_hour_window now tn ag r \<longleftrightarrow>
     l_tenant r = tn \<and> l_agent r = ag \<and> l_created_at r > now - seconds 3600"

definition sum_hourly_cost_for_agent :: "time \<Rightarrow> db \<Rightarrow> string \<Rightarrow> string \<Rightarrow> int" where
  "sum_hourly_cost_for_agent now d tn ag =
     sum_of l_cost (filter (in_hour_window now tn ag) (ledger d))"

definition min_created_at_in_hour_window :: "time \<Rightarrow> db \<Rightarrow> string \<Rightarrow> string \<Rightarrow> time option" where
  "min_created_at_in_hour_window now d tn ag =
     map_option l_created_at (min_row l_created_at (filter (in_hour_window now tn ag) (ledger d)))"

section \<open>checkpoints\<close>

definition fetch_latest_checkpoint_id :: "db \<Rightarrow> string \<Rightarrow> string option" where
  "fetch_latest_checkpoint_id d tid =
     map_option ck_id (max_row ck_created_at (filter (\<lambda>c. ck_task c = tid) (checkpoints d)))"

definition fetch_latest_terminal_checkpoint_id :: "db \<Rightarrow> string \<Rightarrow> string option" where
  "fetch_latest_terminal_checkpoint_id d tid =
     map_option ck_id
       (max_row ck_created_at (filter (\<lambda>c. ck_task c = tid \<and> ck_ns c = '''') (checkpoints d)))"

definition set_cost_and_metadata ::
  "string \<Rightarrow> string \<Rightarrow> int \<Rightarrow> json option \<Rightarrow> db \<Rightarrow> db" where
  "set_cost_and_metadata ck tid cost md d =
     d\<lparr>checkpoints := update_where (\<lambda>c. ck_id c = ck \<and> ck_task c = tid)
        (\<lambda>c. c\<lparr>ck_cost := cost, ck_exec_metadata := md\<rparr>) (checkpoints d)\<rparr>"

definition add_cost_and_preserve_metadata ::
  "string \<Rightarrow> string \<Rightarrow> int \<Rightarrow> json option \<Rightarrow> db \<Rightarrow> db" where
  "add_cost_and_preserve_metadata ck tid delta md d =
     d\<lparr>checkpoints := update_where (\<lambda>c. ck_id c = ck \<and> ck_task c = tid)
        (\<lambda>c. c\<lparr>ck_cost := ck_cost c + delta,
               ck_exec_metadata := (case ck_exec_metadata c of None \<Rightarrow> md | Some m \<Rightarrow> Some m)\<rparr>)
        (checkpoints d)\<rparr>"

definition set_execution_metadata :: "string \<Rightarrow> string \<Rightarrow> json option \<Rightarrow> db \<Rightarrow> db" where
  "set_execution_metadata ck tid md d =
     d\<lparr>checkpoints := update_where (\<lambda>c. ck_id c = ck \<and> ck_task c = tid)
        (\<lambda>c. c\<lparr>ck_exec_metadata := md\<rparr>) (checkpoints d)\<rparr>"

definition add_cost_to_latest_terminal_checkpoint :: "string \<Rightarrow> int \<Rightarrow> db \<Rightarrow> db" where
  "add_cost_to_latest_terminal_checkpoint tid delta d =
     (let target = fetch_latest_terminal_checkpoint_id d tid in
      d\<lparr>checkpoints := update_where (\<lambda>c. target = Some (ck_id c))
         (\<lambda>c. c\<lparr>ck_cost := ck_cost c + delta\<rparr>) (checkpoints d)\<rparr>)"

section \<open>task_events and notifications\<close>

definition insert_task_event ::
  "time \<Rightarrow> string \<Rightarrow> string \<Rightarrow> string \<Rightarrow> string \<Rightarrow> task_status option \<Rightarrow> task_status option
   \<Rightarrow> string option \<Rightarrow> string option \<Rightarrow> pystr option \<Rightarrow> json \<Rightarrow> db \<Rightarrow> db" where
  "insert_task_event now tid tn ag ty before after wk ec em details d =
     d\<lparr>events := events d @
        [\<lparr>ev_tenant = tn, ev_task = tid, ev_agent = ag, ev_type = ty, ev_before = before,
          ev_after = after, ev_worker = wk, ev_error_code = ec, ev_error_message = em,
          ev_details = details, ev_at = now\<rparr>]\<rparr>"

definition pg_notify :: "string \<Rightarrow> db \<Rightarrow> db" where
  "pg_notify p d = d\<lparr>notifies := notifies d @ [p]\<rparr>"

section \<open>Frame lemmas\<close>

text \<open>Each helper writes one table; the simplifier reads the others through it.\<close>

lemma upsert_runtime_frame [simp]:
  "tasks (upsert_runtime tn ag fr f d) = tasks d"
  "agents (upsert_runtime tn ag fr f d) = agents d"
  "ledger (upsert_runtime tn ag fr f d) = ledger d"
  "events (upsert_runtime tn ag fr f d) = events d"
  "workers (upsert_runtime tn ag fr f d) = workers d"
  "checkpoints (upsert_runtime tn ag fr f d) = checkpoints d"
  "ck_writes (upsert_runtime tn ag fr f d) = ck_writes d"
  "notifies (upsert_runtime tn ag fr f d) = notifies d"
  by (simp_all add: upsert_runtime_def)

lemma runtime_ops_frame [simp]:
  "tasks (decrement_running_count now tn ag d) = tasks d"
  "agents (decrement_running_count now tn ag d) = agents d"
  "ledger (decrement_running_count now tn ag d) = ledger d"
  "events (decrement_running_count now tn ag d) = events d"
  "workers (decrement_running_count now tn ag d) = workers d"
  "checkpoints (decrement_running_count now tn ag d) = checkpoints d"
  "notifies (decrement_running_count now tn ag d) = notifies d"
  "tasks (increment_hour_window_cost now tn ag c d) = tasks d"
  "agents (increment_hour_window_cost now tn ag c d) = agents d"
  "ledger (increment_hour_window_cost now tn ag c d) = ledger d"
  "events (increment_hour_window_cost now tn ag c d) = events d"
  "checkpoints (increment_hour_window_cost now tn ag c d) = checkpoints d"
  by (simp_all add: decrement_running_count_def increment_hour_window_cost_def)

lemma insert_task_event_frame [simp]:
  "tasks (insert_task_event now tid tn ag ty b a wk ec em dt d) = tasks d"
  "agents (insert_task_event now tid tn ag ty b a wk ec em dt d) = agents d"
  "runtime (insert_task_event now tid tn ag ty b a wk ec em dt d) = runtime d"
  "ledger (insert_task_event now tid tn ag ty b a wk ec em dt d) = ledger d"
  "workers (insert_task_event now tid tn ag ty b a wk ec em dt d) = workers d"
  "checkpoints (insert_task_event now tid tn ag ty b a wk ec em dt d) = checkpoints d"
  "notifies (insert_task_event now tid tn ag ty b a wk ec em dt d) = notifies d"
  by (simp_all add: insert_task_event_def)

lemma pg_notify_frame [simp]:
  "tasks (pg_notify p d) = tasks d" "agents (pg_notify p d) = agents d"
  "runtime (pg_notify p d) = runtime d" "ledger (pg_notify p d) = ledger d"
  "events (pg_notify p d) = events d" "checkpoints (pg_notify p d) = checkpoints d"
  "workers (pg_notify p d) = workers d"
  by (simp_all add: pg_notify_def)

lemma checkpoint_ops_frame [simp]:
  "tasks (set_cost_and_metadata ck tid c md d) = tasks d"
  "runtime (set_cost_and_metadata ck tid c md d) = runtime d"
  "agents (set_cost_and_metadata ck tid c md d) = agents d"
  "ledger (set_cost_and_metadata ck tid c md d) = ledger d"
  "tasks (set_execution_metadata ck tid md d) = tasks d"
  "runtime (set_execution_metadata ck tid md d) = runtime d"
  "agents (set_execution_metadata ck tid md d) = agents d"
  "ledger (set_execution_metadata ck tid md d) = ledger d"
  "tasks (add_cost_and_preserve_metadata ck tid c md d) = tasks d"
  "runtime (add_cost_and_preserve_metadata ck tid c md d) = runtime d"
  "agents (add_cost_and_preserve_metadata ck tid c md d) = agents d"
  "ledger (add_cost_and_preserve_metadata ck tid c md d) = ledger d"
  "tasks (add_cost_to_latest_terminal_checkpoint tid c d) = tasks d"
  "runtime (add_cost_to_latest_terminal_checkpoint tid c d) = runtime d"
  "agents (add_cost_to_latest_terminal_checkpoint tid c d) = agents d"
  "ledger (add_cost_to_latest_terminal_checkpoint tid c d) = ledger d"
  by (simp_all add: set_cost_and_metadata_def set_execution_metadata_def
      add_cost_and_preserve_metadata_def add_cost_to_latest_terminal_checkpoint_def Let_def)

lemma insert_cost_row_frame:
  assumes "insert_cost_row row d = Inr d'"
  shows "tasks d' = tasks d \<and> agents d' = agents d \<and> runtime d' = runtime d \<and>
    events d' = events d \<and> checkpoints d' = checkpoints d \<and> notifies d' = notifies d \<and>
    workers d' = workers d \<and> ck_writes d' = ck_writes d"
  using assms by (auto simp: insert_cost_row_def split: if_splits)

lemma running_of_cong: "tasks d' = tasks d \<Longrightarrow> running_of d' tn ag = running_of d tn ag"
  by (simp add: running_of_def)

lemma find_task_cong: "tasks d' = tasks d \<Longrightarrow> find_task d' tid = find_task d tid"
  by (simp add: find_task_def)

section \<open>The runtime row of an agent\<close>

text \<open>
  \<open>running_count d tn ag\<close> reads the counter the scheduler uses, 0 for an agent
  that has no row yet (the sentinel row the upserts insert).
\<close>

definition running_count :: "db \<Rightarrow> string \<Rightarrow> string \<Rightarrow> int" where
  "running_count d tn ag = (case find_runtime d tn ag of None \<Rightarrow> 0 | Some r \<Rightarrow> running_task_count r)"

definition window_cost :: "db \<Rightarrow> string \<Rightarrow> string \<Rightarrow> int" where
  "window_cost d tn ag = (case find_runtime d tn ag of None \<Rightarrow> 0 | Some r \<Rightarrow> hour_window_cost r)"

lemma find_runtime_key: "find_runtime d tn ag = find (\<lambda>r. rs_key r = (tn, ag)) (runtime d)"
  by (simp add: find_runtime_def rs_key_def)

lemma find_none_append: "(\<And>x. x \<in> set xs \<Longrightarrow> \<not> P x) \<Longrightarrow> find P (xs @ ys) = find P ys"
  by (induction xs) auto

lemma find_some_append: "x \<in> set xs \<Longrightarrow> P x \<Longrightarrow> find P (xs @ ys) = find P xs"
  by (induction xs) auto

lemma find_update_where_key:
  "(\<And>r. k (f r) = k r) \<Longrightarrow>
   find (\<lambda>r. k r = a) (update_where (\<lambda>r. k r = b) f rows)
   = map_option (\<lambda>r. if a = b then f r else r) (find (\<lambda>r. k r = a) rows)"
  by (induction rows) auto

lemma find_runtime_upsert:
  assumes "\<And>r. rs_key (f r) = rs_key r" "rs_key fresh = (tn, ag)"
  shows "find_runtime (upsert_runtime tn ag fresh f d) tn' ag' =
    (if tn' = tn \<and> ag' = ag
     then Some (case find_runtime d tn ag of None \<Rightarrow> fresh | Some r \<Rightarrow> f r)
     else find_runtime d tn' ag')"
proof (cases "\<exists>r \<in> set (runtime d). rs_key r = (tn, ag)")
  case True
  then obtain r where "find (\<lambda>r. rs_key r = (tn, ag)) (runtime d) = Some r"
    by (cases "find (\<lambda>r. rs_key r = (tn, ag)) (runtime d)") (auto simp: find_None_iff)
  with True show ?thesis
    using find_update_where_key [of rs_key f "(tn', ag')" "(tn, ag)" "runtime d"] assms(1)
    by (auto simp: find_runtime_key upsert_runtime_def option.map_ident cong: if_cong)
next
  case False
  then have "find (\<lambda>r. rs_key r = (tn, ag)) (runtime d) = None"
    by (auto simp: find_None_iff)
  moreover have "find P (xs @ [fresh]) = (case find P xs of None \<Rightarrow> if P fresh then Some fresh else None | Some x \<Rightarrow> Some x)" for P xs
    by (induction xs) auto
  ultimately show ?thesis using False assms(2)
    by (auto simp: find_runtime_key upsert_runtime_def split: option.splits)
qed

lemma running_count_decrement:
  "running_count (decrement_running_count now tn ag d) tn' ag' =
     (if tn' = tn \<and> ag' = ag then max (running_count d tn ag - 1) 0 else running_count d tn' ag')"
  unfolding running_count_def decrement_running_count_def
  by (subst find_runtime_upsert) (auto simp: rs_key_def epoch_row_def split: option.splits)

lemma window_cost_increment:
  "window_cost (increment_hour_window_cost now tn ag c d) tn' ag' =
     (if tn' = tn \<and> ag' = ag then window_cost d tn ag + c else window_cost d tn' ag')"
  unfolding window_cost_def increment_hour_window_cost_def
  by (subst find_runtime_upsert) (auto simp: rs_key_def epoch_row_def split: option.splits)

lemma running_count_increment_cost [simp]:
  "running_count (increment_hour_window_cost now tn ag c d) tn' ag' = running_count d tn' ag'"
  unfolding running_count_def increment_hour_window_cost_def
  by (subst find_runtime_upsert) (auto simp: rs_key_def epoch_row_def split: option.splits)

lemma running_count_cong: "runtime d' = runtime d \<Longrightarrow> running_count d' tn ag = running_count d tn ag"
  by (simp add: running_count_def find_runtime_def)

lemma keys_ok_upsert:
  assumes "keys_ok d" "\<And>r. rs_key (f r) = rs_key r" "rs_key fresh = (tn, ag)"
  shows "keys_ok (upsert_runtime tn ag fresh f d)"
  using assms by (auto simp: keys_ok_def upsert_runtime_def map_key_update_where)

lemma keys_ok_runtime_ops [simp]:
  "keys_ok d \<Longrightarrow> keys_ok (decrement_running_count now tn ag d)"
  "keys_ok d \<Longrightarrow> keys_ok (increment_hour_window_cost now tn ag c d)"
  unfolding decrement_running_count_def increment_hour_window_cost_def
  by (rule keys_ok_upsert; simp add: rs_key_def epoch_row_def)+

lemma keys_ok_cong:
  "tasks d' = tasks d \<Longrightarrow> agents d' = agents d \<Longrightarrow> runtime d' = runtime d \<Longrightarrow> keys_ok d' = keys_ok d"
  by (simp add: keys_ok_def)

section \<open>The cost ledger\<close>

lemma sum_task_cost_insert:
  assumes "insert_cost_row row d = Inr d'" "\<not> (\<exists>r \<in> set (ledger d). tier3_conflict r row)"
  shows "sum_task_cost d' tid = sum_task_cost d tid + (if l_task row = tid then l_cost row else 0)"
  using assms by (auto simp: insert_cost_row_def sum_task_cost_def split: if_splits)

lemma insert_cost_row_fails_iff:
  "(\<exists>e. insert_cost_row row d = Inl e) \<longleftrightarrow> l_operation row \<notin> set ledger_operations"
  by (auto simp: insert_cost_row_def)

lemma tier3_conflict_self:
  "l_operation row = ''compaction.tier3'' \<Longrightarrow> l_summarized_through row \<noteq> None \<Longrightarrow> tier3_conflict row row"
  by (simp add: tier3_conflict_def)

lemma insert_cost_row_replay:
  assumes "l_operation row = ''compaction.tier3''" "l_summarized_through row \<noteq> None"
    and "insert_cost_row row d = Inr d'"
    and "tier3_conflict row row'" "l_operation row' \<in> set ledger_operations"
  shows "insert_cost_row row' d' = Inr d'"
proof -
  have "\<exists>r \<in> set (ledger d'). tier3_conflict r row"
    using assms(1-3) tier3_conflict_self [of row]
    by (auto simp: insert_cost_row_def split: if_splits)
  then have "\<exists>r \<in> set (ledger d'). tier3_conflict r row'"
    using assms(4) by (auto simp: tier3_conflict_def)
  then show ?thesis using assms(5) by (simp add: insert_cost_row_def)
qed

lemma min_created_at_in_window:
  "min_created_at_in_hour_window now d tn ag = Some t \<Longrightarrow> now - seconds 3600 < t"
  by (auto simp: min_created_at_in_hour_window_def in_hour_window_def dest!: min_row_mem)

lemma min_created_at_None_iff:
  "min_created_at_in_hour_window now d tn ag = None
   \<longleftrightarrow> (\<forall>r \<in> set (ledger d). \<not> in_hour_window now tn ag r)"
  by (auto simp: min_created_at_in_hour_window_def filter_empty_conv)

end
