(* ===== verification/Poller.thy ===== *)
theory Poller
  imports Repositories
begin

text \<open>
  \<open>core/poller.py\<close>: the claim transaction (agent-aware round robin), the poller's own
  state (semaphore permits, active-task counter, set of execution tasks, backoff) with
  every path of \<open>_try_claim\<close> including its exception handler, the poll loop's backoff,
  and \<open>drain\<close>.  The worker configuration of \<open>core/config.py\<close> is the record \<open>config\<close>;
  the float \<open>poll_backoff_multiplier\<close> is the dyadic number \<open>fst / 2 ^ snd\<close>.
  Rows locked by another transaction (\<open>SKIP LOCKED\<close>) are the parameter \<open>locked\<close>.
\<close>

record config =
  worker_id :: string
  pool_id :: string
  cfg_tenant :: string
  max_concurrent_tasks :: nat
  poll_backoff_initial_ms :: nat
  poll_backoff_max_ms :: nat
  poll_backoff_multiplier :: "nat \<times> nat"
  lease_duration_seconds :: int

definition default_config :: "string \<Rightarrow> config" where
  "default_config w =
     \<lparr>worker_id = w, pool_id = ''shared'', cfg_tenant = ''default'', max_concurrent_tasks = 10,
      poll_backoff_initial_ms = 100, poll_backoff_max_ms = 5000,
      poll_backoff_multiplier = (2, 0), lease_duration_seconds = 60\<rparr>"

section \<open>The claim transaction\<close>

definition preclaim_upsert :: "config \<Rightarrow> time \<Rightarrow> db \<Rightarrow> db" where
  "preclaim_upsert c now d =
     (let keys = remdups (map task_agent
            (filter (\<lambda>t. worker_pool_id t = pool_id c \<and> tenant_id t = cfg_tenant c
                         \<and> status t = Queued) (tasks d)));
          fresh = filter (\<lambda>k. k \<notin> rs_key ` set (runtime d)) keys
      in d\<lparr>runtime := runtime d @ map (\<lambda>k. epoch_row now (fst k) (snd k) 0) fresh\<rparr>)"

definition task_ready :: "config \<Rightarrow> time \<Rightarrow> string \<Rightarrow> string \<Rightarrow> task \<Rightarrow> bool" where
  "task_ready c now tn ag t \<longleftrightarrow>
     tenant_id t = tn \<and> agent_id t = ag \<and> worker_pool_id t = pool_id c
     \<and> status t = Queued \<and> sql_null_or_before (retry_after t) now"

definition agent_eligible :: "config \<Rightarrow> time \<Rightarrow> db \<Rightarrow> runtime_state \<Rightarrow> bool" where
  "agent_eligible c now d r \<longleftrightarrow>
     (case find_agent d (rs_tenant r) (rs_agent r) of
        None \<Rightarrow> False
      | Some a \<Rightarrow> a_active a \<and> rs_tenant r = cfg_tenant c
          \<and> running_task_count r < max_concurrent a
          \<and> hour_window_cost r < budget_max_per_hour a
          \<and> (\<exists>t \<in> set (tasks d). task_ready c now (rs_tenant r) (rs_agent r) t))"

definition find_eligible_agent :: "config \<Rightarrow> time \<Rightarrow> db \<Rightarrow> runtime_state option" where
  "find_eligible_agent c now d = min_row scheduler_cursor (filter (agent_eligible c now d) (runtime d))"

definition find_agent_task ::
  "config \<Rightarrow> time \<Rightarrow> (string \<Rightarrow> bool) \<Rightarrow> string \<Rightarrow> string \<Rightarrow> db \<Rightarrow> task option" where
  "find_agent_task c now locked tn ag d =
     min_row created_at (filter (\<lambda>t. task_ready c now tn ag t \<and> \<not> locked (task_id t)) (tasks d))"

definition claim_row :: "config \<Rightarrow> time \<Rightarrow> task \<Rightarrow> task" where
  "claim_row c now t =
     t\<lparr>status := Running, lease_owner := Some (worker_id c),
       lease_expiry := Some (now + seconds (lease_duration_seconds c)),
       version := version t + 1, updated_at := now\<rparr>"

definition claim_task :: "config \<Rightarrow> time \<Rightarrow> string \<Rightarrow> db \<Rightarrow> db" where
  "claim_task c now tid d =
     d\<lparr>tasks := update_where (\<lambda>t. task_id t = tid) (claim_row c now) (tasks d)\<rparr>"

definition bump_runtime :: "time \<Rightarrow> string \<Rightarrow> string \<Rightarrow> db \<Rightarrow> db" where
  "bump_runtime now tn ag d =
     d\<lparr>runtime := update_where (\<lambda>r. rs_key r = (tn, ag))
        (\<lambda>r. r\<lparr>running_task_count := running_task_count r + 1, scheduler_cursor := now,
               rs_updated_at := now\<rparr>) (runtime d)\<rparr>"

definition claim_txn :: "config \<Rightarrow> time \<Rightarrow> (string \<Rightarrow> bool) \<Rightarrow> db \<Rightarrow> db \<times> task option" where
  "claim_txn c now locked d =
     (let d0 = preclaim_upsert c now d in
      case find_eligible_agent c now d0 of
        None \<Rightarrow> (d0, None)
      | Some r \<Rightarrow>
          (case find_agent_task c now locked (rs_tenant r) (rs_agent r) d0 of
             None \<Rightarrow> (d0, None)
           | Some t \<Rightarrow>
               (let t' = claim_row c now t;
                    d1 = claim_task c now (task_id t) d0;
                    d2 = bump_runtime now (rs_tenant r) (rs_agent r) d1;
                    d3 = insert_task_event now (task_id t') (tenant_id t') (agent_id t')
                           ''task_claimed'' (Some Queued) (Some Running) (Some (worker_id c))
                           None None (JObj []) d2
                in (d3, Some t'))))"

section \<open>The poller's state\<close>

record poller =
  p_running :: bool
  backoff_ms :: nat
  notify_event :: bool
  permits :: nat
  active_tasks_count :: nat
  execution_tasks :: "string list"

definition init_poller :: "config \<Rightarrow> poller" where
  "init_poller c =
     \<lparr>p_running = True, backoff_ms = poll_backoff_initial_ms c, notify_event = False,
      permits = max_concurrent_tasks c, active_tasks_count = 0, execution_tasks = []\<rparr>"

text \<open>
  Where an exception is raised inside \<open>_try_claim\<close>: by a statement of the transaction,
  by its COMMIT (when the \<open>async with\<close> blocks close), or after it (logging, metrics).
\<close>

datatype fault = NoFault | FaultStatement | FaultCommit | FaultAfterCommit

datatype claim_outcome = Claimed task | NotClaimed | Blocks | Raises

definition release_permit :: "poller \<Rightarrow> poller" where
  "release_permit p = p\<lparr>permits := permits p + 1\<rparr>"

definition on_claim_exception :: "poller \<Rightarrow> poller" where
  "on_claim_exception p = release_permit (p\<lparr>active_tasks_count := active_tasks_count p - 1\<rparr>)"

definition try_claim ::
  "config \<Rightarrow> bool \<Rightarrow> fault \<Rightarrow> time \<Rightarrow> (string \<Rightarrow> bool) \<Rightarrow> db \<Rightarrow> poller \<Rightarrow> db \<times> poller \<times> claim_outcome" where
  "try_claim c router fault now locked d p =
     (if active_tasks_count p \<ge> max_concurrent_tasks c then (d, p, NotClaimed)
      else if permits p = 0 then (d, p, Blocks)
      else let p1 = p\<lparr>permits := permits p - 1\<rparr> in
        if fault = FaultStatement then (d, on_claim_exception p1, Raises)
        else case claim_txn c now locked d of
          (d', None) \<Rightarrow>
            (if fault = FaultCommit then (d, on_claim_exception (release_permit p1), Raises)
             else (d', release_permit p1, NotClaimed))
        | (d', Some t) \<Rightarrow>
            (if fault = FaultCommit then (d, on_claim_exception p1, Raises)
             else let p2 = p1\<lparr>active_tasks_count := active_tasks_count p1 + 1\<rparr> in
               if fault = FaultAfterCommit then (d', on_claim_exception p2, Raises)
               else if router
               then (d', p2\<lparr>execution_tasks := execution_tasks p2 @ [task_id t]\<rparr>, Claimed t)
               else (d', release_permit p2, Claimed t)))"

text \<open>The \<open>finally\<close> of \<open>_execute_and_release\<close> and the done callback of the task.\<close>

definition finish_execution :: "string \<Rightarrow> poller \<Rightarrow> poller" where
  "finish_execution tid p =
     release_permit (p\<lparr>active_tasks_count := active_tasks_count p - 1,
                       execution_tasks := remove1 tid (execution_tasks p)\<rparr>)"

definition cancel_active_tasks :: "poller \<Rightarrow> poller" where
  "cancel_active_tasks p = fold finish_execution (execution_tasks p) p"

definition on_notify :: "config \<Rightarrow> string \<Rightarrow> poller \<Rightarrow> poller" where
  "on_notify c payload p =
     (if payload = pool_id c \<or> payload = '''' then p\<lparr>notify_event := True\<rparr> else p)"

definition quiesce :: "poller \<Rightarrow> poller" where
  "quiesce p = p\<lparr>p_running := False, notify_event := True\<rparr>"

definition next_backoff :: "config \<Rightarrow> nat \<Rightarrow> nat" where
  "next_backoff c b =
     min (float_mul_trunc (fst (poll_backoff_multiplier c)) (snd (poll_backoff_multiplier c)) b)
         (poll_backoff_max_ms c)"

text \<open>One iteration of \<open>_poll_loop\<close> after its wait has ended; \<open>None\<close>: the loop breaks.\<close>

definition poll_iteration ::
  "config \<Rightarrow> fault \<Rightarrow> time \<Rightarrow> (string \<Rightarrow> bool) \<Rightarrow> db \<Rightarrow> poller \<Rightarrow> (db \<times> poller \<times> claim_outcome) option" where
  "poll_iteration c fault now locked d p =
     (let p0 = p\<lparr>notify_event := False\<rparr> in
      if \<not> p_running p0 then None
      else case try_claim c True fault now locked d p0 of
        (d', p', Claimed t) \<Rightarrow> Some (d', p'\<lparr>backoff_ms := poll_backoff_initial_ms c\<rparr>, Claimed t)
      | (d', p', NotClaimed) \<Rightarrow> Some (d', p'\<lparr>backoff_ms := next_backoff c (backoff_ms p')\<rparr>, NotClaimed)
      | (d', p', out) \<Rightarrow> Some (d', p', out))"

text \<open>
  \<open>drain\<close> samples the counter, which is a function of time here, and sleeps for
  half a second or until the deadline.
\<close>

function drain :: "(time \<Rightarrow> nat) \<Rightarrow> time \<Rightarrow> time \<Rightarrow> bool" where
  "drain count deadline now =
     (if count now > 0
      then if deadline - now \<le> 0 then False
           else drain count deadline (now + min (second div 2) (deadline - now))
      else True)"
  by pat_completeness auto

termination
  by (relation "measure (\<lambda>(count, deadline, now). nat (deadline - now))") (auto simp: second_def)

declare drain.simps [simp del]

section \<open>Lemmas on the claim transaction\<close>

lemma preclaim_frame [simp]:
  "tasks (preclaim_upsert c now d) = tasks d" "agents (preclaim_upsert c now d) = agents d"
  "ledger (preclaim_upsert c now d) = ledger d" "events (preclaim_upsert c now d) = events d"
  by (simp_all add: preclaim_upsert_def Let_def)

lemma claim_task_frame [simp]:
  "agents (claim_task c now tid d) = agents d" "runtime (claim_task c now tid d) = runtime d"
  "ledger (claim_task c now tid d) = ledger d" "events (claim_task c now tid d) = events d"
  by (simp_all add: claim_task_def)

lemma bump_runtime_frame [simp]:
  "tasks (bump_runtime now tn ag d) = tasks d" "agents (bump_runtime now tn ag d) = agents d"
  "ledger (bump_runtime now tn ag d) = ledger d" "events (bump_runtime now tn ag d) = events d"
  by (simp_all add: bump_runtime_def)

lemma find_agent_cong: "agents d' = agents d \<Longrightarrow> find_agent d' tn ag = find_agent d tn ag"
  by (simp add: find_agent_def)

lemma agent_eligible_cong:
  "agents d' = agents d \<Longrightarrow> tasks d' = tasks d \<Longrightarrow> agent_eligible c now d' r = agent_eligible c now d r"
  by (simp add: agent_eligible_def find_agent_def cong: option.case_cong)

lemma keys_ok_preclaim [simp]: "keys_ok d \<Longrightarrow> keys_ok (preclaim_upsert c now d)"
proof -
  assume "keys_ok d"
  moreover have "map (rs_key \<circ> (\<lambda>k. epoch_row now (fst k) (snd k) 0)) ks = ks" for ks
    by (induction ks) (auto simp: rs_key_def epoch_row_def)
  ultimately show ?thesis
    by (auto simp: keys_ok_def preclaim_upsert_def Let_def)
qed

lemma epoch_row_simps [simp]:
  "rs_key (epoch_row now a b x) = (a, b)" "running_task_count (epoch_row now a b x) = 0"
  "hour_window_cost (epoch_row now a b x) = x" "scheduler_cursor (epoch_row now a b x) = 0"
  by (simp_all add: rs_key_def epoch_row_def)

lemma runtime_preclaim:
  obtains ks where
    "runtime (preclaim_upsert c now d) = runtime d @ map (\<lambda>k. epoch_row now (fst k) (snd k) 0) ks"
  by (simp add: preclaim_upsert_def Let_def)

lemma running_count_preclaim [simp]:
  "running_count (preclaim_upsert c now d) tn ag = running_count d tn ag"
  "window_cost (preclaim_upsert c now d) tn ag = window_cost d tn ag"
proof -
  have *: "find (\<lambda>r. rs_key r = (tn, ag)) (xs @ map (\<lambda>k. epoch_row now (fst k) (snd k) 0) ys) =
    (case find (\<lambda>r. rs_key r = (tn, ag)) xs of Some r \<Rightarrow> Some r
     | None \<Rightarrow> if (tn, ag) \<in> set ys then Some (epoch_row now tn ag 0) else None)" for xs ys
  proof (induction xs)
    case Nil
    then show ?case by (induction ys) auto
  qed auto
  obtain ks where "runtime (preclaim_upsert c now d)
      = runtime d @ map (\<lambda>k. epoch_row now (fst k) (snd k) 0) ks"
    by (rule runtime_preclaim)
  with * show "running_count (preclaim_upsert c now d) tn ag = running_count d tn ag"
    "window_cost (preclaim_upsert c now d) tn ag = window_cost d tn ag"
    by (simp_all add: running_count_def window_cost_def find_runtime_key split: option.splits)
qed

lemma preclaim_covers_queued:
  assumes "t \<in> set (tasks d)" "worker_pool_id t = pool_id c" "tenant_id t = cfg_tenant c"
    and "status t = Queued"
  shows "\<exists>r \<in> set (runtime (preclaim_upsert c now d)). rs_key r = task_agent t"
proof (cases "task_agent t \<in> rs_key ` set (runtime d)")
  case True
  then show ?thesis by (auto simp: preclaim_upsert_def Let_def)
next
  case False
  then have "epoch_row now (fst (task_agent t)) (snd (task_agent t)) 0
      \<in> set (runtime (preclaim_upsert c now d))"
    using assms by (auto simp: preclaim_upsert_def Let_def intro!: imageI)
  moreover have "rs_key (epoch_row now (fst (task_agent t)) (snd (task_agent t)) 0) = task_agent t"
    by simp
  ultimately show ?thesis by blast
qed

lemma claim_txn_SomeE:
  assumes "claim_txn c now locked d = (d', Some t')"
  obtains r t where "find_eligible_agent c now (preclaim_upsert c now d) = Some r"
    "find_agent_task c now locked (rs_tenant r) (rs_agent r) (preclaim_upsert c now d) = Some t"
    "t' = claim_row c now t"
    "d' = insert_task_event now (task_id t) (tenant_id t) (agent_id t)
       ''task_claimed'' (Some Queued) (Some Running) (Some (worker_id c)) None None (JObj [])
       (bump_runtime now (rs_tenant r) (rs_agent r)
         (claim_task c now (task_id t) (preclaim_upsert c now d)))"
  using assms
  by (auto simp: claim_txn_def claim_row_def Let_def split: option.splits)

lemma find_runtime_mem:
  "keys_ok d \<Longrightarrow> r \<in> set (runtime d) \<Longrightarrow> find_runtime d (rs_tenant r) (rs_agent r) = Some r"
  using find_distinct [of rs_key "runtime d" r]
  by (auto simp: keys_ok_def find_runtime_key rs_key_def)

lemma running_count_bump:
  assumes "keys_ok d" "r \<in> set (runtime d)" "rs_key r = (tn, ag)"
  shows "running_count (bump_runtime now tn ag d) tn' ag' =
    running_count d tn' ag' + (if tn' = tn \<and> ag' = ag then 1 else 0)"
proof -
  have "find_runtime d tn ag = Some r"
    using find_runtime_mem [OF assms(1,2)] assms(3) by (simp add: rs_key_def)
  then show ?thesis
    using find_update_where_key [of rs_key
        "\<lambda>r. r\<lparr>running_task_count := running_task_count r + 1, scheduler_cursor := now, rs_updated_at := now\<rparr>"
        "(tn', ag')" "(tn, ag)" "runtime d"]
    by (auto simp: running_count_def bump_runtime_def find_runtime_key rs_key_def
        split: option.splits)
qed

lemma min_row_filter_mem: "min_row k (filter P rows) = Some m \<Longrightarrow> m \<in> set rows \<and> P m"
  using min_row_mem by fastforce

lemma find_eligible_agent_Some:
  assumes "find_eligible_agent c now d = Some r"
  shows "r \<in> set (runtime d) \<and> agent_eligible c now d r"
  using assms min_row_filter_mem unfolding find_eligible_agent_def by metis

lemma find_agent_task_Some:
  assumes "find_agent_task c now locked tn ag d = Some t"
  shows "t \<in> set (tasks d) \<and> task_ready c now tn ag t \<and> \<not> locked (task_id t)"
  using assms min_row_filter_mem unfolding find_agent_task_def by metis

lemma keys_ok_claim_task [simp]: "keys_ok d \<Longrightarrow> keys_ok (claim_task c now tid d)"
  by (simp add: keys_ok_def claim_task_def map_key_update_where claim_row_def)

lemma keys_ok_bump [simp]: "keys_ok d \<Longrightarrow> keys_ok (bump_runtime now tn ag d)"
  by (simp add: keys_ok_def bump_runtime_def map_key_update_where rs_key_def)

lemma keys_ok_event [simp]:
  "keys_ok (insert_task_event now tid tn ag ty b a wk ec em dt d) = keys_ok d"
  by (rule keys_ok_cong) simp_all

lemma keys_ok_claim_txn: "keys_ok d \<Longrightarrow> claim_txn c now locked d = (d', out) \<Longrightarrow> keys_ok d'"
  by (auto simp: claim_txn_def Let_def split: option.splits)

lemma find_runtime_Some_eligible:
  assumes "keys_ok d" "r \<in> set (runtime d)"
  shows "running_count d (rs_tenant r) (rs_agent r) = running_task_count r \<and>
    window_cost d (rs_tenant r) (rs_agent r) = hour_window_cost r"
  using find_runtime_mem [OF assms] by (simp add: running_count_def window_cost_def)

text \<open>What a successful claim chose, and what it did.\<close>

lemma claim_txn_guards:
  assumes "keys_ok d" "claim_txn c now locked d = (d', Some t')"
  obtains t a where "t \<in> set (tasks d)" "task_ready c now (tenant_id t) (agent_id t) t"
    "\<not> locked (task_id t)" "tenant_id t = cfg_tenant c" "t' = claim_row c now t"
    "find_agent d (tenant_id t) (agent_id t) = Some a" "a_active a"
    "running_count d (tenant_id t) (agent_id t) < max_concurrent a"
    "window_cost d (tenant_id t) (agent_id t) < budget_max_per_hour a"
proof -
  let ?d0 = "preclaim_upsert c now d"
  from assms(2) obtain r t where rt: "find_eligible_agent c now ?d0 = Some r"
    "find_agent_task c now locked (rs_tenant r) (rs_agent r) ?d0 = Some t" "t' = claim_row c now t"
    by (rule claim_txn_SomeE)
  note el = find_eligible_agent_Some [OF rt(1)] and tk = find_agent_task_Some [OF rt(2)]
  have same: "tenant_id t = rs_tenant r" "agent_id t = rs_agent r"
    using tk by (auto simp: task_ready_def)
  have "running_count d (tenant_id t) (agent_id t) = running_task_count r"
    "window_cost d (tenant_id t) (agent_id t) = hour_window_cost r"
    using find_runtime_Some_eligible [of ?d0 r] assms(1) el same by simp_all
  with el tk same rt(3) that show thesis
    by (auto simp: agent_eligible_def find_agent_cong [of ?d0 d] split: option.splits)
qed

lemma claim_txn_effect:
  assumes "keys_ok d" "claim_txn c now locked d = (d', Some t')"
  shows "tasks d' = update_where (\<lambda>u. task_id u = task_id t') (claim_row c now) (tasks d)"
    and "running_count d' tn ag = running_count d tn ag
           + (if tn = tenant_id t' \<and> ag = agent_id t' then 1 else 0)"
    and "agents d' = agents d" and "ledger d' = ledger d"
    and "events d' = events d @
      [\<lparr>ev_tenant = tenant_id t', ev_task = task_id t', ev_agent = agent_id t',
        ev_type = ''task_claimed'', ev_before = Some Queued, ev_after = Some Running,
        ev_worker = Some (worker_id c), ev_error_code = None, ev_error_message = None,
        ev_details = JObj [], ev_at = now\<rparr>]"
proof -
  let ?d0 = "preclaim_upsert c now d"
  from assms(2) obtain r t where rt: "find_eligible_agent c now ?d0 = Some r"
    "find_agent_task c now locked (rs_tenant r) (rs_agent r) ?d0 = Some t" "t' = claim_row c now t"
    "d' = insert_task_event now (task_id t) (tenant_id t) (agent_id t)
       ''task_claimed'' (Some Queued) (Some Running) (Some (worker_id c)) None None (JObj [])
       (bump_runtime now (rs_tenant r) (rs_agent r) (claim_task c now (task_id t) ?d0))"
    by (rule claim_txn_SomeE)
  note el = find_eligible_agent_Some [OF rt(1)] and tk = find_agent_task_Some [OF rt(2)]
  have ids: "task_id t' = task_id t" "tenant_id t' = rs_tenant r" "agent_id t' = rs_agent r"
    using tk rt(3) by (auto simp: task_ready_def claim_row_def)
  show "tasks d' = update_where (\<lambda>u. task_id u = task_id t') (claim_row c now) (tasks d)"
    using ids rt(4) by (simp add: claim_task_def)
  have "running_count d' tn ag
      = running_count (bump_runtime now (rs_tenant r) (rs_agent r) (claim_task c now (task_id t) ?d0)) tn ag"
    using rt(4) by (intro running_count_cong) simp
  also have "\<dots> = running_count (claim_task c now (task_id t) ?d0) tn ag
      + (if tn = rs_tenant r \<and> ag = rs_agent r then 1 else 0)"
    using el assms(1) by (intro running_count_bump) (auto simp: rs_key_def)
  finally show "running_count d' tn ag = running_count d tn ag
      + (if tn = tenant_id t' \<and> ag = agent_id t' then 1 else 0)"
    using ids by (simp add: running_count_cong [of "claim_task c now (task_id t) ?d0" ?d0])
  show "agents d' = agents d" "ledger d' = ledger d" using rt(4) by simp_all
  have "tenant_id t = rs_tenant r" "agent_id t = rs_agent r"
    using tk by (auto simp: task_ready_def)
  then show "events d' = events d @
      [\<lparr>ev_tenant = tenant_id t', ev_task = task_id t', ev_agent = agent_id t',
        ev_type = ''task_claimed'', ev_before = Some Queued, ev_after = Some Running,
        ev_worker = Some (worker_id c), ev_error_code = None, ev_error_message = None,
        ev_details = JObj [], ev_at = now\<rparr>]"
    using ids rt(4) by (simp add: insert_task_event_def)
qed

lemma claim_txn_none:
  assumes "claim_txn c now locked d = (d', None)"
  shows "d' = preclaim_upsert c now d"
  using assms by (auto simp: claim_txn_def Let_def split: option.splits)

section \<open>Runs of claims: round robin\<close>

text \<open>
  \<open>behind A rows\<close> counts the other agents whose cursor is not ahead of \<open>A\<close>'s.  A claim
  that passes \<open>A\<close> over moves one of them ahead, so it is the measure of the fairness proof.
\<close>

definition behind :: "string \<times> string \<Rightarrow> runtime_state list \<Rightarrow> nat" where
  "behind A rows = length (filter (\<lambda>r. rs_key r \<noteq> A \<and>
     (\<exists>a \<in> set rows. rs_key a = A \<and> scheduler_cursor r \<le> scheduler_cursor a)) rows)"

definition agent_ready :: "config \<Rightarrow> time \<Rightarrow> string \<times> string \<Rightarrow> db \<Rightarrow> bool" where
  "agent_ready c now A d \<longleftrightarrow>
     (\<exists>r \<in> set (runtime (preclaim_upsert c now d)).
        rs_key r = A \<and> agent_eligible c now (preclaim_upsert c now d) r)"

text \<open>A run of claims on one pool, the agents they pick, in order.\<close>

fun claim_run :: "(config \<times> time) list \<Rightarrow> db \<Rightarrow> db \<times> (string \<times> string) list" where
  "claim_run [] d = (d, [])"
| "claim_run ((c, now) # steps) d =
     (case claim_txn c now (\<lambda>_. False) d of
        (d', picked) \<Rightarrow>
          (case claim_run steps d' of
             (d'', rest) \<Rightarrow> (d'', (case picked of None \<Rightarrow> rest | Some t \<Rightarrow> task_agent t # rest))))"

fun ready_throughout :: "(config \<times> time) list \<Rightarrow> string \<times> string \<Rightarrow> db \<Rightarrow> bool" where
  "ready_throughout [] A d = True"
| "ready_throughout ((c, now) # steps) A d \<longleftrightarrow>
     agent_ready c now A d \<and> ready_throughout steps A (fst (claim_txn c now (\<lambda>_. False) d))"

lemma eligible_agent_has_task:
  assumes "agent_eligible c now d r"
  shows "find_agent_task c now (\<lambda>_. False) (rs_tenant r) (rs_agent r) d \<noteq> None"
  using assms by (auto simp: agent_eligible_def find_agent_task_def filter_empty_conv split: option.splits)

lemma find_eligible_agent_least:
  assumes "find_eligible_agent c now d = Some r" "a \<in> set (runtime d)" "agent_eligible c now d a"
  shows "scheduler_cursor r \<le> scheduler_cursor a"
  using assms min_row_least [of scheduler_cursor "filter (agent_eligible c now d) (runtime d)" r a]
  by (simp add: find_eligible_agent_def)

lemma claim_txn_ready:
  assumes "agent_ready c now A d"
  obtains d' t r where "claim_txn c now (\<lambda>_. False) d = (d', Some t)"
    "find_eligible_agent c now (preclaim_upsert c now d) = Some r" "task_agent t = rs_key r"
    "runtime d' = runtime (bump_runtime now (rs_tenant r) (rs_agent r) (preclaim_upsert c now d))"
proof -
  let ?d0 = "preclaim_upsert c now d"
  from assms obtain r where r: "find_eligible_agent c now ?d0 = Some r"
    by (cases "find_eligible_agent c now ?d0")
       (auto simp: agent_ready_def find_eligible_agent_def filter_empty_conv)
  then obtain t where t: "find_agent_task c now (\<lambda>_. False) (rs_tenant r) (rs_agent r) ?d0 = Some t"
    using eligible_agent_has_task find_eligible_agent_Some by blast
  have "task_agent (claim_row c now t) = rs_key r"
    using find_agent_task_Some [OF t] by (simp add: task_ready_def task_agent_def rs_key_def claim_row_def)
  moreover obtain d' where "claim_txn c now (\<lambda>_. False) d = (d', Some (claim_row c now t))"
    "runtime d' = runtime (bump_runtime now (rs_tenant r) (rs_agent r) ?d0)"
    using r t by (simp add: claim_txn_def Let_def bump_runtime_def)
  ultimately show thesis using that r by blast
qed

lemma rs_keys_bump [simp]: "map rs_key (runtime (bump_runtime now tn ag d)) = map rs_key (runtime d)"
  by (simp add: bump_runtime_def map_key_update_where rs_key_def)

lemma rs_keys_claim_txn:
  "claim_txn c now locked d = (d', out) \<Longrightarrow>
   map rs_key (runtime d') = map rs_key (runtime (preclaim_upsert c now d))"
  by (auto simp: claim_txn_def Let_def split: option.splits)

lemma behind_bump:
  assumes "distinct (map rs_key rows)" "a \<in> set rows" "rs_key a = A" "r \<in> set rows" "rs_key r \<noteq> A"
    and "scheduler_cursor r \<le> scheduler_cursor a" "scheduler_cursor a < now"
    and "rows' = update_where (\<lambda>x. rs_key x = rs_key r) f rows"
    and "\<And>x. rs_key (f x) = rs_key x" "\<And>x. scheduler_cursor (f x) = now"
  shows "behind A rows' < behind A rows"
proof -
  have a': "a \<in> set rows'" using assms by (auto intro: update_where_keeps)
  have d': "distinct (map rs_key rows')" using assms by (simp add: map_key_update_where)
  have beh: "behind A xs = length (filter (\<lambda>x. rs_key x \<noteq> A \<and> scheduler_cursor x \<le> scheduler_cursor a) xs)"
    if "distinct (map rs_key xs)" "a \<in> set xs" for xs
  proof -
    have "(\<exists>b \<in> set xs. rs_key b = A \<and> scheduler_cursor x \<le> scheduler_cursor b)
        \<longleftrightarrow> scheduler_cursor x \<le> scheduler_cursor a"
      for x :: runtime_state using distinct_map_eq [OF that] that(2) assms(3) by metis
    then show ?thesis unfolding behind_def by (simp only:)
  qed
  have shrink: "length (filter Q (update_where P f xs)) < length (filter Q xs)"
    if "\<And>x. \<not> Q (f x)" "r \<in> set xs" "P r" "Q r" for Q P and xs :: "runtime_state list"
  proof -
    have le: "length (filter Q (update_where P f ys)) \<le> length (filter Q ys)" for ys
      by (induction ys) (auto simp: that(1))
    show ?thesis using that(2)
    proof (induction xs)
      case (Cons y ys)
      then show ?case using le [of ys] that(1,3,4) by (cases "y = r") auto
    qed simp
  qed
  show ?thesis
    unfolding beh [OF d' a'] beh [OF assms(1,2)] unfolding assms(8)
    by (rule shrink) (use assms(4-7,10) in simp_all)
qed

lemma bump_rows:
  "rows = runtime (bump_runtime now (rs_tenant r) (rs_agent r) d) \<Longrightarrow>
   rows = update_where (\<lambda>x. rs_key x = rs_key r)
     (\<lambda>r. r\<lparr>running_task_count := running_task_count r + 1, scheduler_cursor := now,
            rs_updated_at := now\<rparr>) (runtime d)"
  by (simp add: bump_runtime_def rs_key_def)

lemma preclaim_id:
  assumes "\<And>t. t \<in> set (tasks d) \<Longrightarrow> worker_pool_id t = pool_id c \<Longrightarrow> tenant_id t = cfg_tenant c
      \<Longrightarrow> status t = Queued \<Longrightarrow> task_agent t \<in> rs_key ` set (runtime d)"
  shows "preclaim_upsert c now d = d"
proof -
  have "filter (\<lambda>k. k \<notin> rs_key ` set (runtime d)) (remdups (map task_agent
            (filter (\<lambda>t. worker_pool_id t = pool_id c \<and> tenant_id t = cfg_tenant c
                         \<and> status t = Queued) (tasks d)))) = []"
    using assms by (auto simp: filter_empty_conv)
  then show ?thesis unfolding preclaim_upsert_def Let_def by simp
qed

lemma preclaim_after_claim:
  assumes "keys_ok d" "claim_txn c now locked d = (d', out)"
    and "pool_id c' = pool_id c" "cfg_tenant c' = cfg_tenant c"
  shows "preclaim_upsert c' now' d' = d'"
proof (rule preclaim_id)
  fix t assume t: "t \<in> set (tasks d')" "worker_pool_id t = pool_id c'" "tenant_id t = cfg_tenant c'"
    "status t = Queued"
  have "t \<in> set (tasks d)"
  proof (cases out)
    case None
    then show ?thesis using claim_txn_none assms(2) t(1) by fastforce
  next
    case (Some u)
    then show ?thesis using claim_txn_effect(1) [of d c now locked d' u] assms t(1,4)
      by (auto simp: set_update_where claim_row_def split: if_splits)
  qed
  then obtain r where "r \<in> set (runtime (preclaim_upsert c now d))" "rs_key r = task_agent t"
    using preclaim_covers_queued [of t d c now] t assms(3,4) by auto
  moreover have "rs_key ` set (runtime (preclaim_upsert c now d)) = rs_key ` set (runtime d')"
    using rs_keys_claim_txn [OF assms(2)] by (metis set_map)
  ultimately show "task_agent t \<in> rs_key ` set (runtime d')" by force
qed

lemma claim_run_reaches:
  assumes "keys_ok d" "\<And>s. s \<in> set steps \<Longrightarrow> pool_id (fst s) = P \<and> cfg_tenant (fst s) = T"
    and "sorted_wrt (<) (map snd steps)"
    and "\<And>r s. r \<in> set (runtime d) \<Longrightarrow> s \<in> set steps \<Longrightarrow> scheduler_cursor r < snd s"
    and "\<And>s. s \<in> set steps \<Longrightarrow> 0 < snd s"
    and "ready_throughout steps A d" "steps \<noteq> []"
    and "behind A (runtime (preclaim_upsert (fst (hd steps)) (snd (hd steps)) d)) < length steps"
  shows "A \<in> set (snd (claim_run steps d))"
  using assms
proof (induction steps arbitrary: d)
  case (Cons s steps)
  obtain c now where s: "s = (c, now)" by force
  let ?d0 = "preclaim_upsert c now d"
  have ready: "agent_ready c now A d" using Cons.prems s by simp
  then obtain d' t r where cl: "claim_txn c now (\<lambda>_. False) d = (d', Some t)"
    "find_eligible_agent c now ?d0 = Some r" "task_agent t = rs_key r"
    "runtime d' = runtime (bump_runtime now (rs_tenant r) (rs_agent r) ?d0)"
    by (rule claim_txn_ready)
  have out: "snd (claim_run (s # steps) d) = rs_key r # snd (claim_run steps d')"
    using cl s by (simp split: prod.splits)
  show ?case
  proof (cases "rs_key r = A")
    case False
    from ready obtain a where a: "a \<in> set (runtime ?d0)" "rs_key a = A" "agent_eligible c now ?d0 a"
      by (auto simp: agent_ready_def)
    have cur: "scheduler_cursor x < now" if "x \<in> set (runtime ?d0)" for x
    proof -
      obtain ks where "runtime ?d0 = runtime d @ map (\<lambda>k. epoch_row now (fst k) (snd k) 0) ks"
        by (rule runtime_preclaim)
      then show ?thesis using that Cons.prems(4) [of _ s] Cons.prems(5) [of s] s by auto
    qed
    have "scheduler_cursor r \<le> scheduler_cursor a" "r \<in> set (runtime ?d0)"
      using find_eligible_agent_least [OF cl(2) a(1,3)] find_eligible_agent_Some [OF cl(2)] by auto
    note rmem = this
    have dist: "distinct (map rs_key (runtime ?d0))"
      using keys_ok_preclaim [OF Cons.prems(1)] by (simp add: keys_ok_def)
    have less: "behind A (runtime d') < behind A (runtime ?d0)"
      by (rule behind_bump [OF dist a(1,2) rmem(2) False rmem(1) cur [OF a(1)]
            bump_rows [OF cl(4)]]) (simp_all add: rs_key_def)
    show ?thesis
    proof (cases steps)
      case Nil
      then show ?thesis using less Cons.prems(8) s by simp
    next
      case (Cons s' steps')
      obtain c' now' where s': "s' = (c', now')" by force
      have pre: "preclaim_upsert c' now' d' = d'"
        using preclaim_after_claim [OF Cons.prems(1) cl(1)] Cons.prems(2) [of s] Cons.prems(2) [of s']
          Cons s s' by simp
      have "scheduler_cursor x < snd u" if "x \<in> set (runtime d')" "u \<in> set steps" for x u
      proof -
        have "now < snd u" using Cons.prems(3) s that(2) by auto
        moreover have "scheduler_cursor x \<le> now"
          using that(1) cur unfolding cl(4) bump_runtime_def
          by (auto simp: set_update_where dest: less_imp_le)
        ultimately show ?thesis by simp
      qed
      moreover have "ready_throughout steps A d'" using Cons.prems(6) s cl(1) by simp
      moreover have "behind A (runtime (preclaim_upsert (fst (hd steps)) (snd (hd steps)) d')) < length steps"
        using less Cons.prems(8) s s' Cons pre by simp
      ultimately have "A \<in> set (snd (claim_run steps d'))"
        using Cons.prems(2,3,5) keys_ok_claim_txn [OF Cons.prems(1) cl(1)] Cons
        by (intro Cons.IH) auto
      then show ?thesis by (simp add: out)
    qed
  qed (simp add: out)
qed simp

section \<open>The poller's counters\<close>

inductive poller_step :: "config \<Rightarrow> bool \<Rightarrow> poller \<Rightarrow> poller \<Rightarrow> bool" for c :: config and faulty :: bool where
  claim: "try_claim c True f now locked d p = (d', p', res) \<Longrightarrow> f = NoFault \<or> faulty \<Longrightarrow>
     poller_step c faulty p p'"
| finish: "tid \<in> set (execution_tasks p) \<Longrightarrow> poller_step c faulty p (finish_execution tid p)"
| notify: "poller_step c faulty p (on_notify c payload p)"
| stop: "poller_step c faulty p (quiesce p)"

inductive poller_reachable :: "config \<Rightarrow> bool \<Rightarrow> poller \<Rightarrow> bool" for c :: config and faulty :: bool where
  start: "poller_reachable c faulty (init_poller c)"
| step: "poller_reachable c faulty p \<Longrightarrow> poller_step c faulty p p' \<Longrightarrow> poller_reachable c faulty p'"

definition counters_ok :: "config \<Rightarrow> poller \<Rightarrow> bool" where
  "counters_ok c p \<longleftrightarrow>
     active_tasks_count p = length (execution_tasks p)
     \<and> permits p + active_tasks_count p = max_concurrent_tasks c"

inductive_cases poller_stepE [elim]: "poller_step c faulty p p'"

lemma counters_ok_try_claim:
  assumes "counters_ok c p" "try_claim c True NoFault now locked d p = (d', p', res)"
  shows "counters_ok c p'"
  using assms
  by (auto simp: try_claim_def counters_ok_def Let_def release_permit_def
      split: if_splits prod.splits option.splits)

lemma counters_ok_finish:
  "counters_ok c p \<Longrightarrow> tid \<in> set (execution_tasks p) \<Longrightarrow> counters_ok c (finish_execution tid p)"
  using length_pos_if_in_set [of tid "execution_tasks p"]
  by (cases "length (execution_tasks p)") (auto simp add: counters_ok_def finish_execution_def release_permit_def length_remove1)

lemma counters_ok_frame [simp]:
  "counters_ok c (on_notify c payload p) = counters_ok c p"
  "counters_ok c (quiesce p) = counters_ok c p"
  by (auto simp: counters_ok_def on_notify_def quiesce_def)

lemma counters_ok_step: "poller_step c False p p' \<Longrightarrow> counters_ok c p \<Longrightarrow> counters_ok c p'"
  by (erule poller_stepE) (auto intro: counters_ok_try_claim counters_ok_finish)

lemma counters_ok_reachable: "poller_reachable c False p \<Longrightarrow> counters_ok c p"
  by (induction rule: poller_reachable.induct)
     (simp add: counters_ok_def init_poller_def, rule counters_ok_step)

lemma counters_ok_cancel:
  "counters_ok c p \<Longrightarrow> active_tasks_count (cancel_active_tasks p) = 0 \<and> execution_tasks (cancel_active_tasks p) = []"
proof -
  have *: "counters_ok c q \<and> execution_tasks q = xs \<Longrightarrow>
     counters_ok c (fold finish_execution xs q) \<and> execution_tasks (fold finish_execution xs q) = []" for q xs
  proof (induction xs arbitrary: q)
    case (Cons x xs)
    then have "counters_ok c (finish_execution x q) \<and> execution_tasks (finish_execution x q) = xs"
      using counters_ok_finish [of c q x] by (auto simp: finish_execution_def release_permit_def)
    then show ?case using Cons.IH by simp
  qed simp
  assume "counters_ok c p"
  with * [of p "execution_tasks p"] show ?thesis by (auto simp: cancel_active_tasks_def counters_ok_def)
qed

section \<open>Backoff and drain\<close>

lemma drain_iff_sample:
  "now \<le> deadline \<Longrightarrow> drain count deadline now \<longleftrightarrow>
    (\<exists>n. count (min deadline (now + int n * (second div 2))) = 0)"
proof (induction count deadline now rule: drain.induct)
  case (1 count deadline now)
  let ?T = "\<lambda>t n. min deadline (t + int n * (second div 2))"
  show ?case
  proof (cases "count now > 0 \<and> now < deadline")
    case True
    let ?now' = "now + min (second div 2) (deadline - now)"
    have T0: "?T now 0 = now" using "1.prems" by simp
    have TS: "?T ?now' n = ?T now (Suc n)" for n
      by (auto simp: min_def second_def algebra_simps)
    have "drain count deadline now = drain count deadline ?now'"
      using True by (subst drain.simps) simp
    also have "\<dots> \<longleftrightarrow> (\<exists>n. count (?T ?now' n) = 0)"
      using 1 True by simp
    also have "\<dots> \<longleftrightarrow> (\<exists>n. count (?T now n) = 0)"
      unfolding TS using T0 True by (metis not0_implies_Suc less_irrefl)
    finally show ?thesis .
  next
    case False
    have dr: "drain count deadline now = (count now = 0)"
      using False by (subst drain.simps) auto
    have "count now = 0 \<Longrightarrow> \<exists>n. count (?T now n) = 0"
      using "1.prems" by (intro exI [of _ 0]) simp
    moreover have "\<exists>n. count (?T now n) = 0 \<Longrightarrow> count now = 0"
      using False "1.prems" by (auto simp: min_def second_def split: if_splits)
    ultimately show ?thesis unfolding dr by (rule iffI)
  qed
qed

section \<open>A small database for the examples\<close>

definition demo_agent :: agent where
  "demo_agent = \<lparr>a_tenant = ''t'', a_agent = ''a'', a_active = True, max_concurrent = 5,
     budget_max_per_task = 100, budget_max_per_hour = 1000\<rparr>"

definition demo_config :: config where
  "demo_config = (default_config ''w'')\<lparr>pool_id := ''p'', cfg_tenant := ''t'', max_concurrent_tasks := 2\<rparr>"

definition demo_db :: "string list \<Rightarrow> db" where
  "demo_db tids = empty_db\<lparr>agents := [demo_agent],
     tasks := map (\<lambda>i. new_task i ''t'' ''a'' ''p'' 10) tids\<rparr>"

lemmas demo_defs = demo_agent_def demo_config_def demo_db_def empty_db_def default_config_def new_task_def

text \<open>
  C1. A claim starts only a task of the worker's tenant and pool that is queued, past its
  retry_after and not locked, of an agent that is active and under its hourly budget, and
  after the claim the agent's running counter is at most max_concurrent_tasks.
\<close>

theorem claim_respects_limits:
  assumes "keys_ok d" "claim_txn c now locked d = (d', Some t')"
  shows "\<exists>t \<in> set (tasks d). \<exists>a.
    t' = claim_row c now t \<and> task_ready c now (tenant_id t) (agent_id t) t \<and> \<not> locked (task_id t)
    \<and> tenant_id t = cfg_tenant c
    \<and> find_agent d (tenant_id t) (agent_id t) = Some a \<and> a_active a
    \<and> running_count d' (tenant_id t) (agent_id t) \<le> max_concurrent a
    \<and> window_cost d (tenant_id t) (agent_id t) < budget_max_per_hour a"
proof -
  from claim_txn_guards [OF assms] obtain t a where t: "t \<in> set (tasks d)"
    "task_ready c now (tenant_id t) (agent_id t) t" "\<not> locked (task_id t)"
    "tenant_id t = cfg_tenant c" "t' = claim_row c now t"
    "find_agent d (tenant_id t) (agent_id t) = Some a" "a_active a"
    "running_count d (tenant_id t) (agent_id t) < max_concurrent a"
    "window_cost d (tenant_id t) (agent_id t) < budget_max_per_hour a" .
  moreover have "running_count d' (tenant_id t) (agent_id t) = running_count d (tenant_id t) (agent_id t) + 1"
    using claim_txn_effect(2) [OF assms, of "tenant_id t" "agent_id t"] t(5) by (simp add: claim_row_def)
  ultimately show ?thesis by (intro bexI [of _ t] exI [of _ a]) auto
qed

theorem claim_respects_limits_witness:
  "running_count (fst (claim_txn demo_config 100 (\<lambda>_. False) (demo_db [''x'']))) ''t'' ''a'' \<le> 5"
proof -
  let ?t = "(new_task ''x'' ''t'' ''a'' ''p'' 10)\<lparr>status := Running, version := 2,
     lease_owner := Some ''w'', lease_expiry := Some (100 + 60000000), updated_at := 100\<rparr>"
  have k: "keys_ok (demo_db [''x''])" by code_simp
  have e: "snd (claim_txn demo_config 100 (\<lambda>_. False) (demo_db [''x''])) = Some ?t" by code_simp
  have "claim_txn demo_config 100 (\<lambda>_. False) (demo_db [''x''])
      = (fst (claim_txn demo_config 100 (\<lambda>_. False) (demo_db [''x''])), Some ?t)"
    using e by (metis prod.collapse)
  from claim_respects_limits [OF k this] show ?thesis
    by (auto simp: demo_defs find_agent_def)
qed

lemma claim_txn_None_iff:
  "snd (claim_txn c now (\<lambda>_. False) d) = None \<longleftrightarrow>
   (\<forall>r \<in> set (runtime (preclaim_upsert c now d)). \<not> agent_eligible c now (preclaim_upsert c now d) r)"
proof -
  let ?d0 = "preclaim_upsert c now d"
  have "snd (claim_txn c now (\<lambda>_. False) d) = None \<longleftrightarrow> find_eligible_agent c now ?d0 = None"
    using eligible_agent_has_task find_eligible_agent_Some
    by (fastforce simp: claim_txn_def Let_def split: option.splits)
  then show ?thesis by (auto simp: find_eligible_agent_def filter_empty_conv)
qed

lemma agent_eligible_iff:
  assumes "keys_ok d" "r \<in> set (runtime d)"
  shows "agent_eligible c now d r \<longleftrightarrow>
    (\<exists>a. find_agent d (rs_tenant r) (rs_agent r) = Some a \<and> a_active a \<and> rs_tenant r = cfg_tenant c
       \<and> running_count d (rs_tenant r) (rs_agent r) < max_concurrent a
       \<and> window_cost d (rs_tenant r) (rs_agent r) < budget_max_per_hour a
       \<and> (\<exists>t \<in> set (tasks d). task_ready c now (rs_tenant r) (rs_agent r) t))"
  using find_runtime_Some_eligible [OF assms] by (auto simp: agent_eligible_def split: option.splits)

text \<open>
  C8. When no row is locked, the claim transaction returns nothing exactly when no queued,
  due task of the pool belongs to an active agent with a free slot and budget left: the
  four SQL statements together miss no claimable task, also not one of an agent that has
  no runtime row yet.
\<close>

theorem claim_is_complete:
  assumes "keys_ok d"
  shows "snd (claim_txn c now (\<lambda>_. False) d) = None \<longleftrightarrow>
    \<not> (\<exists>t \<in> set (tasks d). \<exists>a. tenant_id t = cfg_tenant c
        \<and> task_ready c now (tenant_id t) (agent_id t) t
        \<and> find_agent d (tenant_id t) (agent_id t) = Some a \<and> a_active a
        \<and> running_count d (tenant_id t) (agent_id t) < max_concurrent a
        \<and> window_cost d (tenant_id t) (agent_id t) < budget_max_per_hour a)"
    (is "_ \<longleftrightarrow> \<not> ?claimable")
proof -
  let ?d0 = "preclaim_upsert c now d"
  note el = agent_eligible_iff [OF keys_ok_preclaim [OF assms], of _ c now]
  have fa: "find_agent ?d0 tn ag = find_agent d tn ag" for tn ag by (rule find_agent_cong) simp
  have "(\<exists>r \<in> set (runtime ?d0). agent_eligible c now ?d0 r) \<longleftrightarrow> ?claimable"
  proof
    assume "\<exists>r \<in> set (runtime ?d0). agent_eligible c now ?d0 r"
    then obtain r where r: "r \<in> set (runtime ?d0)" "agent_eligible c now ?d0 r" by blast
    from r(2) [unfolded el [OF r(1)]] obtain a t where at: "find_agent d (rs_tenant r) (rs_agent r) = Some a" "a_active a"
      "rs_tenant r = cfg_tenant c" "running_count d (rs_tenant r) (rs_agent r) < max_concurrent a"
      "window_cost d (rs_tenant r) (rs_agent r) < budget_max_per_hour a"
      "t \<in> set (tasks d)" "task_ready c now (rs_tenant r) (rs_agent r) t"
      by (auto simp: fa)
    moreover have "tenant_id t = rs_tenant r" "agent_id t = rs_agent r"
      using at(7) by (simp_all add: task_ready_def)
    ultimately show ?claimable by (intro bexI [of _ t] exI [of _ a]) auto
  next
    assume ?claimable
    then obtain t a where t: "t \<in> set (tasks d)" "tenant_id t = cfg_tenant c"
      "task_ready c now (tenant_id t) (agent_id t) t"
      "find_agent d (tenant_id t) (agent_id t) = Some a" "a_active a"
      "running_count d (tenant_id t) (agent_id t) < max_concurrent a"
      "window_cost d (tenant_id t) (agent_id t) < budget_max_per_hour a" by blast
    moreover obtain r where r: "r \<in> set (runtime ?d0)" "rs_key r = task_agent t"
      using preclaim_covers_queued [of t d c now] t(1-3) by (auto simp: task_ready_def)
    moreover have "rs_tenant r = tenant_id t" "rs_agent r = agent_id t"
      using r(2) by (simp_all add: rs_key_def task_agent_def)
    ultimately have "agent_eligible c now ?d0 r"
      unfolding el [OF r(1)] by (auto simp: fa)
    with r(1) show "\<exists>r \<in> set (runtime ?d0). agent_eligible c now ?d0 r" by blast
  qed
  then show ?thesis unfolding claim_txn_None_iff by blast
qed

theorem claim_is_complete_witness:
  "keys_ok (demo_db [''x'']) \<and> snd (claim_txn demo_config 100 (\<lambda>_. False) (demo_db [''x''])) \<noteq> None"
proof -
  have k: "keys_ok (demo_db [''x''])" by code_simp
  have "\<exists>t \<in> set (tasks (demo_db [''x''])). \<exists>a. tenant_id t = cfg_tenant demo_config
        \<and> task_ready demo_config 100 (tenant_id t) (agent_id t) t
        \<and> find_agent (demo_db [''x'']) (tenant_id t) (agent_id t) = Some a \<and> a_active a
        \<and> running_count (demo_db [''x'']) (tenant_id t) (agent_id t) < max_concurrent a
        \<and> window_cost (demo_db [''x'']) (tenant_id t) (agent_id t) < budget_max_per_hour a"
    by (simp add: demo_defs task_ready_def find_agent_def running_count_def window_cost_def
        find_runtime_def)
  with k claim_is_complete [OF k, of demo_config 100] show ?thesis by blast
qed

text \<open>
  C9. Round robin: in any run of claims on one pool with increasing clock, an agent that
  stays eligible is picked after at most as many claims as there are runtime rows.
\<close>

theorem round_robin_no_starvation:
  assumes "keys_ok d" "steps = (c, now) # rest"
    and "\<forall>s \<in> set steps. pool_id (fst s) = pool_id c \<and> cfg_tenant (fst s) = cfg_tenant c"
    and "sorted_wrt (<) (0 # map snd steps)" "\<forall>r \<in> set (runtime d). scheduler_cursor r < now"
    and "ready_throughout steps A d" "length (runtime (preclaim_upsert c now d)) \<le> length steps"
  shows "A \<in> set (snd (claim_run steps d))"
proof -
  let ?rows = "runtime (preclaim_upsert c now d)"
  obtain a where a: "a \<in> set ?rows" "rs_key a = A"
    using assms(2,6) by (auto simp: agent_ready_def)
  have "behind A ?rows < length ?rows"
    unfolding behind_def by (rule length_filter_less [OF a(1)]) (simp add: a(2))
  with assms show ?thesis
    by (intro claim_run_reaches [of _ _ "pool_id c" "cfg_tenant c"]) force+
qed

text \<open>
  C12. As long as no claim raises, in every reachable poller state active_tasks_count is
  the number of execution tasks in flight, and with the free semaphore permits it makes
  max_concurrent_tasks; so at most that many tasks run.
\<close>

theorem poller_counters_exact:
  assumes "poller_reachable c False p"
  shows "active_tasks_count p = length (execution_tasks p)
    \<and> length (execution_tasks p) + permits p = max_concurrent_tasks c"
  using counters_ok_reachable [OF assms] by (simp add: counters_ok_def)

theorem poller_counters_exact_witness:
  "active_tasks_count (init_poller demo_config) = length (execution_tasks (init_poller demo_config))"
  using poller_counters_exact [OF poller_reachable.start [of demo_config False]] by blast

lemma poller_reachable_claim:
  "poller_reachable c True p \<Longrightarrow>
   poller_reachable c True (fst (snd (try_claim c True f now locked d p)))"
  by (rule poller_reachable.step, assumption)
     (rule poller_step.claim [of _ f now locked d _ "fst (try_claim c True f now locked d p)" _
        "snd (snd (try_claim c True f now locked d p))"], simp_all)

definition demo_claim :: "fault \<Rightarrow> string list \<Rightarrow> poller \<Rightarrow> poller" where
  "demo_claim f tids p =
     fst (snd (try_claim demo_config True f 100 (\<lambda>_. False) (demo_db tids) p))"

text \<open>
  The exception handler of _try_claim decrements a counter it may not have
  incremented and releases a permit it may have released: with exceptions, a state is
  reachable where a task is in flight, active_tasks_count is 0 and drain reports success,
  and one where more than max_concurrent_tasks tasks are in flight.
\<close>

theorem claim_faults_break_the_counters:
  "(\<exists>p. poller_reachable demo_config True p \<and> execution_tasks p \<noteq> [] \<and> active_tasks_count p = 0
      \<and> drain (\<lambda>_. active_tasks_count p) deadline now)
   \<and> (\<exists>p. poller_reachable demo_config True p
        \<and> max_concurrent_tasks demo_config < length (execution_tasks p))"
proof -
  define p2 where "p2 = demo_claim FaultCommit [] (demo_claim NoFault [''x''] (init_poller demo_config))"
  define p4 where "p4 = demo_claim NoFault [''z''] (demo_claim NoFault [''y''] p2)"
  have r2: "poller_reachable demo_config True p2"
    unfolding p2_def demo_claim_def by (intro poller_reachable_claim poller_reachable.start)
  then have r4: "poller_reachable demo_config True p4"
    unfolding p4_def demo_claim_def by (intro poller_reachable_claim)
  have "execution_tasks p2 \<noteq> [] \<and> active_tasks_count p2 = 0" unfolding p2_def by code_simp
  moreover from this have "drain (\<lambda>_. active_tasks_count p2) deadline now" by (subst drain.simps) simp
  moreover have "max_concurrent_tasks demo_config < length (execution_tasks p4)"
    unfolding p4_def p2_def by code_simp
  ultimately show ?thesis using r2 r4 by blast
qed

lemma next_backoff_double:
  assumes "poll_backoff_multiplier c = (2, 0)" "b \<le> poll_backoff_max_ms c" "poll_backoff_max_ms c < 2 ^ 52"
  shows "next_backoff c b = min (2 * b) (poll_backoff_max_ms c)"
  using assms by (simp add: next_backoff_def float_mul_trunc_exact)

text \<open>
  With the default multiplier 2.0, n empty polls take the backoff from b to min(2^n *
  b, poll_backoff_max_ms), through the float product and its truncation to int.
\<close>

theorem backoff_doubles_up_to_the_cap:
  assumes "poll_backoff_multiplier c = (2, 0)" "b \<le> poll_backoff_max_ms c" "poll_backoff_max_ms c < 2 ^ 52"
  shows "(next_backoff c ^^ n) b = min (2 ^ n * b) (poll_backoff_max_ms c)"
proof (induction n)
  case (Suc n)
  have "(next_backoff c ^^ Suc n) b = next_backoff c (min (2 ^ n * b) (poll_backoff_max_ms c))"
    using Suc by simp
  also have "\<dots> = min (2 * min (2 ^ n * b) (poll_backoff_max_ms c)) (poll_backoff_max_ms c)"
    using assms by (intro next_backoff_double) simp_all
  finally show ?case by (simp add: min_def)
qed (use assms in simp)

theorem backoff_doubles_up_to_the_cap_witness:
  "(next_backoff (default_config ''w'') ^^ 5) 100 = 3200 \<and> (next_backoff (default_config ''w'') ^^ 6) 100 = 5000"
  using backoff_doubles_up_to_the_cap [of "default_config ''w''" 100 5]
    backoff_doubles_up_to_the_cap [of "default_config ''w''" 100 6]
  by (simp add: default_config_def)

theorem round_robin_no_starvation_witness:
  "(''t'', ''a'') \<in> set (snd (claim_run [(demo_config, 100), (demo_config, 200)] (demo_db [''x'', ''y''])))"
  by (rule round_robin_no_starvation [OF _ refl]; code_simp)

end
