(* ===== verification/Heartbeat.thy ===== *)
theory Heartbeat
  imports Poller
begin

text \<open>
  \<open>core/heartbeat.py\<close>: the lease-extending UPDATE, and the manager's table of handles.
  Each \<open>start_heartbeat\<close> makes a new loop (a number here) and a handle that is stored
  under the task id; a loop that loses the lease signals the handle that is stored under
  its task id at that moment, and every ending loop pops that entry.  So the table is
  modelled with loop numbers, to keep apart two loops of one task.
\<close>

definition heartbeat_update :: "config \<Rightarrow> time \<Rightarrow> string \<Rightarrow> string \<Rightarrow> db \<Rightarrow> db \<times> int" where
  "heartbeat_update c now tid tn d =
     (d\<lparr>tasks := update_where (holds_lease tid tn (worker_id c))
          (\<lambda>t. t\<lparr>lease_expiry := Some (now + seconds (lease_duration_seconds c)), updated_at := now\<rparr>)
          (tasks d)\<rparr>,
      count_where (holds_lease tid tn (worker_id c)) (tasks d))"

record hb_loop =
  hb_id :: nat
  hb_task :: string
  hb_tenant :: string

record heartbeats =
  hb_next :: nat
  hb_active :: "(string \<times> nat) list"
  hb_loops :: "hb_loop list"
  hb_cancelled :: "nat list"

definition start_heartbeat :: "string \<Rightarrow> string \<Rightarrow> heartbeats \<Rightarrow> heartbeats \<times> nat" where
  "start_heartbeat tid tn h =
     (let n = hb_next h in
      (h\<lparr>hb_next := n + 1,
         hb_active := (tid, n) # filter (\<lambda>p. fst p \<noteq> tid) (hb_active h),
         hb_loops := hb_loops h @ [\<lparr>hb_id = n, hb_task = tid, hb_tenant = tn\<rparr>]\<rparr>, n))"

definition pop_active :: "string \<Rightarrow> heartbeats \<Rightarrow> heartbeats" where
  "pop_active tid h = h\<lparr>hb_active := filter (\<lambda>p. fst p \<noteq> tid) (hb_active h)\<rparr>"

definition end_loop :: "nat \<Rightarrow> heartbeats \<Rightarrow> heartbeats" where
  "end_loop n h =
     (case find (\<lambda>l. hb_id l = n) (hb_loops h) of
        None \<Rightarrow> h
      | Some l \<Rightarrow> pop_active (hb_task l) (h\<lparr>hb_loops := filter (\<lambda>l. hb_id l \<noteq> n) (hb_loops h)\<rparr>))"

definition stop_heartbeat :: "string \<Rightarrow> heartbeats \<Rightarrow> heartbeats" where
  "stop_heartbeat tid h =
     (case map_of (hb_active h) tid of
        None \<Rightarrow> h
      | Some n \<Rightarrow> end_loop n (pop_active tid h))"

definition stop_all :: "heartbeats \<Rightarrow> heartbeats" where
  "stop_all h = fold stop_heartbeat (map fst (hb_active h)) h"

text \<open>One pass of a loop after its sleep; \<open>db_error\<close>: the UPDATE raised and is retried later.\<close>

definition heartbeat_tick ::
  "config \<Rightarrow> bool \<Rightarrow> time \<Rightarrow> hb_loop \<Rightarrow> db \<Rightarrow> heartbeats \<Rightarrow> db \<times> heartbeats" where
  "heartbeat_tick c db_error now l d h =
     (if db_error then (d, h)
      else case heartbeat_update c now (hb_task l) (hb_tenant l) d of
        (d', rows) \<Rightarrow>
          if rows = 0
          then (d', end_loop (hb_id l)
                 (case map_of (hb_active h) (hb_task l) of
                    None \<Rightarrow> h
                  | Some n \<Rightarrow> h\<lparr>hb_cancelled := n # hb_cancelled h\<rparr>))
          else (d', h))"

lemma heartbeat_frame [simp]:
  "runtime (fst (heartbeat_update c now tid tn d)) = runtime d"
  "agents (fst (heartbeat_update c now tid tn d)) = agents d"
  "ledger (fst (heartbeat_update c now tid tn d)) = ledger d"
  by (simp_all add: heartbeat_update_def)

lemma heartbeat_rows_zero_iff:
  "snd (heartbeat_update c now tid tn d) = 0 \<longleftrightarrow> \<not> lease_ok tid tn (worker_id c) d"
  by (simp add: heartbeat_update_def lease_ok_def count_where_zero_iff)

lemma heartbeat_no_lease_id:
  "\<not> lease_ok tid tn (worker_id c) d \<Longrightarrow> fst (heartbeat_update c now tid tn d) = d"
  by (simp add: heartbeat_update_def lease_ok_def update_where_no_match)

lemma keys_ok_heartbeat [simp]: "keys_ok d \<Longrightarrow> keys_ok (fst (heartbeat_update c now tid tn d))"
  by (simp add: keys_ok_def heartbeat_update_def map_key_update_where)

definition no_heartbeats :: heartbeats where
  "no_heartbeats = \<lparr>hb_next = 0, hb_active = [], hb_loops = [], hb_cancelled = []\<rparr>"

definition loops_fresh :: "heartbeats \<Rightarrow> bool" where
  "loops_fresh h \<longleftrightarrow> (\<forall>l \<in> set (hb_loops h). hb_id l < hb_next h) \<and> distinct (map hb_id (hb_loops h))"

lemma pop_active_frame [simp]:
  "hb_loops (pop_active tid h) = hb_loops h" "hb_next (pop_active tid h) = hb_next h"
  "hb_cancelled (pop_active tid h) = hb_cancelled h"
  by (simp_all add: pop_active_def)

lemma end_loop_loops: "hb_loops (end_loop n h) = filter (\<lambda>l. hb_id l \<noteq> n) (hb_loops h)"
  by (auto simp: end_loop_def find_None_iff filter_id_conv split: option.splits)

lemma end_loop_frame [simp]:
  "hb_next (end_loop n h) = hb_next h" "hb_cancelled (end_loop n h) = hb_cancelled h"
  by (simp_all add: end_loop_def split: option.splits)

lemma start_heartbeat_fresh:
  "loops_fresh h \<Longrightarrow> start_heartbeat tid tn h = (h', n) \<Longrightarrow>
   loops_fresh h' \<and> map_of (hb_active h') tid = Some n \<and> (\<forall>l \<in> set (hb_loops h). hb_id l \<noteq> n)
   \<and> hb_loops h' = hb_loops h @ [\<lparr>hb_id = n, hb_task = tid, hb_tenant = tn\<rparr>]"
  by (fastforce simp: start_heartbeat_def loops_fresh_def Let_def)

lemma loops_fresh_end: "loops_fresh h \<Longrightarrow> loops_fresh (end_loop n h)"
  by (auto simp: loops_fresh_def end_loop_loops distinct_map_filter)

lemma map_of_pop [simp]: "map_of (hb_active (pop_active tid h)) tid = None"
  by (auto simp: pop_active_def map_of_eq_None_iff)

text \<open>
  A heartbeat round with the lease held extends it to now plus the lease duration and
  keeps the loop; without the lease it changes no row, ends the loop and signals
  cancellation to the handle registered for the task.
\<close>

theorem heartbeat_tick_extends_or_revokes:
  assumes "heartbeat_tick c False now l d h = (d', h')"
  shows "(if lease_ok (hb_task l) (hb_tenant l) (worker_id c) d
    then h' = h
      \<and> (\<forall>t \<in> set (tasks d'). holds_lease (hb_task l) (hb_tenant l) (worker_id c) t \<longrightarrow>
            lease_expiry t = Some (now + seconds (lease_duration_seconds c)))
    else d' = d \<and> l \<notin> set (hb_loops h')
      \<and> (case map_of (hb_active h) (hb_task l) of None \<Rightarrow> True | Some n \<Rightarrow> n \<in> set (hb_cancelled h')))"
proof (cases "lease_ok (hb_task l) (hb_tenant l) (worker_id c) d")
  case True
  then have "snd (heartbeat_update c now (hb_task l) (hb_tenant l) d) \<noteq> 0"
    by (simp add: heartbeat_rows_zero_iff)
  with True assms show ?thesis
    by (auto simp: heartbeat_tick_def heartbeat_update_def set_update_where holds_lease_def
        split: if_splits)
next
  case False
  then have "snd (heartbeat_update c now (hb_task l) (hb_tenant l) d) = 0"
    by (simp add: heartbeat_rows_zero_iff)
  with False heartbeat_no_lease_id [OF False, of now] assms show ?thesis
    by (auto simp: heartbeat_tick_def end_loop_loops split: prod.splits option.splits)
qed

theorem heartbeat_tick_extends_or_revokes_witness:
  "snd (heartbeat_tick (default_config ''w'') False 5 \<lparr>hb_id = 0, hb_task = ''x'', hb_tenant = ''t''\<rparr> empty_db
      (fst (start_heartbeat ''x'' ''t'' no_heartbeats)))
   = no_heartbeats\<lparr>hb_next := 1, hb_cancelled := [0]\<rparr>
   \<and> \<lparr>hb_id = 0, hb_task = ''x'', hb_tenant = ''t''\<rparr> \<notin> set (hb_loops (no_heartbeats\<lparr>hb_next := 1, hb_cancelled := [0]\<rparr>))"
proof -
  let ?l = "\<lparr>hb_id = 0, hb_task = ''x'', hb_tenant = ''t''\<rparr>"
  let ?h = "no_heartbeats\<lparr>hb_next := 1, hb_cancelled := [0]\<rparr>"
  have e: "heartbeat_tick (default_config ''w'') False 5 ?l empty_db
      (fst (start_heartbeat ''x'' ''t'' no_heartbeats)) = (empty_db, ?h)" by code_simp
  have "\<not> lease_ok ''x'' ''t'' ''w'' empty_db" by code_simp
  with heartbeat_tick_extends_or_revokes [OF e] have "?l \<notin> set (hb_loops ?h)"
    by (simp add: default_config_def)
  with e show ?thesis by simp
qed

text \<open>
  When a worker starts a second execution of a task while the first still runs, the
  cleanup of the first stops the heartbeat of the second and leaves its own loop running,
  and a revocation found later signals no handle.
\<close>

theorem second_execution_loses_its_heartbeat:
  assumes "loops_fresh h0" "start_heartbeat tid tn h0 = (h1, n1)" "start_heartbeat tid tn h1 = (h2, n2)"
    and "\<not> lease_ok tid tn (worker_id c) d"
  shows "(\<exists>l \<in> set (hb_loops (stop_heartbeat tid h2)). hb_id l = n1)
    \<and> (\<forall>l \<in> set (hb_loops (stop_heartbeat tid h2)). hb_id l \<noteq> n2)
    \<and> hb_cancelled (snd (heartbeat_tick c False now \<lparr>hb_id = n1, hb_task = tid, hb_tenant = tn\<rparr> d
           (stop_heartbeat tid h2))) = hb_cancelled h2"
proof -
  note s1 = start_heartbeat_fresh [OF assms(1,2)]
  then have "loops_fresh h1" by simp
  note s2 = start_heartbeat_fresh [OF this assms(3)]
  have stop: "stop_heartbeat tid h2 = end_loop n2 (pop_active tid h2)"
    using s2 by (simp add: stop_heartbeat_def)
  have loops: "hb_loops (stop_heartbeat tid h2) = hb_loops h1"
    using s2 by (auto simp: stop end_loop_loops filter_id_conv)
  have none: "map_of (hb_active (stop_heartbeat tid h2)) tid = None"
    by (auto simp: stop end_loop_def pop_active_def map_of_eq_None_iff split: option.splits)
  have "snd (heartbeat_update c now tid tn d) = 0" using assms(4) by (simp add: heartbeat_rows_zero_iff)
  then have "hb_cancelled (snd (heartbeat_tick c False now \<lparr>hb_id = n1, hb_task = tid, hb_tenant = tn\<rparr> d
           (stop_heartbeat tid h2))) = hb_cancelled h2"
    using none by (auto simp: heartbeat_tick_def stop split: prod.splits)
  with loops s1 s2 show ?thesis by auto
qed

theorem second_execution_loses_its_heartbeat_witness:
  "map hb_id (hb_loops (stop_heartbeat ''x'' (fst (start_heartbeat ''x'' ''t''
     (fst (start_heartbeat ''x'' ''t'' no_heartbeats)))))) = [0]
   \<and> (\<exists>l \<in> set (hb_loops (stop_heartbeat ''x'' (fst (start_heartbeat ''x'' ''t''
     (fst (start_heartbeat ''x'' ''t'' no_heartbeats)))))). hb_id l = 0)"
proof -
  let ?h1 = "fst (start_heartbeat ''x'' ''t'' no_heartbeats)"
  have "loops_fresh no_heartbeats" by code_simp
  moreover have "start_heartbeat ''x'' ''t'' no_heartbeats = (?h1, 0)" by code_simp
  moreover have "start_heartbeat ''x'' ''t'' ?h1 = (fst (start_heartbeat ''x'' ''t'' ?h1), 1)" by code_simp
  moreover have "\<not> lease_ok ''x'' ''t'' (worker_id demo_config) empty_db" by code_simp
  ultimately have "\<exists>l \<in> set (hb_loops (stop_heartbeat ''x'' (fst (start_heartbeat ''x'' ''t'' ?h1)))). hb_id l = 0"
    by (blast dest: second_execution_loses_its_heartbeat)
  moreover have "map hb_id (hb_loops (stop_heartbeat ''x'' (fst (start_heartbeat ''x'' ''t'' ?h1)))) = [0]"
    by code_simp
  ultimately show ?thesis by blast
qed

end
