(* ===== verification/Worker.thy ===== *)
theory Worker
  imports Heartbeat
begin

text \<open>
  \<open>core/worker.py\<close>: the registry row of a worker and the order of its shutdown: quiesce
  the poller, drain, cancel what is left when the drain timed out, stop every heartbeat,
  then mark the worker offline.  \<open>p\<close> is the poller as it is when the drain returns.
\<close>

definition register_worker :: "config \<Rightarrow> time \<Rightarrow> db \<Rightarrow> db" where
  "register_worker c now d =
     (if \<exists>x \<in> set (workers d). w_id x = worker_id c
      then d\<lparr>workers := update_where (\<lambda>x. w_id x = worker_id c)
             (\<lambda>x. x\<lparr>w_status := Online, last_heartbeat_at := now\<rparr>) (workers d)\<rparr>
      else d\<lparr>workers := workers d @ [\<lparr>w_id = worker_id c, w_status = Online, last_heartbeat_at = now\<rparr>]\<rparr>)"

definition deregister_worker :: "config \<Rightarrow> time \<Rightarrow> db \<Rightarrow> db" where
  "deregister_worker c now d =
     d\<lparr>workers := update_where (\<lambda>x. w_id x = worker_id c)
        (\<lambda>x. x\<lparr>w_status := Offline, last_heartbeat_at := now\<rparr>) (workers d)\<rparr>"

definition worker_beat :: "config \<Rightarrow> time \<Rightarrow> db \<Rightarrow> db" where
  "worker_beat c now d =
     d\<lparr>workers := update_where (\<lambda>x. w_id x = worker_id c)
        (\<lambda>x. x\<lparr>w_status := Online, last_heartbeat_at := now\<rparr>) (workers d)\<rparr>"

definition worker_stop :: "config \<Rightarrow> time \<Rightarrow> bool \<Rightarrow> poller \<Rightarrow> heartbeats \<Rightarrow> db \<Rightarrow> poller \<times> heartbeats \<times> db" where
  "worker_stop c now drained p h d =
     (let p1 = quiesce p;
          p2 = (if drained then p1 else cancel_active_tasks p1)
      in (p2, stop_all h, deregister_worker c now d))"

lemma stop_heartbeat_active:
  "set (hb_active (stop_heartbeat tid h)) \<subseteq> {p \<in> set (hb_active h). fst p \<noteq> tid}"
  by (auto simp: stop_heartbeat_def end_loop_def pop_active_def map_of_eq_None_iff
      split: option.splits dest: image_eqI [of _ fst])

lemma stop_all_active: "hb_active (stop_all h) = []"
proof -
  have sub: "set (hb_active (fold stop_heartbeat ks g)) \<subseteq> {p \<in> set (hb_active g). fst p \<notin> set ks}" for ks and g :: heartbeats
  proof (induction ks arbitrary: g)
    case (Cons k ks)
    then show ?case using stop_heartbeat_active [of k g] by fastforce
  qed simp
  have none: "{p \<in> set (hb_active h). fst p \<notin> set (map fst (hb_active h))} = {}" by auto
  have "set (hb_active (stop_all h)) = {}"
    using sub [of "map fst (hb_active h)" h] unfolding none stop_all_def by (rule subset_empty [THEN iffD1])
  then show ?thesis by simp
qed

lemma worker_stop_leaves_nothing:
  assumes "counters_ok c p" "drained \<longrightarrow> active_tasks_count p = 0"
    and "worker_stop c now drained p h d = (p', h', d')"
  shows "execution_tasks p' = [] \<and> \<not> p_running p' \<and> hb_active h' = []"
proof -
  have run: "\<not> p_running (fold finish_execution xs q)" if "\<not> p_running q" for xs q
    using that by (induction xs arbitrary: q) (auto simp: finish_execution_def release_permit_def)
  show ?thesis
    using assms stop_all_active counters_ok_cancel [of c "quiesce p"] run [of "quiesce p"]
    by (auto simp: worker_stop_def Let_def counters_ok_def quiesce_def cancel_active_tasks_def split: if_splits)
qed

end
