(* ===== verification/Reaper.thy ===== *)
theory Reaper
  imports Heartbeat
begin

text \<open>
  \<open>core/reaper.py\<close>: the statements of one scan (\<open>run_once\<close>), in the code's order: expired
  leases are requeued or dead-lettered, timed-out tasks and unanswered human-input
  requests are dead-lettered, silent workers are marked offline; then, in transactions of
  their own, hourly-budget pauses are resumed, \<open>agent_runtime_state\<close> is reconciled with
  the tasks and the ledger, and old ledger rows are pruned.
\<close>

section \<open>The scan transaction\<close>

definition lease_expired :: "time \<Rightarrow> task \<Rightarrow> bool" where
  "lease_expired now t \<longleftrightarrow> status t = Running \<and> sql_before (lease_expiry t) now"

definition requeue_cond :: "time \<Rightarrow> task \<Rightarrow> bool" where
  "requeue_cond now t \<longleftrightarrow> lease_expired now t \<and> retry_count t < max_retries t"

definition requeue_row :: "time \<Rightarrow> task \<Rightarrow> task" where
  "requeue_row now t =
     t\<lparr>status := Queued, lease_owner := None, lease_expiry := None,
       retry_count := retry_count t + 1,
       retry_after := Some (now + seconds (2 ^ nat (retry_count t))),
       retry_history := retry_history t @ [now],
       version := version t + 1, updated_at := now\<rparr>"

definition exhausted_cond :: "time \<Rightarrow> task \<Rightarrow> bool" where
  "exhausted_cond now t \<longleftrightarrow> lease_expired now t \<and> retry_count t \<ge> max_retries t"

definition exhausted_row :: "time \<Rightarrow> task \<Rightarrow> task" where
  "exhausted_row now t =
     t\<lparr>status := DeadLetter, last_worker_id := lease_owner t, lease_owner := None,
       lease_expiry := None, last_error_code := Some ''retries_exhausted'',
       last_error_message := Some (lit ''max retries reached after lease expiry''),
       dead_letter_reason := Some ''retries_exhausted'', dead_lettered_at := Some now,
       human_response := None, version := version t + 1, updated_at := now\<rparr>"

definition timeout_cond :: "time \<Rightarrow> task \<Rightarrow> bool" where
  "timeout_cond now t \<longleftrightarrow> (status t = Running \<or> status t = Queued)
     \<and> sql_before (map_option (\<lambda>x. x + seconds (task_timeout_seconds t)) (timeout_reference_at t)) now"

definition timeout_row :: "time \<Rightarrow> task \<Rightarrow> task" where
  "timeout_row now t =
     t\<lparr>status := DeadLetter, last_worker_id := lease_owner t, lease_owner := None,
       lease_expiry := None, last_error_code := Some ''task_timeout'',
       last_error_message := Some (lit ''task exceeded task_timeout_seconds''),
       dead_letter_reason := Some ''task_timeout'', dead_lettered_at := Some now,
       human_response := None, version := version t + 1, updated_at := now\<rparr>"

definition human_timeout_cond :: "time \<Rightarrow> task \<Rightarrow> bool" where
  "human_timeout_cond now t \<longleftrightarrow> (status t = WaitingForApproval \<or> status t = WaitingForInput)
     \<and> sql_before (human_input_timeout_at t) now"

definition human_timeout_row :: "time \<Rightarrow> task \<Rightarrow> task" where
  "human_timeout_row now t =
     t\<lparr>status := DeadLetter, dead_letter_reason := Some ''human_input_timeout'',
       last_error_code := Some ''human_input_timeout'',
       last_error_message := Some (lit ''No human response within timeout period''),
       dead_lettered_at := Some now, pending_input_prompt := None,
       pending_approval_action := JNull, human_input_timeout_at := None,
       version := version t + 1, updated_at := now\<rparr>"

definition stale_worker :: "time \<Rightarrow> worker_row \<Rightarrow> bool" where
  "stale_worker now w \<longleftrightarrow> w_status w = Online \<and> last_heartbeat_at w < now - seconds 90"

text \<open>An \<open>UPDATE tasks .. RETURNING\<close> followed by the loop over the returned rows.\<close>

definition update_returning ::
  "(task \<Rightarrow> bool) \<Rightarrow> (task \<Rightarrow> task) \<Rightarrow> (task \<Rightarrow> db \<Rightarrow> db) \<Rightarrow> db \<Rightarrow> db \<times> string list" where
  "update_returning P f body d =
     (let rows = returning P f (tasks d) in
      (fold body rows (d\<lparr>tasks := update_where P f (tasks d)\<rparr>), map task_id rows))"

definition requeue_body :: "time \<Rightarrow> task \<Rightarrow> db \<Rightarrow> db" where
  "requeue_body now r d =
     insert_task_event now (task_id r) (tenant_id r) (agent_id r)
       ''task_reclaimed_after_lease_expiry'' (Some Running) (Some Queued) None None None (JObj [])
       (decrement_running_count now (tenant_id r) (agent_id r) d)"

definition exhausted_body :: "time \<Rightarrow> task \<Rightarrow> db \<Rightarrow> db" where
  "exhausted_body now r d =
     insert_task_event now (task_id r) (tenant_id r) (agent_id r)
       ''task_dead_lettered'' (Some Running) (Some DeadLetter) None (Some ''retries_exhausted'') None
       (JObj []) (decrement_running_count now (tenant_id r) (agent_id r) d)"

definition timeout_body :: "time \<Rightarrow> task \<Rightarrow> db \<Rightarrow> db" where
  "timeout_body now r d =
     insert_task_event now (task_id r) (tenant_id r) (agent_id r)
       ''task_dead_lettered'' None (Some DeadLetter) None (Some ''task_timeout'') None
       (JObj []) (decrement_running_count now (tenant_id r) (agent_id r) d)"

definition human_timeout_body :: "time \<Rightarrow> task \<Rightarrow> db \<Rightarrow> db" where
  "human_timeout_body now r d =
     insert_task_event now (task_id r) (tenant_id r) (agent_id r)
       ''task_dead_lettered'' None (Some DeadLetter) None (Some ''human_input_timeout'') None
       (JObj []) d"

definition notify_requeued :: "time \<Rightarrow> db \<Rightarrow> db" where
  "notify_requeued now d =
     fold (\<lambda>t. pg_notify (worker_pool_id t)) (filter (requeue_cond now) (tasks d)) d"

definition reap_requeue :: "time \<Rightarrow> db \<Rightarrow> db \<times> string list" where
  "reap_requeue now d =
     update_returning (requeue_cond now) (requeue_row now) (requeue_body now) (notify_requeued now d)"

definition reap_exhausted :: "time \<Rightarrow> db \<Rightarrow> db \<times> string list" where
  "reap_exhausted now = update_returning (exhausted_cond now) (exhausted_row now) (exhausted_body now)"

definition reap_timeouts :: "time \<Rightarrow> db \<Rightarrow> db \<times> string list" where
  "reap_timeouts now = update_returning (timeout_cond now) (timeout_row now) (timeout_body now)"

definition reap_human_timeouts :: "time \<Rightarrow> db \<Rightarrow> db \<times> string list" where
  "reap_human_timeouts now =
     update_returning (human_timeout_cond now) (human_timeout_row now) (human_timeout_body now)"

definition mark_stale_workers :: "time \<Rightarrow> db \<Rightarrow> db" where
  "mark_stale_workers now d =
     d\<lparr>workers := update_where (stale_worker now) (\<lambda>w. w\<lparr>w_status := Offline\<rparr>) (workers d)\<rparr>"

record reap_results =
  requeued :: "string list"
  dead_lettered_expired :: "string list"
  dead_lettered_timeout :: "string list"
  dead_lettered_human_timeout :: "string list"

definition reap_scan :: "time \<Rightarrow> db \<Rightarrow> db \<times> reap_results" where
  "reap_scan now d =
     (let (d1, rq) = reap_requeue now d;
          (d2, dl) = reap_exhausted now d1;
          (d3, to) = reap_timeouts now d2;
          (d4, hu) = reap_human_timeouts now d3
      in (mark_stale_workers now d4,
          \<lparr>requeued = rq, dead_lettered_expired = dl, dead_lettered_timeout = to,
           dead_lettered_human_timeout = hu\<rparr>))"

section \<open>Hourly budget recovery\<close>

definition hourly_paused :: "string \<Rightarrow> string \<Rightarrow> task \<Rightarrow> bool" where
  "hourly_paused tn ag t \<longleftrightarrow> tenant_id t = tn \<and> agent_id t = ag \<and> status t = Paused
     \<and> pause_reason t = Some ''budget_per_hour''"

definition recoverable_agents :: "time \<Rightarrow> db \<Rightarrow> (string \<times> string) list" where
  "recoverable_agents now d =
     remdups (map task_agent (filter (\<lambda>t. status t = Paused
        \<and> pause_reason t = Some ''budget_per_hour''
        \<and> (case resume_eligible_at t of None \<Rightarrow> False | Some x \<Rightarrow> x \<le> now)) (tasks d)))"

definition resume_row :: "time \<Rightarrow> task \<Rightarrow> task" where
  "resume_row now t =
     t\<lparr>status := Queued, pause_reason := None, pause_details := JNull,
       resume_eligible_at := None, version := version t + 1, updated_at := now\<rparr>"

definition resume_ids :: "(string \<Rightarrow> bool) \<Rightarrow> string \<Rightarrow> string \<Rightarrow> int \<Rightarrow> db \<Rightarrow> string list" where
  "resume_ids locked tn ag slots d =
     map task_id (take (nat slots)
       (sort_key created_at (filter (\<lambda>t. hourly_paused tn ag t \<and> \<not> locked (task_id t)) (tasks d))))"

definition recover_agent ::
  "time \<Rightarrow> (string \<Rightarrow> bool) \<Rightarrow> string \<times> string \<Rightarrow> db \<Rightarrow> db \<times> string list" where
  "recover_agent now locked k d =
     (let tn = fst k; ag = snd k in
      case find_agent d tn ag of
        None \<Rightarrow> (d, [])
      | Some a \<Rightarrow>
          if \<not> a_active a then (d, [])
          else let hour_cost = sum_hourly_cost_for_agent now d tn ag in
            if hour_cost \<ge> budget_max_per_hour a then (d, [])
            else let slots = max_concurrent a - running_count d tn ag in
              if slots \<le> 0 then (d, [])
              else let ids = resume_ids locked tn ag slots d;
                       sel = (\<lambda>t. task_id t \<in> set ids);
                       rows = returning sel (resume_row now) (tasks d);
                       d1 = d\<lparr>tasks := update_where sel (resume_row now) (tasks d)\<rparr>;
                       d2 = fold (\<lambda>r. insert_task_event now (task_id r) tn ag ''task_resumed''
                              (Some Paused) (Some Queued) None None None
                              (JObj [(''resume_trigger'', JStr (lit ''automatic_hourly_recovery'')),
                                     (''agent_hour_cost_at_resume'', JNum hour_cost),
                                     (''budget_max_per_hour'', JNum (budget_max_per_hour a))])) rows d1;
                       d3 = fold pg_notify (remdups (map worker_pool_id rows)) d2
                   in (d3\<lparr>runtime := update_where (\<lambda>r. rs_key r = (tn, ag))
                            (\<lambda>r. r\<lparr>hour_window_cost := hour_cost, rs_updated_at := now\<rparr>) (runtime d3)\<rparr>,
                       map task_id rows))"

fun recover_agents ::
  "time \<Rightarrow> (string \<Rightarrow> bool) \<Rightarrow> (string \<times> string) list \<Rightarrow> db \<Rightarrow> db \<times> string list" where
  "recover_agents now locked [] d = (d, [])"
| "recover_agents now locked (k # ks) d =
     (let (d1, ids1) = recover_agent now locked k d;
          (d2, ids2) = recover_agents now locked ks d1
      in (d2, ids1 @ ids2))"

definition recover_hourly_budget_pauses :: "time \<Rightarrow> (string \<Rightarrow> bool) \<Rightarrow> db \<Rightarrow> db \<times> string list" where
  "recover_hourly_budget_pauses now locked d = recover_agents now locked (recoverable_agents now d) d"

section \<open>Reconciliation and pruning\<close>

definition window_rows :: "time \<Rightarrow> db \<Rightarrow> runtime_state \<Rightarrow> ledger_row list" where
  "window_rows now d r = filter (in_hour_window now (rs_tenant r) (rs_agent r)) (ledger d)"

definition reconcile_counts :: "time \<Rightarrow> db \<Rightarrow> db" where
  "reconcile_counts now d =
     d\<lparr>runtime := update_where
        (\<lambda>r. running_of d (rs_tenant r) (rs_agent r) > 0
             \<and> running_task_count r \<noteq> running_of d (rs_tenant r) (rs_agent r))
        (\<lambda>r. r\<lparr>running_task_count := running_of d (rs_tenant r) (rs_agent r), rs_updated_at := now\<rparr>)
        (runtime d)\<rparr>"

definition zero_counts :: "time \<Rightarrow> db \<Rightarrow> db" where
  "zero_counts now d =
     d\<lparr>runtime := update_where
        (\<lambda>r. running_task_count r > 0 \<and> running_of d (rs_tenant r) (rs_agent r) = 0)
        (\<lambda>r. r\<lparr>running_task_count := 0, rs_updated_at := now\<rparr>) (runtime d)\<rparr>"

definition reconcile_costs :: "time \<Rightarrow> db \<Rightarrow> db" where
  "reconcile_costs now d =
     d\<lparr>runtime := update_where
        (\<lambda>r. window_rows now d r \<noteq> []
             \<and> hour_window_cost r \<noteq> sum_of l_cost (window_rows now d r))
        (\<lambda>r. r\<lparr>hour_window_cost := sum_of l_cost (window_rows now d r), rs_updated_at := now\<rparr>)
        (runtime d)\<rparr>"

definition zero_costs :: "time \<Rightarrow> db \<Rightarrow> db" where
  "zero_costs now d =
     d\<lparr>runtime := update_where (\<lambda>r. hour_window_cost r > 0 \<and> window_rows now d r = [])
        (\<lambda>r. r\<lparr>hour_window_cost := 0, rs_updated_at := now\<rparr>) (runtime d)\<rparr>"

definition reconcile_runtime_state :: "time \<Rightarrow> db \<Rightarrow> db" where
  "reconcile_runtime_state now d =
     zero_costs now (reconcile_costs now (zero_counts now (reconcile_counts now d)))"

definition prune_cost_ledger :: "time \<Rightarrow> db \<Rightarrow> db \<times> int" where
  "prune_cost_ledger now d =
     (let old = (\<lambda>r. l_created_at r < now - seconds 7200) in
      (d\<lparr>ledger := filter (\<lambda>r. \<not> old r) (ledger d)\<rparr>, count_where old (ledger d)))"

definition run_once :: "time \<Rightarrow> time \<Rightarrow> time \<Rightarrow> time \<Rightarrow> (string \<Rightarrow> bool) \<Rightarrow> db \<Rightarrow> db \<times> reap_results \<times> string list" where
  "run_once n0 n1 n2 n3 locked d =
     (let (d1, res) = reap_scan n0 d;
          (d2, resumed) = recover_hourly_budget_pauses n1 locked d1;
          d3 = reconcile_runtime_state n2 d2
      in (fst (prune_cost_ledger n3 d3), res, resumed))"

section \<open>Lemmas on the scan\<close>

lemma fold_frame: "(\<And>r e. g (body r e) = g e) \<Longrightarrow> g (fold body rows d) = g d"
  by (induction rows arbitrary: d) auto

lemma reap_bodies_frame [simp]:
  "tasks (requeue_body now r d) = tasks d" "tasks (exhausted_body now r d) = tasks d"
  "tasks (timeout_body now r d) = tasks d" "tasks (human_timeout_body now r d) = tasks d"
  "agents (requeue_body now r d) = agents d" "agents (exhausted_body now r d) = agents d"
  "agents (timeout_body now r d) = agents d" "agents (human_timeout_body now r d) = agents d"
  "ledger (requeue_body now r d) = ledger d" "ledger (exhausted_body now r d) = ledger d"
  "ledger (timeout_body now r d) = ledger d" "ledger (human_timeout_body now r d) = ledger d"
  "runtime (human_timeout_body now r d) = runtime d"
  by (simp_all add: requeue_body_def exhausted_body_def timeout_body_def human_timeout_body_def)

lemma notify_requeued_frame [simp]:
  "tasks (notify_requeued now d) = tasks d" "agents (notify_requeued now d) = agents d"
  "runtime (notify_requeued now d) = runtime d" "ledger (notify_requeued now d) = ledger d"
  by (simp_all add: notify_requeued_def fold_frame [of tasks] fold_frame [of agents]
      fold_frame [of runtime] fold_frame [of ledger])

lemma update_returning_tasks:
  "(\<And>r e. tasks (body r e) = tasks e) \<Longrightarrow>
   tasks (fst (update_returning P f body d)) = update_where P f (tasks d)"
  by (simp add: update_returning_def Let_def fold_frame [of tasks])

lemma reap_tasks:
  "tasks (fst (reap_requeue now d)) = update_where (requeue_cond now) (requeue_row now) (tasks d)"
  "tasks (fst (reap_exhausted now d)) = update_where (exhausted_cond now) (exhausted_row now) (tasks d)"
  "tasks (fst (reap_timeouts now d)) = update_where (timeout_cond now) (timeout_row now) (tasks d)"
  "tasks (fst (reap_human_timeouts now d))
     = update_where (human_timeout_cond now) (human_timeout_row now) (tasks d)"
  by (simp_all add: reap_requeue_def reap_exhausted_def reap_timeouts_def reap_human_timeouts_def
      update_returning_tasks)

text \<open>What the four statements do to one row, as a specification.\<close>

definition reap_task :: "time \<Rightarrow> task \<Rightarrow> task" where
  "reap_task now t =
     (if requeue_cond now t
      then (if timeout_cond now t then timeout_row now (requeue_row now t) else requeue_row now t)
      else if exhausted_cond now t then exhausted_row now t
      else if timeout_cond now t then timeout_row now t
      else if human_timeout_cond now t then human_timeout_row now t
      else t)"

lemmas reap_conds = lease_expired_def requeue_cond_def exhausted_cond_def timeout_cond_def
  human_timeout_cond_def

lemmas reap_rows = requeue_row_def exhausted_row_def timeout_row_def human_timeout_row_def

lemma reap_conds_rows:
  "\<not> exhausted_cond now (requeue_row now t)"
  "requeue_cond now t \<Longrightarrow> timeout_cond now (requeue_row now t) = timeout_cond now t"
  "\<not> timeout_cond now (exhausted_row now t)"
  "\<not> human_timeout_cond now (requeue_row now t)" "\<not> human_timeout_cond now (exhausted_row now t)"
  "\<not> human_timeout_cond now (timeout_row now t)"
  "requeue_cond now t \<Longrightarrow> \<not> human_timeout_cond now t"
  by (simp_all add: reap_conds reap_rows)

lemma reap_task_steps:
  "(let t1 = (if requeue_cond now t then requeue_row now t else t);
        t2 = (if exhausted_cond now t1 then exhausted_row now t1 else t1);
        t3 = (if timeout_cond now t2 then timeout_row now t2 else t2)
    in if human_timeout_cond now t3 then human_timeout_row now t3 else t3) = reap_task now t"
  using reap_conds_rows [of now t] reap_conds_rows(6) [of now "requeue_row now t"]
  by (simp add: reap_task_def Let_def)

lemma reap_scan_tasks: "tasks (fst (reap_scan now d)) = map (reap_task now) (tasks d)"
proof -
  have "tasks (fst (reap_scan now d)) =
    update_where (human_timeout_cond now) (human_timeout_row now)
      (update_where (timeout_cond now) (timeout_row now)
        (update_where (exhausted_cond now) (exhausted_row now)
          (update_where (requeue_cond now) (requeue_row now) (tasks d))))"
    by (simp add: reap_scan_def mark_stale_workers_def Let_def split_beta reap_tasks)
  also have "\<dots> = map (reap_task now) (tasks d)"
    using reap_task_steps [of now] by (simp add: update_where_def Let_def comp_def)
  finally show ?thesis .
qed

lemma reap_task_key [simp]:
  "task_id (reap_task now t) = task_id t" "tenant_id (reap_task now t) = tenant_id t"
  "agent_id (reap_task now t) = agent_id t"
  by (simp_all add: reap_task_def reap_rows)

lemma reap_task_settled [simp]:
  "\<not> lease_expired now (reap_task now t) \<and> \<not> timeout_cond now (reap_task now t)
   \<and> \<not> human_timeout_cond now (reap_task now t)"
  by (auto simp: reap_task_def reap_conds reap_rows)

subsection \<open>The running counter\<close>

lemma running_count_fold_decrement:
  assumes "\<And>r e. runtime (body r e) = runtime (decrement_running_count now (tenant_id r) (agent_id r) e)"
    and "0 \<le> running_count d tn ag"
  shows "running_count (fold body rows d) tn ag
    = max (running_count d tn ag - count_where (\<lambda>r. tenant_id r = tn \<and> agent_id r = ag) rows) 0"
  using assms(2)
proof (induction rows arbitrary: d)
  case (Cons r rows)
  have step: "running_count (body r d) tn ag =
      (if tenant_id r = tn \<and> agent_id r = ag then max (running_count d tn ag - 1) 0
       else running_count d tn ag)"
    unfolding running_count_cong [OF assms(1)] running_count_decrement by simp
  have nn: "0 \<le> running_count (body r d) tn ag" using step Cons.prems by simp
  define n where "n = count_where (\<lambda>r. tenant_id r = tn \<and> agent_id r = ag) rows"
  have "0 \<le> n" by (simp add: n_def)
  then show ?case
    using Cons.IH [OF nn] step Cons.prems
    by (cases "tenant_id r = tn \<and> agent_id r = ag") (auto simp: n_def [symmetric] max_def)
qed simp

lemma running_count_update_returning:
  assumes "\<And>r e. runtime (body r e) = runtime (decrement_running_count now (tenant_id r) (agent_id r) e)"
    and "\<And>t. tenant_id (f t) = tenant_id t" "\<And>t. agent_id (f t) = agent_id t"
    and "0 \<le> running_count d tn ag"
  shows "running_count (fst (update_returning P f body d)) tn ag
    = max (running_count d tn ag
           - count_where (\<lambda>t. P t \<and> tenant_id t = tn \<and> agent_id t = ag) (tasks d)) 0"
proof -
  have "count_where (\<lambda>r. tenant_id r = tn \<and> agent_id r = ag) (returning P f rows)
      = count_where (\<lambda>t. P t \<and> tenant_id t = tn \<and> agent_id t = ag) rows" for rows
    by (induction rows) (simp_all add: returning_def assms(2,3))
  moreover have "running_count (d\<lparr>tasks := ts\<rparr>) tn ag = running_count d tn ag" for ts
    by (rule running_count_cong) simp
  ultimately show ?thesis
    using assms(4) by (simp add: update_returning_def Let_def running_count_fold_decrement [OF assms(1)])
qed

lemma running_of_update:
  assumes "\<And>t. P t \<Longrightarrow> status (f t) \<noteq> Running" "tasks d' = update_where P f (tasks d)"
  shows "running_of d' tn ag = running_of d tn ag
    - count_where (\<lambda>t. P t \<and> status t = Running \<and> tenant_id t = tn \<and> agent_id t = ag) (tasks d)"
proof -
  have "count_where Q (update_where P f rows)
      = count_where Q rows - count_where (\<lambda>t. P t \<and> Q t) rows"
    if "\<And>t :: task. P t \<Longrightarrow> \<not> Q (f t)" for Q and rows :: "task list"
    by (induction rows) (auto simp: that)
  from this [of "\<lambda>t. tenant_id t = tn \<and> agent_id t = ag \<and> status t = Running" "tasks d"] assms
  show ?thesis by (simp add: running_of_def conj_ac)
qed

definition counter_exact :: "db \<Rightarrow> string \<Rightarrow> string \<Rightarrow> bool" where
  "counter_exact d tn ag \<longleftrightarrow> running_count d tn ag = running_of d tn ag"

lemma reap_bodies_runtime:
  "runtime (requeue_body now r e) = runtime (decrement_running_count now (tenant_id r) (agent_id r) e)"
  "runtime (exhausted_body now r e) = runtime (decrement_running_count now (tenant_id r) (agent_id r) e)"
  "runtime (timeout_body now r e) = runtime (decrement_running_count now (tenant_id r) (agent_id r) e)"
  by (simp_all add: requeue_body_def exhausted_body_def timeout_body_def)

lemma counter_exact_requeue: "counter_exact d tn ag \<Longrightarrow> counter_exact (fst (reap_requeue now d)) tn ag"
proof -
  assume ex: "counter_exact d tn ag"
  let ?d = "notify_requeued now d"
  have rc: "running_count ?d tn ag = running_count d tn ag" by (rule running_count_cong) simp
  have ro: "running_of ?d tn ag = running_of d tn ag" by (rule running_of_cong) simp
  have "running_count (fst (reap_requeue now d)) tn ag = max (running_count ?d tn ag
      - count_where (\<lambda>t. requeue_cond now t \<and> tenant_id t = tn \<and> agent_id t = ag) (tasks ?d)) 0"
    unfolding reap_requeue_def using ex rc running_of_nonneg [of d tn ag]
    by (intro running_count_update_returning) (simp_all add: reap_bodies_runtime requeue_row_def counter_exact_def)
  moreover have "running_of (fst (reap_requeue now d)) tn ag = running_of d tn ag
      - count_where (\<lambda>t. requeue_cond now t \<and> status t = Running \<and> tenant_id t = tn \<and> agent_id t = ag) (tasks d)"
    by (rule running_of_update) (simp_all add: reap_tasks requeue_row_def)
  moreover have "(\<lambda>t. requeue_cond now t \<and> status t = Running \<and> tenant_id t = tn \<and> agent_id t = ag)
      = (\<lambda>t. requeue_cond now t \<and> tenant_id t = tn \<and> agent_id t = ag)"
    by (auto simp: reap_conds)
  ultimately show ?thesis
    using ex rc running_of_nonneg [of "fst (reap_requeue now d)" tn ag] by (simp add: counter_exact_def)
qed

lemma counter_exact_exhausted: "counter_exact d tn ag \<Longrightarrow> counter_exact (fst (reap_exhausted now d)) tn ag"
proof -
  assume ex: "counter_exact d tn ag"
  have "running_count (fst (reap_exhausted now d)) tn ag = max (running_count d tn ag
      - count_where (\<lambda>t. exhausted_cond now t \<and> tenant_id t = tn \<and> agent_id t = ag) (tasks d)) 0"
    unfolding reap_exhausted_def using ex running_of_nonneg [of d tn ag]
    by (intro running_count_update_returning) (simp_all add: reap_bodies_runtime exhausted_row_def counter_exact_def)
  moreover have "running_of (fst (reap_exhausted now d)) tn ag = running_of d tn ag
      - count_where (\<lambda>t. exhausted_cond now t \<and> status t = Running \<and> tenant_id t = tn \<and> agent_id t = ag) (tasks d)"
    by (rule running_of_update) (simp_all add: reap_tasks exhausted_row_def)
  moreover have "(\<lambda>t. exhausted_cond now t \<and> status t = Running \<and> tenant_id t = tn \<and> agent_id t = ag)
      = (\<lambda>t. exhausted_cond now t \<and> tenant_id t = tn \<and> agent_id t = ag)"
    by (auto simp: reap_conds)
  ultimately show ?thesis
    using ex running_of_nonneg [of "fst (reap_exhausted now d)" tn ag] by (simp add: counter_exact_def)
qed

text \<open>The timeout statement also matches queued tasks, which the counter never counted.\<close>

definition queued_timeouts :: "time \<Rightarrow> db \<Rightarrow> string \<Rightarrow> string \<Rightarrow> int" where
  "queued_timeouts now d tn ag =
     count_where (\<lambda>t. timeout_cond now t \<and> status t = Queued \<and> tenant_id t = tn \<and> agent_id t = ag) (tasks d)"

lemma reap_timeouts_counter:
  assumes ex: "counter_exact d tn ag"
  shows "running_count (fst (reap_timeouts now d)) tn ag
    = max (running_of (fst (reap_timeouts now d)) tn ag - queued_timeouts now d tn ag) 0"
proof -
  let ?P = "\<lambda>t. timeout_cond now t \<and> tenant_id t = tn \<and> agent_id t = ag"
  have "running_count (fst (reap_timeouts now d)) tn ag
      = max (running_count d tn ag - count_where ?P (tasks d)) 0"
    unfolding reap_timeouts_def using ex running_of_nonneg [of d tn ag]
    by (intro running_count_update_returning) (simp_all add: reap_bodies_runtime timeout_row_def counter_exact_def)
  moreover have "running_of (fst (reap_timeouts now d)) tn ag = running_of d tn ag
      - count_where (\<lambda>t. timeout_cond now t \<and> status t = Running \<and> tenant_id t = tn \<and> agent_id t = ag) (tasks d)"
    by (rule running_of_update) (simp_all add: reap_tasks timeout_row_def)
  moreover have "count_where ?P (tasks d) =
      count_where (\<lambda>t. timeout_cond now t \<and> status t = Running \<and> tenant_id t = tn \<and> agent_id t = ag) (tasks d)
      + queued_timeouts now d tn ag"
    unfolding queued_timeouts_def
    by (subst count_where_split [of ?P _ "\<lambda>t. status t = Running"])
       (intro arg_cong2 [of _ _ _ _ "(+)"] arg_cong2 [of _ _ _ _ count_where]; auto simp: timeout_cond_def)
  ultimately show ?thesis using ex by (simp add: counter_exact_def algebra_simps)
qed


section \<open>Lemmas on recovery, reconciliation and pruning\<close>

lemma reconcile_frame [simp]:
  "tasks (reconcile_counts now d) = tasks d" "ledger (reconcile_counts now d) = ledger d"
  "tasks (zero_counts now d) = tasks d" "ledger (zero_counts now d) = ledger d"
  "tasks (reconcile_costs now d) = tasks d" "ledger (reconcile_costs now d) = ledger d"
  "tasks (zero_costs now d) = tasks d" "ledger (zero_costs now d) = ledger d"
  "agents (reconcile_counts now d) = agents d" "agents (zero_counts now d) = agents d"
  "agents (reconcile_costs now d) = agents d" "agents (zero_costs now d) = agents d"
  by (simp_all add: reconcile_counts_def zero_counts_def reconcile_costs_def zero_costs_def)

definition reconciled_row :: "time \<Rightarrow> db \<Rightarrow> runtime_state \<Rightarrow> bool" where
  "reconciled_row now d r \<longleftrightarrow>
     running_task_count r = running_of d (rs_tenant r) (rs_agent r)
     \<and> hour_window_cost r = sum_hourly_cost_for_agent now d (rs_tenant r) (rs_agent r)"

definition fix_count :: "time \<Rightarrow> int \<Rightarrow> runtime_state \<Rightarrow> runtime_state" where
  "fix_count now n r =
     (if n > 0 \<and> running_task_count r \<noteq> n then r\<lparr>running_task_count := n, rs_updated_at := now\<rparr> else r)"

definition zero_count :: "time \<Rightarrow> int \<Rightarrow> runtime_state \<Rightarrow> runtime_state" where
  "zero_count now n r =
     (if running_task_count r > 0 \<and> n = 0 then r\<lparr>running_task_count := 0, rs_updated_at := now\<rparr> else r)"

definition fix_cost :: "time \<Rightarrow> ledger_row list \<Rightarrow> runtime_state \<Rightarrow> runtime_state" where
  "fix_cost now w r =
     (if w \<noteq> [] \<and> hour_window_cost r \<noteq> sum_of l_cost w
      then r\<lparr>hour_window_cost := sum_of l_cost w, rs_updated_at := now\<rparr> else r)"

definition zero_cost :: "time \<Rightarrow> ledger_row list \<Rightarrow> runtime_state \<Rightarrow> runtime_state" where
  "zero_cost now w r =
     (if hour_window_cost r > 0 \<and> w = [] then r\<lparr>hour_window_cost := 0, rs_updated_at := now\<rparr> else r)"

definition reconcile_row :: "time \<Rightarrow> db \<Rightarrow> runtime_state \<Rightarrow> runtime_state" where
  "reconcile_row now d r =
     (let n = running_of d (rs_tenant r) (rs_agent r); w = window_rows now d r in
      zero_cost now w (fix_cost now w (zero_count now n (fix_count now n r))))"

lemma row_steps_key [simp]:
  "rs_tenant (fix_count now n r) = rs_tenant r" "rs_agent (fix_count now n r) = rs_agent r"
  "rs_tenant (zero_count now n r) = rs_tenant r" "rs_agent (zero_count now n r) = rs_agent r"
  "rs_tenant (fix_cost now w r) = rs_tenant r" "rs_agent (fix_cost now w r) = rs_agent r"
  "rs_tenant (zero_cost now w r) = rs_tenant r" "rs_agent (zero_cost now w r) = rs_agent r"
  by (simp_all add: fix_count_def zero_count_def fix_cost_def zero_cost_def)

lemma reconcile_steps:
  "runtime (reconcile_counts now d)
     = map (\<lambda>r. fix_count now (running_of d (rs_tenant r) (rs_agent r)) r) (runtime d)"
  "runtime (zero_counts now d)
     = map (\<lambda>r. zero_count now (running_of d (rs_tenant r) (rs_agent r)) r) (runtime d)"
  "runtime (reconcile_costs now d) = map (\<lambda>r. fix_cost now (window_rows now d r) r) (runtime d)"
  "runtime (zero_costs now d) = map (\<lambda>r. zero_cost now (window_rows now d r) r) (runtime d)"
  by (simp_all add: reconcile_counts_def zero_counts_def reconcile_costs_def zero_costs_def
      update_where_def fix_count_def zero_count_def fix_cost_def zero_cost_def)

lemma window_rows_cong:
  "ledger d' = ledger d \<Longrightarrow> rs_tenant r' = rs_tenant r \<Longrightarrow> rs_agent r' = rs_agent r \<Longrightarrow>
   window_rows now d' r' = window_rows now d r"
  by (simp add: window_rows_def)

lemma reconcile_rows:
  "runtime (reconcile_runtime_state now d) = map (reconcile_row now d) (runtime d)"
proof -
  let ?d1 = "reconcile_counts now d" and ?d2 = "zero_counts now (reconcile_counts now d)"
    and ?d3 = "reconcile_costs now (zero_counts now (reconcile_counts now d))"
  have ro: "running_of ?d1 tn ag = running_of d tn ag" for tn ag
    by (rule running_of_cong) simp
  have w2: "window_rows now ?d2 r = window_rows now d r" for r by (rule window_rows_cong) simp_all
  have w3: "window_rows now ?d3 r = window_rows now d r" for r by (rule window_rows_cong) simp_all
  have w: "window_rows now d (zero_count now m (fix_count now n r)) = window_rows now d r"
    "window_rows now d (fix_cost now x (zero_count now m (fix_count now n r))) = window_rows now d r"
    for m n r x by (rule window_rows_cong; simp)+
  show ?thesis
    unfolding reconcile_runtime_state_def reconcile_steps(4) [of now ?d3] reconcile_steps(3) [of now ?d2]
      reconcile_steps(2) [of now ?d1] reconcile_steps(1)
    by (simp add: ro w2 w3 w reconcile_row_def Let_def)
qed

lemma reconcile_row_key [simp]:
  "rs_tenant (reconcile_row now d r) = rs_tenant r" "rs_agent (reconcile_row now d r) = rs_agent r"
  by (simp_all add: reconcile_row_def Let_def)

lemma reconcile_row_exact:
  assumes "0 \<le> running_task_count r" "0 \<le> hour_window_cost r"
  shows "reconciled_row now d (reconcile_row now d r)"
proof -
  define n where "n = running_of d (rs_tenant r) (rs_agent r)"
  define w where "w = window_rows now d r"
  have "sum_hourly_cost_for_agent now d (rs_tenant r) (rs_agent r) = sum_of l_cost w"
    by (simp add: sum_hourly_cost_for_agent_def window_rows_def w_def)
  moreover have "0 \<le> n" by (simp add: n_def)
  then have "n = 0 \<or> 0 < n" by linarith
  then have "running_task_count (reconcile_row now d r) = n"
    using assms(1) unfolding reconcile_row_def n_def [symmetric] w_def [symmetric] Let_def
    by (auto simp: zero_cost_def fix_cost_def zero_count_def fix_count_def)
  moreover have "hour_window_cost (reconcile_row now d r) = sum_of l_cost w"
    using assms(2) unfolding reconcile_row_def n_def [symmetric] w_def [symmetric] Let_def
    by (auto simp: zero_cost_def fix_cost_def zero_count_def fix_count_def)
  ultimately show ?thesis by (simp add: reconciled_row_def n_def)
qed

lemma recover_agent_cases:
  assumes "recover_agent now locked k d = (d', ids)"
  obtains "d' = d" "ids = []"
  | a sel where "find_agent d (fst k) (snd k) = Some a" "a_active a"
      "sum_hourly_cost_for_agent now d (fst k) (snd k) < budget_max_per_hour a"
      "running_count d (fst k) (snd k) < max_concurrent a"
      "sel = set (resume_ids locked (fst k) (snd k) (max_concurrent a - running_count d (fst k) (snd k)) d)"
      "ids = map task_id (filter (\<lambda>t. task_id t \<in> sel) (tasks d))"
      "tasks d' = update_where (\<lambda>t. task_id t \<in> sel) (resume_row now) (tasks d)"
      "ledger d' = ledger d" "agents d' = agents d"
proof -
  have frames: "tasks (fold body rows e) = tasks e \<and> ledger (fold body rows e) = ledger e
      \<and> agents (fold body rows e) = agents e"
    if "\<And>r e. tasks (body r e) = tasks e" "\<And>r e. ledger (body r e) = ledger e" "\<And>r e. agents (body r e) = agents e"
    for body :: "'x \<Rightarrow> db \<Rightarrow> db" and rows e
    by (simp add: fold_frame [of tasks, OF that(1)] fold_frame [of ledger, OF that(2)] fold_frame [of agents, OF that(3)])
  from assms show thesis
    by (auto simp: recover_agent_def Let_def returning_def comp_def resume_row_def frames intro: that
        split: option.splits if_splits)
qed

lemma resume_ids_mem:
  "i \<in> set (resume_ids locked tn ag n d) \<Longrightarrow>
   \<exists>t \<in> set (tasks d). task_id t = i \<and> hourly_paused tn ag t \<and> \<not> locked i"
  by (auto simp: resume_ids_def dest!: in_set_takeD)

lemma sorted_take_least:
  assumes "sorted (map key xs)" "x \<in> set (take n xs)" "y \<in> set xs" "y \<notin> set (take n xs)"
  shows "key x \<le> (key y :: int)"
proof -
  have "y \<in> set (drop n xs)" using assms(3,4) by (metis UnE append_take_drop_id set_append)
  moreover have "sorted (map key (take n xs) @ map key (drop n xs))"
    using assms(1) by (simp flip: map_append)
  ultimately show ?thesis using assms(2) by (auto simp: sorted_append)
qed


section \<open>Properties\<close>

text \<open>
  C7. The four sequential statements of a reaper scan (requeue, exhaust, timeout, human
  timeout) together are one pass of a per-task decision over the table, and afterwards no
  expired lease, timed-out task, overdue human wait or stale worker is left.
\<close>

theorem reaper_scan_meets_spec:
  "tasks (fst (reap_scan now d)) = map (reap_task now) (tasks d)
   \<and> filter (\<lambda>t. lease_expired now t \<or> timeout_cond now t \<or> human_timeout_cond now t)
       (tasks (fst (reap_scan now d))) = []
   \<and> filter (stale_worker now) (workers (fst (reap_scan now d))) = []"
proof -
  have "filter (stale_worker now) (update_where (stale_worker now) (\<lambda>w. w\<lparr>w_status := Offline\<rparr>) ws) = []" for ws
    by (induction ws) (auto simp: stale_worker_def)
  then have "filter (stale_worker now) (workers (fst (reap_scan now d))) = []"
    by (simp add: reap_scan_def mark_stale_workers_def Let_def split_beta)
  then show ?thesis by (simp add: reap_scan_tasks filter_empty_conv)
qed

text \<open>The two lease scans keep the running counter of every agent exact.\<close>

theorem lease_reaping_keeps_counter:
  assumes "counter_exact d tn ag"
  shows "counter_exact (fst (reap_exhausted now (fst (reap_requeue now d)))) tn ag"
  using assms by (intro counter_exact_exhausted counter_exact_requeue)

definition demo_running :: "string \<Rightarrow> task" where
  "demo_running i = (new_task i ''t'' ''a'' ''p'' 10)\<lparr>status := Running, lease_owner := Some ''w'',
     lease_expiry := Some 60\<rparr>"

definition demo_runtime :: "int \<Rightarrow> runtime_state" where
  "demo_runtime n = (epoch_row 10 ''t'' ''a'' 0)\<lparr>running_task_count := n\<rparr>"

theorem lease_reaping_keeps_counter_witness:
  "counter_exact (fst (reap_exhausted 100 (fst (reap_requeue 100
     ((demo_db [])\<lparr>tasks := [demo_running ''x''], runtime := [demo_runtime 1]\<rparr>))))) ''t'' ''a''"
  by (rule lease_reaping_keeps_counter) code_simp

text \<open>What the timeout scan does to the counter: it is short by the queued tasks it reaped.\<close>

theorem timeouts_undercount_running:
  assumes "counter_exact d tn ag"
  shows "running_count (fst (reap_timeouts now d)) tn ag
    = max (running_of (fst (reap_timeouts now d)) tn ag - queued_timeouts now d tn ag) 0"
  using assms by (rule reap_timeouts_counter)

definition overcommit_db :: db where
  "overcommit_db = (demo_db [])\<lparr>agents := [demo_agent\<lparr>max_concurrent := 1\<rparr>],
     tasks := [(demo_running ''x'')\<lparr>lease_expiry := Some (seconds 5000), timeout_reference_at := Some (seconds 3000)\<rparr>,
               new_task ''y'' ''t'' ''a'' ''p'' 10,
               (new_task ''z'' ''t'' ''a'' ''p'' 20)\<lparr>timeout_reference_at := Some (seconds 3000)\<rparr>],
     runtime := [demo_runtime 1]\<rparr>"

theorem timeouts_undercount_running_witness:
  "running_count (fst (reap_timeouts (seconds 4000) overcommit_db)) ''t'' ''a'' = 0
   \<and> running_of (fst (reap_timeouts (seconds 4000) overcommit_db)) ''t'' ''a'' = 1"
proof -
  have "counter_exact overcommit_db ''t'' ''a''" by code_simp
  note timeouts_undercount_running [OF this, of "seconds 4000"]
  moreover have "running_of (fst (reap_timeouts (seconds 4000) overcommit_db)) ''t'' ''a'' = 1"
    "queued_timeouts (seconds 4000) overcommit_db ''t'' ''a'' = 1" by code_simp+
  ultimately show ?thesis by simp
qed


text \<open>
  Reconciliation makes every runtime row exact whatever it held before: the running
  counter is the number of running tasks and the hour window is the sum of the ledger of
  the last hour; it changes no task, no ledger row and no key.
\<close>

theorem reconcile_makes_runtime_exact:
  assumes "\<forall>r \<in> set (runtime d). 0 \<le> running_task_count r \<and> 0 \<le> hour_window_cost r"
  shows "tasks (reconcile_runtime_state now d) = tasks d \<and> ledger (reconcile_runtime_state now d) = ledger d
    \<and> map rs_key (runtime (reconcile_runtime_state now d)) = map rs_key (runtime d)
    \<and> (\<forall>r \<in> set (runtime (reconcile_runtime_state now d)). reconciled_row now d r)"
  using assms unfolding reconcile_rows
  by (auto simp: reconcile_row_exact rs_key_def) (simp_all add: reconcile_runtime_state_def)

theorem reconcile_makes_runtime_exact_witness:
  "reconciled_row 100 overcommit_db (hd (runtime (reconcile_runtime_state 100
     (overcommit_db\<lparr>runtime := [(demo_runtime 7)\<lparr>hour_window_cost := 9\<rparr>]\<rparr>))))"
proof -
  let ?d = "overcommit_db\<lparr>runtime := [(demo_runtime 7)\<lparr>hour_window_cost := 9\<rparr>]\<rparr>"
  have "\<forall>r \<in> set (runtime ?d). 0 \<le> running_task_count r \<and> 0 \<le> hour_window_cost r" by code_simp
  from reconcile_makes_runtime_exact [OF this, of 100]
  have a: "\<forall>r \<in> set (runtime (reconcile_runtime_state 100 ?d)). reconciled_row 100 ?d r"
    and k: "map rs_key (runtime (reconcile_runtime_state 100 ?d)) = map rs_key (runtime ?d)" by simp_all
  from k have "runtime (reconcile_runtime_state 100 ?d) \<noteq> []" by (auto simp: overcommit_db_def)
  then have "reconciled_row 100 ?d (hd (runtime (reconcile_runtime_state 100 ?d)))" using a by simp
  then show ?thesis
    by (simp add: reconciled_row_def running_of_def sum_hourly_cost_for_agent_def)
qed

text \<open>
  Recovery requeues hourly paused tasks only of an active agent whose hour spend is
  below its budget, at most as many as it has free slots, and always the oldest unlocked
  ones.
\<close>

theorem budget_recovery_respects_limits:
  assumes "recover_agent now locked (tn, ag) d = (d', ids)" "ids \<noteq> []" "distinct (map task_id (tasks d))"
  shows "\<exists>a. find_agent d tn ag = Some a \<and> a_active a
    \<and> sum_hourly_cost_for_agent now d tn ag < budget_max_per_hour a
    \<and> running_count d tn ag + int (length ids) \<le> max_concurrent a
    \<and> (\<forall>t \<in> set (tasks d). task_id t \<in> set ids \<longrightarrow> hourly_paused tn ag t
         \<and> (\<forall>u \<in> set (tasks d). hourly_paused tn ag u \<and> \<not> locked (task_id u) \<and> task_id u \<notin> set ids
              \<longrightarrow> created_at t \<le> created_at u))"
  using recover_agent_cases [OF assms(1)]
proof cases
  case 1
  then show ?thesis using assms(2) by simp
next
  case (2 a sel)
  define xs where "xs = sort_key created_at (filter (\<lambda>t. hourly_paused tn ag t \<and> \<not> locked (task_id t)) (tasks d))"
  define n where "n = nat (max_concurrent a - running_count d tn ag)"
  have sel: "sel = task_id ` set (take n xs)"
    using 2(5) by (simp add: resume_ids_def xs_def n_def)
  have sub: "set (take n xs) \<subseteq> set (tasks d)"
    using set_take_subset [of n xs] by (auto simp: xs_def)
  have uniq: "x = y" if "task_id x = task_id y" "x \<in> set (tasks d)" "y \<in> set (tasks d)" for x y
    using distinct_map_eq [OF assms(3)] that by blast
  have mem: "t \<in> set (take n xs) \<longleftrightarrow> task_id t \<in> set ids" if "t \<in> set (tasks d)" for t
    using that 2(6) sel sub uniq by (auto simp: image_iff) (metis subsetD)+
  have "set ids = sel" using 2(6) sel sub by auto
  then have "length ids \<le> card sel"
    using 2(6) assms(3) by (metis distinct_card distinct_filter distinct_map_filter order_refl)
  also have "\<dots> \<le> n" unfolding sel by (metis List.finite_set card_image_le card_length le_trans length_take min.cobounded2 min.boundedE)
  finally have len: "int (length ids) \<le> max_concurrent a - running_count d tn ag"
    using 2(4) by (simp add: n_def)
  have paused: "hourly_paused tn ag t" if "t \<in> set (take n xs)" for t
    using in_set_takeD [OF that] by (simp add: xs_def)
  have least: "created_at t \<le> created_at u"
    if "t \<in> set (take n xs)" "u \<in> set (tasks d)" "hourly_paused tn ag u" "\<not> locked (task_id u)"
      "u \<notin> set (take n xs)" for t u
    using sorted_take_least [of created_at xs t n u] that by (simp add: xs_def)
  show ?thesis
    using 2(1-3) len paused least mem by (intro exI [of _ a]) auto
qed

theorem budget_recovery_respects_limits_witness:
  "snd (recover_agent 100 (\<lambda>_. False) (''t'', ''a'')
     (overcommit_db\<lparr>tasks := [(new_task ''x'' ''t'' ''a'' ''p'' 10)\<lparr>status := Paused, pause_reason := Some ''budget_per_hour''\<rparr>],
        runtime := [demo_runtime 0]\<rparr>)) = [''x''] \<and>
   (\<exists>a. find_agent overcommit_db ''t'' ''a'' = Some a \<and> 0 + int 1 \<le> max_concurrent a)"
proof -
  let ?d = "overcommit_db\<lparr>tasks := [(new_task ''x'' ''t'' ''a'' ''p'' 10)\<lparr>status := Paused, pause_reason := Some ''budget_per_hour''\<rparr>],
        runtime := [demo_runtime 0]\<rparr>"
  have e: "snd (recover_agent 100 (\<lambda>_. False) (''t'', ''a'') ?d) = [''x'']" by code_simp
  then have r: "recover_agent 100 (\<lambda>_. False) (''t'', ''a'') ?d
      = (fst (recover_agent 100 (\<lambda>_. False) (''t'', ''a'') ?d), [''x''])" by (metis prod.collapse)
  have "distinct (map task_id (tasks ?d))" by code_simp
  moreover have "running_count ?d ''t'' ''a'' = 0" by code_simp
  ultimately show ?thesis
    using budget_recovery_respects_limits [OF r] e by (auto simp: find_agent_def)
qed

text \<open>Pruning removes no row of the hour window.\<close>

theorem pruning_keeps_the_hour_window:
  "sum_hourly_cost_for_agent now (fst (prune_cost_ledger now d)) tn ag = sum_hourly_cost_for_agent now d tn ag
   \<and> min_created_at_in_hour_window now (fst (prune_cost_ledger now d)) tn ag
      = min_created_at_in_hour_window now d tn ag"
proof -
  have "filter (in_hour_window now tn ag) (filter (\<lambda>r. \<not> l_created_at r < now - seconds 7200) rows)
      = filter (in_hour_window now tn ag) rows" for rows
    by (auto simp: in_hour_window_def second_def filter_filter intro!: filter_cong)
  then show ?thesis
    by (simp add: prune_cost_ledger_def Let_def sum_hourly_cost_for_agent_def min_created_at_in_hour_window_def)
qed

text \<open>Pruning does lower the total of a task with an older row.\<close>

theorem pruning_forgets_task_cost:
  assumes "r \<in> set (ledger d)" "l_task r = tid" "l_created_at r < now - seconds 7200" "0 < l_cost r"
    and "\<forall>x \<in> set (ledger d). 0 \<le> l_cost x"
  shows "sum_task_cost (fst (prune_cost_ledger now d)) tid < sum_task_cost d tid"
proof -
  have le: "sum_of l_cost (filter P (filter Q rows)) \<le> sum_of l_cost (filter P rows)"
    if "\<forall>x \<in> set rows. 0 \<le> l_cost x" for P Q and rows :: "ledger_row list"
    using that by (induction rows) auto
  have "sum_of l_cost (filter P (filter Q rows)) < sum_of l_cost (filter P rows)"
    if "r \<in> set rows" "P r" "\<not> Q r" "\<forall>x \<in> set rows. 0 \<le> l_cost x" for P Q and rows :: "ledger_row list"
    using that
  proof (induction rows)
    case (Cons x rows)
    then show ?case using le [of rows P Q] assms(4) by (cases "x = r") auto
  qed simp
  with assms show ?thesis by (simp add: prune_cost_ledger_def sum_task_cost_def)
qed

theorem pruning_forgets_task_cost_witness:
  "sum_task_cost (fst (prune_cost_ledger (seconds 8000) (empty_db\<lparr>ledger := [cost_row 0 ''t'' ''a'' ''x'' ''c'' 7]\<rparr>))) ''x''
   < sum_task_cost (empty_db\<lparr>ledger := [cost_row 0 ''t'' ''a'' ''x'' ''c'' 7]\<rparr>) ''x''"
  by (rule pruning_forgets_task_cost [of "cost_row 0 ''t'' ''a'' ''x'' ''c'' 7"])
     (simp_all add: cost_row_def second_def)

end
