(* ===== verification/Memory.thy ===== *)
theory Memory
  imports Repositories "HOL-Library.Product_Lexorder"
begin

text \<open>
  \<open>core/memory_repository.py\<close>: the memory table of an agent.  At most one row per task
  (UPSERT on \<open>task_id\<close>), a FIFO cap per agent that never evicts the fresh row, and scoped
  reads.  \<open>gen_random_uuid()\<close> is the argument \<open>mid\<close>; a vector is the text literal
  \<open>_vec_to_sql_literal\<close> makes of it.  The advisory lock serialises these transactions
  per agent, so each is one function here.
\<close>

definition DEFAULT_MAX_ENTRIES :: int where "DEFAULT_MAX_ENTRIES = 10000"
definition MIN_MAX_ENTRIES :: int where "MIN_MAX_ENTRIES = 100"
definition MAX_MAX_ENTRIES :: int where "MAX_MAX_ENTRIES = 100000"

definition max_entries_for_agent :: "json \<Rightarrow> int" where
  "max_entries_for_agent agent_config =
     (case json_get ''memory'' agent_config of
        Some (JObj mem) \<Rightarrow>
          (case map_of mem ''max_entries'' of
             Some (JNum raw) \<Rightarrow>
               if raw < MIN_MAX_ENTRIES then MIN_MAX_ENTRIES
               else if raw > MAX_MAX_ENTRIES then MAX_MAX_ENTRIES
               else raw
           | _ \<Rightarrow> DEFAULT_MAX_ENTRIES)
      | _ \<Rightarrow> DEFAULT_MAX_ENTRIES)"

definition upsert_memory_entry :: "time \<Rightarrow> string \<Rightarrow> memory_row \<Rightarrow> db \<Rightarrow> db \<times> string \<times> bool" where
  "upsert_memory_entry now mid e d =
     (case find (\<lambda>m. m_task m = m_task e) (memories d) of
        Some old \<Rightarrow>
          (d\<lparr>memories := update_where (\<lambda>m. m_task m = m_task e)
              (\<lambda>m. m\<lparr>m_title := m_title e, m_summary := m_summary e,
                     m_observations := m_observations e, m_rationales := m_rationales e,
                     m_outcome := m_outcome e, m_tags := m_tags e, m_vec := m_vec e,
                     m_model := m_model e, m_version := m_version m + 1, m_updated_at := now\<rparr>)
              (memories d)\<rparr>, m_id old, False)
      | None \<Rightarrow>
          (d\<lparr>memories := memories d @
              [e\<lparr>m_id := mid, m_version := 1, m_created_at := now, m_updated_at := now\<rparr>]\<rparr>, mid, True))"

definition of_agent :: "string \<Rightarrow> string \<Rightarrow> memory_row \<Rightarrow> bool" where
  "of_agent tn ag m \<longleftrightarrow> m_tenant m = tn \<and> m_agent m = ag"

definition count_entries_for_agent :: "string \<Rightarrow> string \<Rightarrow> db \<Rightarrow> int" where
  "count_entries_for_agent tn ag d = count_where (of_agent tn ag) (memories d)"

definition excess_ids :: "string \<Rightarrow> string \<Rightarrow> string \<Rightarrow> nat \<Rightarrow> db \<Rightarrow> string list" where
  "excess_ids tn ag keep n d =
     map m_id (drop n (rev (sort_key (\<lambda>m. (m_created_at m, m_id m))
       (filter (\<lambda>m. of_agent tn ag m \<and> m_id m \<noteq> keep) (memories d)))))"

definition trim_oldest :: "string \<Rightarrow> string \<Rightarrow> int \<Rightarrow> string \<Rightarrow> db \<Rightarrow> db \<times> int" where
  "trim_oldest tn ag max_entries keep d =
     (let non_keep_cap = nat (max 0 (max_entries - 1));
          ids = excess_ids tn ag keep non_keep_cap d
      in (d\<lparr>memories := filter (\<lambda>m. m_id m \<notin> set ids) (memories d)\<rparr>,
          count_where (\<lambda>m. m_id m \<in> set ids) (memories d)))"

definition read_memory_row :: "string \<Rightarrow> string \<Rightarrow> string \<Rightarrow> db \<Rightarrow> memory_row option" where
  "read_memory_row tn ag tid d = find (\<lambda>m. of_agent tn ag m \<and> m_task m = tid) (memories d)"

definition read_memory_observations_by_task_id ::
  "string \<Rightarrow> string \<Rightarrow> string \<Rightarrow> db \<Rightarrow> pystr list option" where
  "read_memory_observations_by_task_id tn ag tid d =
     map_option m_observations (read_memory_row tn ag tid d)"

definition read_memory_commit_rationales_by_task_id ::
  "string \<Rightarrow> string \<Rightarrow> string \<Rightarrow> db \<Rightarrow> pystr list option" where
  "read_memory_commit_rationales_by_task_id tn ag tid d =
     map_option (\<lambda>m. case m_rationales m of None \<Rightarrow> [] | Some xs \<Rightarrow> xs) (read_memory_row tn ag tid d)"

record resolved_memory =
  rm_position :: int
  rm_id :: string
  rm_title :: pystr
  rm_summary :: pystr
  rm_observations :: "pystr list"

definition resolve_attached_memories_for_task ::
  "string \<Rightarrow> string \<Rightarrow> string \<Rightarrow> db \<Rightarrow> resolved_memory list" where
  "resolve_attached_memories_for_task tn ag tid d =
     List.map_filter
       (\<lambda>a. case find (\<lambda>m. m_id m = at_memory a \<and> of_agent tn ag m) (memories d) of
              None \<Rightarrow> None
            | Some m \<Rightarrow> Some \<lparr>rm_position = at_position a, rm_id = m_id m, rm_title = m_title m,
                             rm_summary = m_summary m, rm_observations = m_observations m\<rparr>)
       (sort_key at_position (filter (\<lambda>a. at_task a = tid) (attached d)))"

section \<open>Lemmas\<close>

lemma max_entries_bounds: "100 \<le> max_entries_for_agent c \<and> max_entries_for_agent c \<le> 100000"
  by (simp add: max_entries_for_agent_def DEFAULT_MAX_ENTRIES_def MIN_MAX_ENTRIES_def MAX_MAX_ENTRIES_def
      split: option.split json.split)

lemma upsert_memory_frame:
  "tasks (fst (upsert_memory_entry now mid e d)) = tasks d"
  "runtime (fst (upsert_memory_entry now mid e d)) = runtime d"
  "agents (fst (upsert_memory_entry now mid e d)) = agents d"
  "ledger (fst (upsert_memory_entry now mid e d)) = ledger d"
  "checkpoints (fst (upsert_memory_entry now mid e d)) = checkpoints d"
  "events (fst (upsert_memory_entry now mid e d)) = events d"
  by (simp_all add: upsert_memory_entry_def split: option.splits)

lemma trim_frame [simp]:
  "tasks (fst (trim_oldest tn ag n keep d)) = tasks d"
  "runtime (fst (trim_oldest tn ag n keep d)) = runtime d"
  "agents (fst (trim_oldest tn ag n keep d)) = agents d"
  "ledger (fst (trim_oldest tn ag n keep d)) = ledger d"
  "checkpoints (fst (trim_oldest tn ag n keep d)) = checkpoints d"
  "events (fst (trim_oldest tn ag n keep d)) = events d"
  by (simp_all add: trim_oldest_def Let_def)

lemma excess_not_keep: "keep \<notin> set (excess_ids tn ag keep n d)"
  by (auto simp: excess_ids_def dest!: in_set_dropD)

lemma filter_mem_ids:
  assumes "distinct (map m_id ms)" "set xs \<subseteq> set ms"
  shows "filter (\<lambda>m. m_id m \<notin> m_id ` set xs) ms = filter (\<lambda>m. m \<notin> set xs) ms"
proof (rule filter_cong [OF refl])
  fix m assume "m \<in> set ms"
  then show "(m_id m \<notin> m_id ` set xs) = (m \<notin> set xs)"
    using distinct_map_eq [OF assms(1)] assms(2) by blast
qed

lemma length_filter_drop:
  assumes "distinct zs"
  shows "length (filter (\<lambda>z. z \<notin> set (drop n zs)) zs) = min n (length zs)"
proof -
  have "filter (\<lambda>z. z \<notin> set (drop n zs)) (take n zs @ drop n zs) = take n zs"
    using assms set_take_disj_set_drop_if_distinct [of zs n n]
    by (auto simp: filter_id_conv filter_empty_conv simp del: append_take_drop_id)
  then show ?thesis by (metis append_take_drop_id length_take min.commute)
qed

lemma trim_oldest_cap:
  assumes "distinct (map m_id (memories d))" "k \<in> set (memories d)" "of_agent tn ag k" "m_id k = keep"
    and "(d', n) = trim_oldest tn ag max_entries keep d"
  shows "count_entries_for_agent tn ag d' \<le> max 1 max_entries \<and> k \<in> set (memories d')"
proof -
  define Q where "Q m \<longleftrightarrow> of_agent tn ag m \<and> m_id m \<noteq> keep" for m
  define zs where "zs = rev (sort_key (\<lambda>m. (m_created_at m, m_id m)) (filter Q (memories d)))"
  define cap where "cap = nat (max 0 (max_entries - 1))"
  let ?ms = "memories d" and ?del = "set (drop cap zs)"
  have dist: "distinct ?ms" using assms(1) by (simp add: distinct_map)
  have zs: "set zs = set (filter Q ?ms)" "distinct zs" "length zs = length (filter Q ?ms)"
    using dist by (simp_all add: zs_def)
  have sub: "?del \<subseteq> set ?ms" using zs(1) set_drop_subset [of cap zs] by auto
  have ids: "set (excess_ids tn ag keep cap d) = m_id ` ?del"
    by (simp add: excess_ids_def zs_def Q_def [abs_def])
  have mem: "memories d' = filter (\<lambda>m. m \<notin> ?del) ?ms"
    using assms(5) filter_mem_ids [OF assms(1) sub]
    by (simp add: trim_oldest_def Let_def ids cap_def [symmetric])
  have k: "k \<notin> ?del" using zs(1) set_drop_subset [of cap zs] assms(4) by (auto simp: Q_def)
  have "length (filter (\<lambda>m. Q m \<and> m \<notin> ?del) ?ms) = card {m \<in> set ?ms. Q m \<and> m \<notin> ?del}"
    using dist by (metis distinct_card distinct_filter set_filter)
  also have "{m \<in> set ?ms. Q m \<and> m \<notin> ?del} = set (filter (\<lambda>z. z \<notin> ?del) zs)"
    using zs(1) by auto
  also have "card \<dots> = min cap (length zs)"
    using length_filter_drop [OF zs(2), of cap] zs(2) by (metis distinct_card distinct_filter)
  finally have nk: "length (filter (\<lambda>m. Q m \<and> m \<notin> ?del) ?ms) \<le> cap" by simp
  have split: "count_where (of_agent tn ag) (memories d')
      = count_where (\<lambda>m. of_agent tn ag m \<and> m_id m = keep) (memories d')
        + count_where (\<lambda>m. of_agent tn ag m \<and> m_id m \<noteq> keep) (memories d')"
    by (rule count_where_split)
  have "count_where (\<lambda>m. of_agent tn ag m \<and> m_id m = keep) (memories d') \<le> 1"
  proof -
    have "filter (\<lambda>m. of_agent tn ag m \<and> m_id m = keep) (memories d')
        = filter (\<lambda>m. of_agent tn ag m \<and> m \<notin> ?del) (filter (\<lambda>m. m_id m = m_id k) ?ms)"
      by (simp add: mem assms(4) conj_commute cong: conj_cong) (metis (no_types, lifting) filter_cong)
    then show ?thesis
      using filter_key_singleton [OF assms(1,2)] by (simp add: count_where_def)
  qed
  moreover have "count_where (\<lambda>m. of_agent tn ag m \<and> m_id m \<noteq> keep) (memories d') \<le> int cap"
    using nk by (simp add: count_where_def mem Q_def conj_commute)
  moreover have "int cap = max 0 (max_entries - 1)" by (simp add: cap_def)
  ultimately have "count_entries_for_agent tn ag d' \<le> max 1 max_entries"
    unfolding count_entries_for_agent_def split by linarith
  then show ?thesis using k assms(2) mem by simp
qed

end
