(* ===== verification/Transitions.thy ===== *)
theory Transitions
  imports Reaper Memory
begin

text \<open>
  The task transitions that the executor performs (\<open>executor/graph.py\<close>): recording the
  cost of a step, completing a task (with its memory row), requeueing after a retryable
  error, dead-lettering, pausing for a budget and pausing for a human.  Each is one
  transaction; an exception rolls it back, so a failed operation returns \<open>Inl\<close> of its
  error and the caller keeps the old state (\<open>commit\<close>).  The worker's wall clock is a
  parameter of its own (\<open>wall\<close>), since it is not the database's \<open>NOW()\<close>.
\<close>

datatype txn_error = LeaseRevoked | DbFailure db_error

type_synonym 'a txn = "txn_error + 'a"

definition commit :: "db \<Rightarrow> db txn \<Rightarrow> db" where
  "commit d r = (case r of Inl e \<Rightarrow> d | Inr d' \<Rightarrow> d')"

fun bind_txn :: "'a txn \<Rightarrow> ('a \<Rightarrow> 'b txn) \<Rightarrow> 'b txn" where
  "bind_txn (Inl e) f = Inl e"
| "bind_txn (Inr x) f = f x"

definition lift_db :: "'a result \<Rightarrow> 'a txn" where
  "lift_db r = (case r of Inl e \<Rightarrow> Inl (DbFailure e) | Inr x \<Rightarrow> Inr x)"

text \<open>The two WHERE clauses of the lease-validated updates.\<close>

definition owns_running :: "string \<Rightarrow> string \<Rightarrow> task \<Rightarrow> bool" where
  "owns_running tid w t \<longleftrightarrow> task_id t = tid \<and> status t = Running \<and> lease_owner t = Some w"

definition owns_lease :: "string \<Rightarrow> string \<Rightarrow> task \<Rightarrow> bool" where
  "owns_lease tid w t \<longleftrightarrow> task_id t = tid \<and> lease_owner t = Some w"

definition any_task :: "(task \<Rightarrow> bool) \<Rightarrow> db \<Rightarrow> bool" where
  "any_task P d \<longleftrightarrow> (\<exists>t \<in> set (tasks d). P t)"

definition update_tasks :: "(task \<Rightarrow> bool) \<Rightarrow> (task \<Rightarrow> task) \<Rightarrow> db \<Rightarrow> db" where
  "update_tasks P f d = d\<lparr>tasks := update_where P f (tasks d)\<rparr>"

section \<open>Recording the cost of a step\<close>

definition stored_window_cost :: "db \<Rightarrow> string \<Rightarrow> string \<Rightarrow> int" where
  "stored_window_cost d tn ag =
     (case find_runtime d tn ag of None \<Rightarrow> 0 | Some r \<Rightarrow> hour_window_cost r)"

definition record_step_cost ::
  "time \<Rightarrow> string \<Rightarrow> string \<Rightarrow> string \<Rightarrow> string \<Rightarrow> string \<Rightarrow> int \<Rightarrow> json option \<Rightarrow> db
   \<Rightarrow> (db \<times> int \<times> int) txn" where
  "record_step_cost now w tid tn ag ck cost md d =
     (if \<not> lease_ok tid tn w d then Inl LeaseRevoked
      else bind_txn (lift_db (insert_cost_row (cost_row now tn ag tid ck cost)
             (set_cost_and_metadata ck tid cost md d)))
        (\<lambda>d1. let d2 = increment_hour_window_cost now tn ag cost d1
              in Inr (d2, sum_task_cost d2 tid, stored_window_cost d2 tn ag)))"

definition record_supervisor_step_cost ::
  "time \<Rightarrow> string \<Rightarrow> string \<Rightarrow> string \<Rightarrow> string \<Rightarrow> string \<Rightarrow> int \<Rightarrow> json option \<Rightarrow> db
   \<Rightarrow> (db \<times> int \<times> int) txn" where
  "record_supervisor_step_cost now w tid tn ag ck cost md d =
     (if \<not> lease_ok tid tn w d then Inl LeaseRevoked
      else bind_txn (lift_db (insert_cost_row (cost_row now tn ag tid ck cost)
             (add_cost_and_preserve_metadata ck tid cost md d)))
        (\<lambda>d1. let d2 = increment_hour_window_cost now tn ag cost d1
              in Inr (d2, sum_task_cost d2 tid, stored_window_cost d2 tn ag)))"

section \<open>The memory row of a finished task\<close>

record pending_memory =
  pm_title :: pystr
  pm_summary :: pystr
  pm_observations :: "pystr list"
  pm_rationales :: "pystr list"
  pm_outcome :: string
  pm_tags :: "pystr list"
  pm_vec :: "string option"
  pm_model :: "string option"
  pm_tokens_in :: int
  pm_tokens_out :: int
  pm_cost :: int
  pm_embedding_cost :: int

definition memory_entry :: "string \<Rightarrow> string \<Rightarrow> string \<Rightarrow> pending_memory \<Rightarrow> memory_row" where
  "memory_entry tid tn ag pm =
     \<lparr>m_id = [], m_tenant = tn, m_agent = ag, m_task = tid, m_title = pm_title pm,
      m_summary = pm_summary pm, m_observations = pm_observations pm,
      m_rationales = Some (pm_rationales pm), m_outcome = pm_outcome pm, m_tags = pm_tags pm,
      m_vec = pm_vec pm, m_model = pm_model pm, m_version = 1, m_created_at = 0, m_updated_at = 0\<rparr>"

definition json_opt :: "string option \<Rightarrow> json" where
  "json_opt s = (case s of None \<Rightarrow> JNull | Some x \<Rightarrow> JStr (lit x))"

definition write_memory ::
  "time \<Rightarrow> string \<Rightarrow> string \<Rightarrow> string \<Rightarrow> string \<Rightarrow> string \<Rightarrow> int \<Rightarrow> pending_memory \<Rightarrow> db \<Rightarrow> db" where
  "write_memory now mid w tid tn ag max_entries pm d =
     (let (d1, m, inserted) = upsert_memory_entry now mid (memory_entry tid tn ag pm) d;
          d2 = insert_task_event now tid tn ag ''memory_written'' None None (Some w) None None
                 (JObj [(''agent_id'', JStr (lit ag)), (''memory_id'', JStr (lit m)),
                        (''title'', JStr (pm_title pm)), (''outcome'', JStr (lit (pm_outcome pm))),
                        (''summarizer_model_id'', json_opt (pm_model pm)),
                        (''observations_count'', JNum (int (length (pm_observations pm)))),
                        (''commit_rationales_count'', JNum (int (length (pm_rationales pm)))),
                        (''inserted'', JBool inserted)]) d1
      in if inserted \<and> count_entries_for_agent tn ag d2 > max_entries
         then fst (trim_oldest tn ag max_entries m d2) else d2)"

text \<open>The ledger rows and the checkpoint cost of the memory write of a completed task.\<close>

definition charge_memory ::
  "time \<Rightarrow> string \<Rightarrow> string \<Rightarrow> string \<Rightarrow> pending_memory \<Rightarrow> db \<Rightarrow> db result" where
  "charge_memory now tid tn ag pm d =
     (case fetch_latest_terminal_checkpoint_id d tid of
        None \<Rightarrow> Inr d
      | Some ck \<Rightarrow>
          if ck = [] then Inr d
          else let with_summary =
                 (if pm_cost pm > 0
                  then map_sum id (increment_hour_window_cost now tn ag (pm_cost pm))
                         (insert_cost_row (cost_row now tn ag tid ck (pm_cost pm)) d)
                  else Inr d);
                 with_embedding =
                 (case with_summary of
                    Inl e \<Rightarrow> Inl e
                  | Inr d1 \<Rightarrow>
                      if pm_vec pm \<noteq> None
                      then insert_cost_row (cost_row now tn ag tid ck (pm_embedding_cost pm)) d1
                      else Inr d1)
               in map_sum id
                    (add_cost_and_preserve_metadata ck tid (pm_cost pm + pm_embedding_cost pm)
                      (Some (JObj [(''model'', json_opt (pm_model pm)),
                                   (''input_tokens'', JNum (pm_tokens_in pm)),
                                   (''output_tokens'', JNum (pm_tokens_out pm))])))
                    with_embedding)"

section \<open>Completion\<close>

definition complete_row :: "json \<Rightarrow> task \<Rightarrow> task" where
  "complete_row out t =
     t\<lparr>status := Completed, task_output := out, last_error_code := None,
       last_error_message := None, human_response := None, version := version t + 1,
       lease_owner := None, lease_expiry := None\<rparr>"

definition commit_memory_and_complete_task ::
  "time \<Rightarrow> string \<Rightarrow> string \<Rightarrow> string \<Rightarrow> string \<Rightarrow> string \<Rightarrow> json \<Rightarrow> pending_memory option \<Rightarrow> json
   \<Rightarrow> db \<Rightarrow> db txn" where
  "commit_memory_and_complete_task now mid w tid tn ag agent_config pending out d =
     (if \<not> any_task (owns_running tid w) d then Inl LeaseRevoked
      else let d1 = update_tasks (owns_running tid w) (complete_row out) d in
        bind_txn
          (case pending of
             None \<Rightarrow> Inr d1
           | Some pm \<Rightarrow>
               lift_db (charge_memory now tid tn ag pm
                 (write_memory now mid w tid tn ag (max_entries_for_agent agent_config) pm d1)))
          (\<lambda>d2. Inr (insert_task_event now tid tn ag ''task_completed'' (Some Running) (Some Completed)
                   (Some w) None None (JObj []) (decrement_running_count now tn ag d2))))"

section \<open>Dead letter\<close>

definition dead_letter_row :: "time \<Rightarrow> string \<Rightarrow> string \<Rightarrow> pystr \<Rightarrow> string \<Rightarrow> task \<Rightarrow> task" where
  "dead_letter_row now w reason msg code t =
     t\<lparr>status := DeadLetter, dead_letter_reason := Some reason, last_error_message := Some msg,
       last_error_code := Some code, last_worker_id := Some w, dead_lettered_at := Some now,
       human_response := None, version := version t + 1, lease_owner := None,
       lease_expiry := None\<rparr>"

text \<open>When the dead-letter path writes a memory row (the pre-work of \<open>_handle_dead_letter\<close>).\<close>

definition dead_letter_writes_memory ::
  "bool \<Rightarrow> string \<Rightarrow> bool \<Rightarrow> pystr list \<Rightarrow> string \<Rightarrow> bool \<Rightarrow> bool" where
  "dead_letter_writes_memory memory_enabled reason has_checkpointer observations mode opt_in \<longleftrightarrow>
     memory_enabled \<and> reason \<noteq> ''cancelled_by_user'' \<and> has_checkpointer
     \<and> observations \<noteq> [] \<and> (mode \<noteq> ''agent_decides'' \<or> opt_in)"

definition charge_dead_letter_memory ::
  "time \<Rightarrow> string \<Rightarrow> string \<Rightarrow> string \<Rightarrow> pending_memory \<Rightarrow> db \<Rightarrow> db result" where
  "charge_dead_letter_memory now tid tn ag pm d =
     (if pm_vec pm = None then Inr d
      else case fetch_latest_terminal_checkpoint_id d tid of
        None \<Rightarrow> Inr d
      | Some ck \<Rightarrow> if ck = [] then Inr d
                   else insert_cost_row (cost_row now tn ag tid ck (pm_embedding_cost pm)) d)"

definition handle_dead_letter ::
  "time \<Rightarrow> string \<Rightarrow> string \<Rightarrow> string \<Rightarrow> string \<Rightarrow> string \<Rightarrow> json \<Rightarrow> pending_memory option \<Rightarrow> string \<Rightarrow> pystr
   \<Rightarrow> string option \<Rightarrow> db \<Rightarrow> db txn" where
  "handle_dead_letter now mid w tid tn ag agent_config pending reason error_msg error_code d =
     (let msg = take 1024 error_msg;
          code = (case error_code of None \<Rightarrow> reason | Some c \<Rightarrow> if c = [] then reason else c) in
      bind_txn
        (case pending of
           None \<Rightarrow> Inr d
         | Some pm \<Rightarrow>
             lift_db (charge_dead_letter_memory now tid tn ag pm
               (write_memory now mid w tid tn ag (max_entries_for_agent agent_config) pm d)))
        (\<lambda>d1. if \<not> any_task (owns_running tid w) d1 then Inl LeaseRevoked
              else Inr (insert_task_event now tid tn ag ''task_dead_lettered'' (Some Running)
                     (Some DeadLetter) (Some w) (Some code) (Some msg)
                     (JObj [(''dead_letter_reason'', JStr (lit reason))])
                     (decrement_running_count now tn ag
                       (update_tasks (owns_running tid w) (dead_letter_row now w reason msg code) d1)))))"

section \<open>Retry\<close>

definition retry_row :: "time \<Rightarrow> int \<Rightarrow> time \<Rightarrow> pystr \<Rightarrow> task \<Rightarrow> task" where
  "retry_row now n after msg t =
     t\<lparr>status := Queued, retry_count := n, retry_after := Some after,
       retry_history := retry_history t @ [now], last_error_code := Some ''retryable_error'',
       last_error_message := Some msg, version := version t + 1, lease_owner := None,
       lease_expiry := None\<rparr>"

definition retry_backoff :: "int \<Rightarrow> int" where
  "retry_backoff n = min 300 (2 ^ nat n)"

definition handle_retryable_error ::
  "time \<Rightarrow> time \<Rightarrow> string \<Rightarrow> config \<Rightarrow> task \<Rightarrow> json \<Rightarrow> pending_memory option \<Rightarrow> pystr \<Rightarrow> db \<Rightarrow> db txn" where
  "handle_retryable_error now wall mid c t agent_config pending err d =
     (if retry_count t \<ge> max_retries t
      then handle_dead_letter now mid (worker_id c) (task_id t) (tenant_id t) (agent_id t)
             agent_config pending ''retries_exhausted'' (lit ''Max retries reached. Last error: '' @ err) None d
      else let n = retry_count t + 1; after = wall + seconds (retry_backoff n); msg = take 1024 err in
        if \<not> any_task (owns_running (task_id t) (worker_id c)) d then Inl LeaseRevoked
        else Inr (pg_notify (pool_id c)
               (insert_task_event now (task_id t) (tenant_id t) (agent_id t) ''task_retry_scheduled''
                 (Some Running) (Some Queued) (Some (worker_id c)) (Some ''retryable_error'') (Some msg)
                 (JObj [(''retry_count'', JNum n), (''retry_after'', JTime after)])
                 (decrement_running_count now (tenant_id t) (agent_id t)
                   (update_tasks (owns_running (task_id t) (worker_id c)) (retry_row now n after msg) d)))))"

section \<open>Budget pause\<close>

definition pause_row :: "time \<Rightarrow> string \<Rightarrow> json \<Rightarrow> time option \<Rightarrow> task \<Rightarrow> task" where
  "pause_row now reason details resume t =
     t\<lparr>status := Paused, pause_reason := Some reason, pause_details := details,
       resume_eligible_at := resume, lease_owner := None, lease_expiry := None,
       human_response := None, version := version t + 1, updated_at := now\<rparr>"

definition execute_budget_pause ::
  "time \<Rightarrow> string \<Rightarrow> string \<Rightarrow> string \<Rightarrow> string \<Rightarrow> string \<Rightarrow> (string \<times> json) list \<Rightarrow> time option \<Rightarrow> db \<Rightarrow> db" where
  "execute_budget_pause now w tid tn ag reason details resume d =
     (if \<not> any_task (owns_lease tid w) d then d
      else insert_task_event now tid tn ag ''task_paused'' (Some Running) (Some Paused) (Some w) None None
             (JObj ((''pause_reason'', JStr (lit reason)) # details @
               (case resume of None \<Rightarrow> [] | Some x \<Rightarrow> [(''resume_eligible_at'', JTime x)])))
             (decrement_running_count now tn ag
               (update_tasks (owns_lease tid w) (pause_row now reason (JObj details) resume) d)))"

definition check_budget_and_pause ::
  "time \<Rightarrow> string \<Rightarrow> string \<Rightarrow> string \<Rightarrow> string \<Rightarrow> int \<Rightarrow> db \<Rightarrow> db \<times> bool" where
  "check_budget_and_pause now w tid tn ag task_cost d =
     (case find_agent d tn ag of
        None \<Rightarrow> (d, False)
      | Some a \<Rightarrow>
          let per_task = task_cost > budget_max_per_task a;
              hour_cost = sum_hourly_cost_for_agent now d tn ag;
              hourly = hour_cost > budget_max_per_hour a in
          if \<not> per_task \<and> \<not> hourly then (d, False)
          else if per_task
          then (execute_budget_pause now w tid tn ag ''budget_per_task''
                 [(''budget_max_per_task'', JNum (budget_max_per_task a)),
                  (''observed_task_cost_microdollars'', JNum task_cost),
                  (''recovery_mode'', JStr (lit ''manual_resume_after_budget_increase''))] None d, True)
          else (execute_budget_pause now w tid tn ag ''budget_per_hour''
                 [(''budget_max_per_hour'', JNum (budget_max_per_hour a)),
                  (''observed_hour_cost_microdollars'', JNum hour_cost),
                  (''recovery_mode'', JStr (lit ''automatic_after_window_clears''))]
                 (map_option (\<lambda>x. x + seconds 3600) (min_created_at_in_hour_window now d tn ag)) d, True))"

section \<open>Human-in-the-loop interrupts\<close>

definition json_str_or :: "pystr \<Rightarrow> json option \<Rightarrow> json" where
  "json_str_or dflt j = (case j of None \<Rightarrow> JStr dflt | Some x \<Rightarrow> x)"

definition interrupt_prompt :: "json \<Rightarrow> pystr" where
  "interrupt_prompt data = (case json_get ''prompt'' data of
      Some (JStr p) \<Rightarrow> p | _ \<Rightarrow> lit ''Agent is requesting input'')"

definition interrupt_action :: "json \<Rightarrow> json" where
  "interrupt_action data = (case json_get ''action'' data of None \<Rightarrow> JObj [] | Some a \<Rightarrow> a)"

definition interrupt_tool :: "json \<Rightarrow> json" where
  "interrupt_tool data =
     (case json_get ''tool_name'' data of
        Some n \<Rightarrow> if json_truthy n then n
          else (case json_get ''tool_name'' (interrupt_action data) of None \<Rightarrow> JNull | Some m \<Rightarrow> m)
      | None \<Rightarrow> (case json_get ''tool_name'' (interrupt_action data) of None \<Rightarrow> JNull | Some m \<Rightarrow> m))"

definition interrupt_is_approval :: "json \<Rightarrow> bool" where
  "interrupt_is_approval data \<longleftrightarrow> json_get ''type'' data = Some (JStr (lit ''approval''))"

definition interrupt_is_input :: "json \<Rightarrow> bool" where
  "interrupt_is_input data \<longleftrightarrow>
     json_get ''type'' data = None \<or> json_get ''type'' data = Some (JStr (lit ''input''))"

definition interrupt_row :: "time \<Rightarrow> time \<Rightarrow> json \<Rightarrow> task \<Rightarrow> task" where
  "interrupt_row now wall data t =
     (let t' = (if interrupt_is_approval data
                then t\<lparr>status := WaitingForApproval, pending_approval_action := interrupt_action data\<rparr>
                else t\<lparr>status := WaitingForInput, pending_input_prompt := Some (interrupt_prompt data)\<rparr>)
      in t'\<lparr>human_input_timeout_at := Some (wall + seconds 86400), lease_owner := None,
            lease_expiry := None, version := version t + 1, updated_at := now\<rparr>)"

definition interrupt_details :: "json option \<Rightarrow> json \<Rightarrow> json" where
  "interrupt_details original data =
     (let prompt = (case original of Some p \<Rightarrow> p | None \<Rightarrow> json_str_or [] (json_get ''prompt'' data)) in
      if interrupt_is_input data
      then JObj [(''prompt'', prompt), (''prompt_to_user'', prompt),
                 (''reason'', json_str_or (lit ''agent_requested'') (json_get ''reason'' data)),
                 (''tool_name'', interrupt_tool data)]
      else JObj [(''action'', interrupt_action data), (''prompt_to_user'', prompt),
                 (''reason'', JStr (lit ''tool_requires_approval'')),
                 (''tool_name'', interrupt_tool data)])"

definition handle_interrupt_internal ::
  "time \<Rightarrow> time \<Rightarrow> string \<Rightarrow> string \<Rightarrow> string \<Rightarrow> string \<Rightarrow> json option \<Rightarrow> json \<Rightarrow> db \<Rightarrow> db" where
  "handle_interrupt_internal now wall w tid tn ag original data d =
     (if \<not> any_task (owns_lease tid w) d then d
      else insert_task_event now tid tn ag
             (if interrupt_is_approval data then ''task_approval_requested'' else ''task_input_requested'')
             (Some Running) (Some (if interrupt_is_approval data then WaitingForApproval else WaitingForInput))
             (Some w) None None (interrupt_details original data)
             (decrement_running_count now tn ag
               (update_tasks (owns_lease tid w) (interrupt_row now wall data) d)))"

section \<open>The memory write\<close>

definition writes_pending :: "string \<Rightarrow> pending_memory \<Rightarrow> memory_row \<Rightarrow> bool" where
  "writes_pending tid pm m \<longleftrightarrow> m_task m = tid \<and> m_title m = pm_title pm \<and> m_summary m = pm_summary pm
     \<and> m_observations m = pm_observations pm \<and> m_rationales m = Some (pm_rationales pm)
     \<and> m_outcome m = pm_outcome pm \<and> m_vec m = pm_vec pm"

lemma count_entries_upsert_old:
  "(\<And>m. of_agent tn ag (f m) = of_agent tn ag m) \<Longrightarrow>
   count_where (of_agent tn ag) (update_where P f ms) = count_where (of_agent tn ag) ms"
  by (induction ms) (auto simp: update_where_def)

lemma insert_task_event_memories [simp]: "memories (insert_task_event now tid tn ag e sb sa w ec em det d) = memories d"
  by (simp add: insert_task_event_def)

lemma write_memory_memories:
  "memories (write_memory now mid w tid tn ag cap pm d) =
   (let (d1, m, ins) = upsert_memory_entry now mid (memory_entry tid tn ag pm) d in
    if ins \<and> count_entries_for_agent tn ag d1 > cap then memories (fst (trim_oldest tn ag cap m d1))
    else memories d1)"
  by (simp add: write_memory_def split_beta Let_def count_entries_for_agent_def trim_oldest_def excess_ids_def)

text \<open>
  The memory written when a task finishes is stored for its task with the given
  content, never pushes the agent past its cap (a fresh row brings it down to the cap even
  when it was above), and the FIFO trim never evicts the fresh row.
\<close>

theorem memory_write_respects_cap:
  assumes "distinct (map m_id (memories d))" "mid \<notin> m_id ` set (memories d)" "1 \<le> cap"
    and "\<forall>m \<in> set (memories d). m_task m = tid \<longrightarrow> of_agent tn ag m"
    and "d' = write_memory now mid w tid tn ag cap pm d"
  shows "(\<exists>m \<in> set (memories d'). writes_pending tid pm m \<and> of_agent tn ag m)
    \<and> count_entries_for_agent tn ag d' \<le> max cap (count_entries_for_agent tn ag d)
    \<and> ((\<forall>m \<in> set (memories d). m_task m \<noteq> tid) \<longrightarrow> count_entries_for_agent tn ag d' \<le> cap)"
proof (cases "find (\<lambda>m. m_task m = tid) (memories d)")
  case (Some old)
  let ?f = "\<lambda>m. m\<lparr>m_title := pm_title pm, m_summary := pm_summary pm,
                     m_observations := pm_observations pm, m_rationales := Some (pm_rationales pm),
                     m_outcome := pm_outcome pm, m_tags := pm_tags pm, m_vec := pm_vec pm,
                     m_model := pm_model pm, m_version := m_version m + 1, m_updated_at := now\<rparr>"
  have mem: "memories d' = update_where (\<lambda>m. m_task m = tid) ?f (memories d)"
    by (simp add: assms(5) write_memory_memories upsert_memory_entry_def memory_entry_def Some)
  have old: "old \<in> set (memories d)" "m_task old = tid" using find_Some_mem [OF Some] by auto
  have "?f old \<in> set (memories d')" using old by (auto simp: mem set_update_where)
  moreover have "writes_pending tid pm (?f old)" "of_agent tn ag (?f old)"
    using old assms(4) by (auto simp: writes_pending_def of_agent_def)
  ultimately have "\<exists>m \<in> set (memories d'). writes_pending tid pm m \<and> of_agent tn ag m" by blast
  moreover have "count_entries_for_agent tn ag d' = count_entries_for_agent tn ag d"
    unfolding count_entries_for_agent_def mem by (rule count_entries_upsert_old) (simp add: of_agent_def)
  ultimately show ?thesis using old by auto
next
  case None
  let ?m = "(memory_entry tid tn ag pm)\<lparr>m_id := mid, m_version := 1, m_created_at := now, m_updated_at := now\<rparr>"
  let ?d1 = "d\<lparr>memories := memories d @ [?m]\<rparr>"
  have up: "upsert_memory_entry now mid (memory_entry tid tn ag pm) d = (?d1, mid, True)"
    using None by (simp add: upsert_memory_entry_def memory_entry_def)
  have m: "writes_pending tid pm ?m" "of_agent tn ag ?m" "m_id ?m = mid"
    by (simp_all add: writes_pending_def memory_entry_def of_agent_def)
  have d1: "distinct (map m_id (memories ?d1))" "?m \<in> set (memories ?d1)" using assms(1,2) by simp_all
  obtain d2 k where t: "(d2, k) = trim_oldest tn ag cap mid ?d1" by (metis prod.collapse)
  note cap = trim_oldest_cap [OF d1 m(2,3) t]
  have "memories d' = (if cap < count_entries_for_agent tn ag ?d1 then memories d2 else memories ?d1)"
    using t by (simp add: assms(5) write_memory_memories up split_beta) (metis fst_conv)
  then have "count_entries_for_agent tn ag d' \<le> cap \<and> ?m \<in> set (memories d')"
    using cap d1(2) assms(3) by (auto simp: count_entries_for_agent_def)
  then show ?thesis using m by auto
qed

definition demo_pending :: pending_memory where
  "demo_pending = \<lparr>pm_title = lit ''t'', pm_summary = lit ''s'', pm_observations = [], pm_rationales = [],
     pm_outcome = ''succeeded'', pm_tags = [], pm_vec = None, pm_model = None, pm_tokens_in = 1,
     pm_tokens_out = 1, pm_cost = 1, pm_embedding_cost = 0\<rparr>"

theorem memory_write_respects_cap_witness:
  "count_entries_for_agent ''t'' ''a'' (write_memory 7 ''m2'' ''w'' ''x2'' ''t'' ''a'' 1 demo_pending
     (write_memory 5 ''m1'' ''w'' ''x1'' ''t'' ''a'' 1 demo_pending empty_db)) \<le> 1"
proof -
  let ?d = "write_memory 5 ''m1'' ''w'' ''x1'' ''t'' ''a'' 1 demo_pending empty_db"
  have "distinct (map m_id (memories ?d))" "''m2'' \<notin> m_id ` set (memories ?d)"
    "\<forall>m \<in> set (memories ?d). m_task m = ''x2'' \<longrightarrow> of_agent ''t'' ''a'' m"
    "\<forall>m \<in> set (memories ?d). m_task m \<noteq> ''x2''" by code_simp+
  with memory_write_respects_cap [OF this(1,2) _ this(3) refl, of 1] show ?thesis by simp
qed

end
