(* ===== verification/Leases.thy ===== *)
theory Leases
  imports Transitions
begin

text \<open>
  The contract that all executor transitions share, as the locale \<open>lease_release\<close>: without
  the lease the operation changes nothing; with it, it updates the leased row alone, gives
  the lease up and takes one off the agent's running counter.  The lemmas the scheduler
  relies on are proved once from the contract, and the code's five transitions are
  interpretations of it.  \<open>lease_race\<close> extends it to two operations of one holder.
\<close>

definition lease_wf_row :: "task \<Rightarrow> bool" where
  "lease_wf_row t \<longleftrightarrow> (status t = Running \<longleftrightarrow> lease_owner t \<noteq> None)
     \<and> (status t = Running \<longleftrightarrow> lease_expiry t \<noteq> None)"

definition lease_wf :: "db \<Rightarrow> bool" where
  "lease_wf d \<longleftrightarrow> list_all lease_wf_row (tasks d)"

lemma lease_wf_update:
  "lease_wf d \<Longrightarrow> (\<And>t. P t \<Longrightarrow> lease_wf_row t \<Longrightarrow> lease_wf_row (f t)) \<Longrightarrow>
   tasks d' = update_where P f (tasks d) \<Longrightarrow> lease_wf d'"
  by (auto simp: lease_wf_def list_all_iff set_update_where)

section \<open>The contract\<close>

locale lease_release =
  fixes op_db :: "db \<Rightarrow> db"
    and gate :: "task \<Rightarrow> bool"
    and upd :: "task \<Rightarrow> task"
    and tid w tn ag :: string
  assumes gate_owner: "gate t \<Longrightarrow> task_id t = tid \<and> lease_owner t = Some w"
    and gate_complete: "task_id t = tid \<Longrightarrow> status t = Running \<Longrightarrow> lease_owner t = Some w \<Longrightarrow> gate t"
    and upd_key: "task_id (upd t) = task_id t" "tenant_id (upd t) = tenant_id t" "agent_id (upd t) = agent_id t"
    and upd_release: "lease_owner (upd t) = None" "lease_expiry (upd t) = None" "status (upd t) \<noteq> Running"
    and no_lease: "\<not> any_task gate d \<Longrightarrow> op_db d = d"
    and with_lease: "any_task gate d \<Longrightarrow> tasks (op_db d) = update_where gate upd (tasks d)"
    and counter: "any_task gate d \<Longrightarrow> running_count (op_db d) tn' ag' =
      (if tn' = tn \<and> ag' = ag then max (running_count d tn ag - 1) 0 else running_count d tn' ag')"
    and keys: "keys_ok d \<Longrightarrow> keys_ok (op_db d)"
    and same_agents: "agents (op_db d) = agents d"
begin

lemma tasks_op: "tasks (op_db d) = update_where gate upd (tasks d)"
proof (cases "any_task gate d")
  case False
  then have "update_where gate upd (tasks d) = tasks d"
    by (intro update_where_no_match) (auto simp: any_task_def)
  then show ?thesis using no_lease [OF False] by simp
qed (rule with_lease)

lemma keeps_lease_wf: "lease_wf d \<Longrightarrow> lease_wf (op_db d)"
  by (rule lease_wf_update [OF _ _ tasks_op]) (auto simp: lease_wf_row_def upd_release)

lemma other_task_untouched:
  "t \<in> set (tasks d) \<Longrightarrow> task_id t \<noteq> tid \<Longrightarrow> t \<in> set (tasks (op_db d))"
  using gate_owner by (auto simp: tasks_op intro: update_where_keeps)

lemma lease_is_gone:
  assumes "lease_wf d"
  shows "\<not> any_task (owns_lease tid w) (op_db d)"
proof
  assume "any_task (owns_lease tid w) (op_db d)"
  then obtain t where t: "t \<in> set (tasks d)" "owns_lease tid w (if gate t then upd t else t)"
    by (auto simp: any_task_def tasks_op set_update_where)
  then have "\<not> gate t" "owns_lease tid w t" by (auto simp: owns_lease_def upd_release split: if_splits)
  then show False
    using t(1) assms gate_complete by (auto simp: owns_lease_def lease_wf_def lease_wf_row_def list_all_iff)
qed

lemma keeps_counter_exact:
  assumes "keys_ok d" "lease_wf d" "counter_exact d tn' ag'"
    and "\<And>t. t \<in> set (tasks d) \<Longrightarrow> gate t \<Longrightarrow> tenant_id t = tn \<and> agent_id t = ag"
  shows "counter_exact (op_db d) tn' ag'"
proof (cases "any_task gate d")
  case True
  then obtain t where t: "t \<in> set (tasks d)" "gate t" by (auto simp: any_task_def)
  have run: "status t = Running"
    using t assms(2) gate_owner [OF t(2)] by (auto simp: lease_wf_def lease_wf_row_def list_all_iff)
  have own: "tenant_id t = tn" "agent_id t = ag" "task_id t = tid" using assms(4) t gate_owner by auto
  let ?Q = "\<lambda>u. tenant_id u = tn' \<and> agent_id u = ag' \<and> status u = Running"
  have "count_where ?Q (update_where gate upd (tasks d))
      = count_where ?Q (tasks d) - (if ?Q t then 1 else 0) + (if ?Q (upd t) then 1 else 0)"
    using assms(1) t gate_owner own(3)
    by (intro count_where_update_key [where key = task_id and R = gate]) (auto simp: keys_ok_def)
  then have ro: "running_of (op_db d) tn' ag' = running_of d tn' ag' - (if tn' = tn \<and> ag' = ag then 1 else 0)"
    using run own upd_release(3) [of t] by (auto simp: running_of_def tasks_op)
  then show ?thesis
    using counter [OF True, of tn' ag'] assms(3) running_of_nonneg [of "op_db d" tn' ag']
    by (auto simp: counter_exact_def)
next
  case False
  then show ?thesis using no_lease assms(3) by simp
qed

end

text \<open>Two operations that one holder may attempt on one task.\<close>

locale lease_race =
  first: lease_release op1 gate1 upd1 tid w tn1 ag1 + second: lease_release op2 gate2 upd2 tid w tn2 ag2
  for op1 gate1 upd1 tid w tn1 ag1 op2 gate2 upd2 tn2 ag2
begin

lemma first_writer_wins: "lease_wf d \<Longrightarrow> op2 (op1 d) = op1 d"
  using first.lease_is_gone [of d] second.gate_owner
  by (intro second.no_lease) (auto simp: any_task_def owns_lease_def)

end

section \<open>The executor's transitions satisfy it\<close>

lemma running_count_frame [simp]:
  "running_count (insert_task_event now tid tn ag ty b a wk ec em dt d) = running_count d"
  "running_count (pg_notify p d) = running_count d"
  "running_count (update_tasks P f d) = running_count d"
  "running_count (add_cost_and_preserve_metadata ck tid c md d) = running_count d"
  by (intro ext running_count_cong; simp add: update_tasks_def)+

lemma update_tasks_frame [simp]:
  "tasks (update_tasks P f d) = update_where P f (tasks d)"
  "agents (update_tasks P f d) = agents d" "runtime (update_tasks P f d) = runtime d"
  "ledger (update_tasks P f d) = ledger d" "memories (update_tasks P f d) = memories d"
  "checkpoints (update_tasks P f d) = checkpoints d"
  by (simp_all add: update_tasks_def)

lemma keys_ok_update_tasks:
  "keys_ok d \<Longrightarrow> (\<And>t. task_id (f t) = task_id t) \<Longrightarrow> keys_ok (update_tasks P f d)"
  by (simp add: keys_ok_def map_key_update_where)

lemma keys_ok_pg_notify [simp]: "keys_ok (pg_notify p d) = keys_ok d"
  by (rule keys_ok_cong) simp_all

lemma write_memory_frame [simp]:
  "tasks (write_memory now mid w tid tn ag n pm d) = tasks d"
  "agents (write_memory now mid w tid tn ag n pm d) = agents d"
  "runtime (write_memory now mid w tid tn ag n pm d) = runtime d"
  "ledger (write_memory now mid w tid tn ag n pm d) = ledger d"
proof -
  obtain d1 m i where e: "upsert_memory_entry now mid (memory_entry tid tn ag pm) d = (d1, m, i)"
    by (metis prod.collapse)
  have "tasks d1 = tasks d \<and> agents d1 = agents d \<and> runtime d1 = runtime d \<and> ledger d1 = ledger d"
    using upsert_memory_frame [of now mid "memory_entry tid tn ag pm" d] e by simp
  then show "tasks (write_memory now mid w tid tn ag n pm d) = tasks d"
    "agents (write_memory now mid w tid tn ag n pm d) = agents d"
    "runtime (write_memory now mid w tid tn ag n pm d) = runtime d"
    "ledger (write_memory now mid w tid tn ag n pm d) = ledger d"
    by (simp_all add: write_memory_def e Let_def)
qed

text \<open>The ledger rows of the transitions have the default operation, so no insert is refused.\<close>

lemma insert_cost_row_default:
  "insert_cost_row (cost_row now tn ag tid ck c) d
   = Inr (d\<lparr>ledger := ledger d @ [cost_row now tn ag tid ck c]\<rparr>)"
  by (simp add: insert_cost_row_def ledger_operations_def cost_row_def tier3_conflict_def)

lemma running_count_ledger [simp]: "running_count (d\<lparr>ledger := x\<rparr>) = running_count d"
  by (intro ext running_count_cong) simp

lemma running_count_increment_fun [simp]:
  "running_count (increment_hour_window_cost now tn ag c d) = running_count d"
  by (intro ext) simp

definition same_tasks :: "db \<Rightarrow> db \<Rightarrow> bool" where
  "same_tasks d d' \<longleftrightarrow> tasks d' = tasks d \<and> agents d' = agents d \<and> running_count d' = running_count d
     \<and> (keys_ok d \<longrightarrow> keys_ok d')"

lemma same_tasks_refl [simp]: "same_tasks d d"
  by (simp add: same_tasks_def)

lemma keys_ok_ledger [simp]: "keys_ok (d\<lparr>ledger := x\<rparr>) = keys_ok d"
  by (rule keys_ok_cong) simp_all

lemma keys_ok_checkpoint_cost [simp]: "keys_ok (add_cost_and_preserve_metadata ck tid c md d) = keys_ok d"
  by (rule keys_ok_cong) simp_all

lemma charge_memory_total: "\<exists>d'. charge_memory now tid tn ag pm d = Inr d' \<and> same_tasks d d'"
  by (auto simp: charge_memory_def insert_cost_row_default same_tasks_def Let_def split: option.splits)

lemma charge_dead_letter_memory_total:
  "\<exists>d'. charge_dead_letter_memory now tid tn ag pm d = Inr d' \<and> same_tasks d d'"
  by (auto simp: charge_dead_letter_memory_def insert_cost_row_default same_tasks_def split: option.splits)

lemma same_tasks_write_memory: "same_tasks d (write_memory now mid w tid tn ag n pm d)"
  by (auto simp: same_tasks_def keys_ok_def intro!: ext running_count_cong)

lemma same_tasks_trans: "same_tasks d e \<Longrightarrow> same_tasks e f \<Longrightarrow> same_tasks d f"
  by (simp add: same_tasks_def)

lemma any_task_cong: "tasks d' = tasks d \<Longrightarrow> any_task P d' = any_task P d"
  by (simp add: any_task_def)

lemma complete_cases:
  obtains "\<not> any_task (owns_running tid w) d"
      "commit_memory_and_complete_task now mid w tid tn ag cfg pending out d = Inl LeaseRevoked"
  | d2 where "any_task (owns_running tid w) d"
      "same_tasks (update_tasks (owns_running tid w) (complete_row out) d) d2"
      "commit_memory_and_complete_task now mid w tid tn ag cfg pending out d
       = Inr (insert_task_event now tid tn ag ''task_completed'' (Some Running) (Some Completed)
                   (Some w) None None (JObj []) (decrement_running_count now tn ag d2))"
proof (cases "any_task (owns_running tid w) d")
  case True
  let ?d1 = "update_tasks (owns_running tid w) (complete_row out) d"
  show thesis
  proof (cases pending)
    case None
    then show thesis using True by (intro that(2) [of ?d1]) (simp_all add: commit_memory_and_complete_task_def Let_def)
  next
    case (Some pm)
    let ?e = "write_memory now mid w tid tn ag (max_entries_for_agent cfg) pm ?d1"
    obtain d2 where d2: "charge_memory now tid tn ag pm ?e = Inr d2" "same_tasks ?e d2"
      using charge_memory_total by blast
    then show thesis
      using True Some same_tasks_trans [OF same_tasks_write_memory d2(2)]
      by (intro that(2) [of d2]) (simp_all add: commit_memory_and_complete_task_def Let_def lift_db_def)
  qed
qed (simp add: that commit_memory_and_complete_task_def)

lemma dead_letter_cases:
  obtains "\<not> any_task (owns_running tid w) d"
      "handle_dead_letter now mid w tid tn ag cfg pending reason msg code d = Inl LeaseRevoked"
  | d1 m c ev where "any_task (owns_running tid w) d" "same_tasks d d1"
      "handle_dead_letter now mid w tid tn ag cfg pending reason msg code d
       = Inr (insert_task_event now tid tn ag ''task_dead_lettered'' (Some Running)
                     (Some DeadLetter) (Some w) (Some c) (Some (take 1024 msg)) ev
                     (decrement_running_count now tn ag
                       (update_tasks (owns_running tid w)
                          (dead_letter_row now w reason (take 1024 msg) c) d1)))"
      "c = (case code of None \<Rightarrow> reason | Some c \<Rightarrow> if c = [] then reason else c)"
proof -
  obtain d1 where d1: "same_tasks d d1" "(case pending of
           None \<Rightarrow> Inr d
         | Some pm \<Rightarrow>
             lift_db (charge_dead_letter_memory now tid tn ag pm
               (write_memory now mid w tid tn ag (max_entries_for_agent cfg) pm d))) = (Inr d1 :: db txn)"
  proof (cases pending)
    case (Some pm)
    let ?e = "write_memory now mid w tid tn ag (max_entries_for_agent cfg) pm d"
    obtain d2 where "charge_dead_letter_memory now tid tn ag pm ?e = Inr d2" "same_tasks ?e d2"
      using charge_dead_letter_memory_total by blast
    then show ?thesis using Some same_tasks_trans [OF same_tasks_write_memory]
      by (intro that [of d2]) (auto simp: lift_db_def)
  qed (simp add: that)
  have any: "any_task (owns_running tid w) d1 = any_task (owns_running tid w) d"
    using d1(1) by (intro any_task_cong) (simp add: same_tasks_def)
  show thesis
  proof (cases "any_task (owns_running tid w) d")
    case True
    then show thesis using d1 any
      by (intro that(2) [OF True d1(1) _ refl]) (simp add: handle_dead_letter_def Let_def)
  next
    case False
    then show thesis using d1 any by (intro that(1)) (simp_all add: handle_dead_letter_def Let_def)
  qed
qed

lemmas release_rows = complete_row_def dead_letter_row_def retry_row_def pause_row_def interrupt_row_def

lemma owns_lease_running: "owns_running tid w t \<Longrightarrow> owns_lease tid w t"
  by (simp add: owns_running_def owns_lease_def)

interpretation complete: lease_release
  "\<lambda>d. commit d (commit_memory_and_complete_task now mid w tid tn ag cfg pending out d)"
  "owns_running tid w" "complete_row out" tid w tn ag
  for now mid w tid tn ag cfg pending out
proof (unfold_locales, goal_cases)
  case (9 d) then show ?case by (simp add: commit_memory_and_complete_task_def commit_def)
next
  case (10 d) then show ?case
    by (cases rule: complete_cases [of tid w d now mid tn ag cfg pending out])
       (simp_all add: commit_def same_tasks_def)
next
  case (11 d tn' ag') then show ?case
    by (cases rule: complete_cases [of tid w d now mid tn ag cfg pending out])
       (simp_all add: commit_def same_tasks_def running_count_decrement)
next
  case (12 d)
  moreover have "keys_ok (update_tasks (owns_running tid w) (complete_row out) d)"
    using 12 by (intro keys_ok_update_tasks) (simp_all add: complete_row_def)
  ultimately show ?case
    by (cases rule: complete_cases [of tid w d now mid tn ag cfg pending out])
       (simp_all add: commit_def same_tasks_def)
next
  case (13 d) then show ?case
    by (cases rule: complete_cases [of tid w d now mid tn ag cfg pending out])
       (simp_all add: commit_def same_tasks_def)
qed (simp_all add: owns_running_def complete_row_def)

interpretation dead_letter: lease_release
  "\<lambda>d. commit d (handle_dead_letter now mid w tid tn ag cfg pending reason msg code d)"
  "owns_running tid w"
  "dead_letter_row now w reason (take 1024 msg)
     (case code of None \<Rightarrow> reason | Some c \<Rightarrow> if c = [] then reason else c)" tid w tn ag
  for now mid w tid tn ag cfg pending reason msg code
proof (unfold_locales, goal_cases)
  case (9 d) then show ?case
    by (cases rule: dead_letter_cases [of tid w d now mid tn ag cfg pending reason msg code])
       (simp_all add: commit_def)
next
  case (10 d) then show ?case
    by (cases rule: dead_letter_cases [of tid w d now mid tn ag cfg pending reason msg code])
       (simp_all add: commit_def same_tasks_def)
next
  case (11 d tn' ag') then show ?case
    by (cases rule: dead_letter_cases [of tid w d now mid tn ag cfg pending reason msg code])
       (simp_all add: commit_def same_tasks_def running_count_decrement)
next
  case (12 d) then show ?case
    by (cases rule: dead_letter_cases [of tid w d now mid tn ag cfg pending reason msg code])
       (simp_all add: commit_def same_tasks_def keys_ok_update_tasks dead_letter_row_def)
next
  case (13 d) then show ?case
    by (cases rule: dead_letter_cases [of tid w d now mid tn ag cfg pending reason msg code])
       (simp_all add: commit_def same_tasks_def)
qed (simp_all add: owns_running_def dead_letter_row_def)

interpretation pause: lease_release
  "execute_budget_pause now w tid tn ag reason details resume"
  "owns_lease tid w" "pause_row now reason (JObj details) resume" tid w tn ag
  for now w tid tn ag reason details resume
proof (unfold_locales, goal_cases)
  case (11 d tn' ag') then show ?case by (simp add: execute_budget_pause_def running_count_decrement)
next
  case (12 d) then show ?case
    by (simp add: execute_budget_pause_def keys_ok_update_tasks pause_row_def)
qed (simp_all add: owns_lease_def execute_budget_pause_def pause_row_def)

interpretation interrupt: lease_release
  "handle_interrupt_internal now wall w tid tn ag original data"
  "owns_lease tid w" "interrupt_row now wall data" tid w tn ag
  for now wall w tid tn ag original data
proof (unfold_locales, goal_cases)
  case (11 d tn' ag') then show ?case by (simp add: handle_interrupt_internal_def running_count_decrement)
next
  case (12 d) then show ?case
    by (simp add: handle_interrupt_internal_def keys_ok_update_tasks interrupt_row_def Let_def)
qed (simp_all add: owns_lease_def handle_interrupt_internal_def interrupt_row_def Let_def)

text \<open>A retry is a requeue while retries are left, and the dead letter otherwise.\<close>

definition retry_upd :: "time \<Rightarrow> time \<Rightarrow> config \<Rightarrow> task \<Rightarrow> pystr \<Rightarrow> task \<Rightarrow> task" where
  "retry_upd now wall c t err =
     (if retry_count t \<ge> max_retries t
      then dead_letter_row now (worker_id c) ''retries_exhausted''
             (take 1024 (lit ''Max retries reached. Last error: '' @ err)) ''retries_exhausted''
      else retry_row now (retry_count t + 1) (wall + seconds (retry_backoff (retry_count t + 1)))
             (take 1024 err))"

lemma handle_retryable_exhausted:
  "retry_count t \<ge> max_retries t \<Longrightarrow>
   handle_retryable_error now wall mid c t cfg pending err =
   handle_dead_letter now mid (worker_id c) (task_id t) (tenant_id t) (agent_id t)
     cfg pending ''retries_exhausted'' (lit ''Max retries reached. Last error: '' @ err) None"
  by (intro ext) (simp add: handle_retryable_error_def)

interpretation retry: lease_release
  "\<lambda>d. commit d (handle_retryable_error now wall mid c t cfg pending err d)"
  "owns_running (task_id t) (worker_id c)" "retry_upd now wall c t err"
  "task_id t" "worker_id c" "tenant_id t" "agent_id t"
  for now wall mid c t cfg pending err
proof (cases "retry_count t \<ge> max_retries t")
  case True
  have "retry_upd now wall c t err = dead_letter_row now (worker_id c) ''retries_exhausted''
      (take 1024 (lit ''Max retries reached. Last error: '' @ err))
      (case None of None \<Rightarrow> ''retries_exhausted'' | Some c \<Rightarrow> if c = [] then ''retries_exhausted'' else c)"
    using True by (simp add: retry_upd_def)
  then show "lease_release (\<lambda>d. commit d (handle_retryable_error now wall mid c t cfg pending err d))
     (owns_running (task_id t) (worker_id c)) (retry_upd now wall c t err)
     (task_id t) (worker_id c) (tenant_id t) (agent_id t)"
    unfolding handle_retryable_exhausted [OF True] by (simp only:) (rule dead_letter.lease_release_axioms)
next
  case False
  then have u: "retry_upd now wall c t err = retry_row now (retry_count t + 1)
      (wall + seconds (retry_backoff (retry_count t + 1))) (take 1024 err)"
    by (simp add: retry_upd_def)
  show "lease_release (\<lambda>d. commit d (handle_retryable_error now wall mid c t cfg pending err d))
     (owns_running (task_id t) (worker_id c)) (retry_upd now wall c t err)
     (task_id t) (worker_id c) (tenant_id t) (agent_id t)"
    unfolding u
  proof (unfold_locales, goal_cases)
    case (11 d tn' ag') then show ?case
      using False by (simp add: handle_retryable_error_def commit_def Let_def running_count_decrement)
  next
    case (12 d) then show ?case
      using False by (auto simp: handle_retryable_error_def commit_def Let_def keys_ok_update_tasks retry_row_def)
  qed (use False in \<open>simp_all add: owns_running_def handle_retryable_error_def commit_def Let_def retry_row_def\<close>)
qed

text \<open>The pairs an execution can race on: the end of the run against the pause of its budget check.\<close>

interpretation pause_then_complete: lease_race
  "execute_budget_pause n1 w tid tn1 ag1 reason details resume" "owns_lease tid w"
  "pause_row n1 reason (JObj details) resume" tid w tn1 ag1
  "\<lambda>d. commit d (commit_memory_and_complete_task n2 mid w tid tn2 ag2 cfg pending out d)"
  "owns_running tid w" "complete_row out" tn2 ag2
  for n1 w tid tn1 ag1 reason details resume n2 mid tn2 ag2 cfg pending out
  by unfold_locales

interpretation complete_then_dead_letter: lease_race
  "\<lambda>d. commit d (commit_memory_and_complete_task n1 mid w tid tn1 ag1 cfg pending out d)"
  "owns_running tid w" "complete_row out" tid w tn1 ag1
  "\<lambda>d. commit d (handle_dead_letter n2 mid2 w tid tn2 ag2 cfg2 pending2 reason msg code d)"
  "owns_running tid w"
  "dead_letter_row n2 w reason (take 1024 msg)
     (case code of None \<Rightarrow> reason | Some c \<Rightarrow> if c = [] then reason else c)" tn2 ag2
  for n1 mid w tid tn1 ag1 cfg pending out n2 mid2 tn2 ag2 cfg2 pending2 reason msg code
  by unfold_locales

end
