(* ===== verification/Lifecycle.thy ===== *)
theory Lifecycle
  imports Leases
begin

text \<open>
  The whole task life cycle as a step relation on the database: every transaction of a
  worker (claim, heartbeat, step cost, the five executor transitions, the reaper's scans)
  and the task mutations of the API service, in any order.  Row invariants are proved for
  every reachable state, and the worker's steps are shown to refine an abstract state
  machine on task statuses.
\<close>

section \<open>The API service's task mutations\<close>

definition api_update :: "string \<Rightarrow> string \<Rightarrow> task_status list \<Rightarrow> (task \<Rightarrow> task) \<Rightarrow> db \<Rightarrow> db" where
  "api_update tid tn from f =
     update_tasks (\<lambda>t. task_id t = tid \<and> tenant_id t = tn \<and> status t \<in> set from) f"

definition cancel_row :: "time \<Rightarrow> task \<Rightarrow> task" where
  "cancel_row now t =
     t\<lparr>status := DeadLetter, last_worker_id := lease_owner t, lease_owner := None,
       lease_expiry := None, last_error_code := Some ''cancelled_by_user'',
       last_error_message := Some (lit ''task cancelled by user request''),
       dead_letter_reason := Some ''cancelled_by_user'', dead_lettered_at := Some now,
       pending_input_prompt := None, pending_approval_action := JNull,
       human_input_timeout_at := None, human_response := None,
       version := version t + 1, updated_at := now\<rparr>"

definition cancel_task :: "time \<Rightarrow> string \<Rightarrow> string \<Rightarrow> db \<Rightarrow> db" where
  "cancel_task now tid tn =
     api_update tid tn [Queued, Running, WaitingForApproval, WaitingForInput, Paused] (cancel_row now)"

definition decide_row :: "time \<Rightarrow> pystr \<Rightarrow> task \<Rightarrow> task" where
  "decide_row now response t =
     t\<lparr>status := Queued, human_response := Some response, pending_approval_action := JNull,
       human_input_timeout_at := None, timeout_reference_at := Some now, lease_owner := None,
       lease_expiry := None, version := version t + 1, updated_at := now\<rparr>"

definition decide_task :: "time \<Rightarrow> string \<Rightarrow> string \<Rightarrow> pystr \<Rightarrow> db \<Rightarrow> db" where
  "decide_task now tid tn response = api_update tid tn [WaitingForApproval] (decide_row now response)"

definition respond_row :: "time \<Rightarrow> pystr \<Rightarrow> task \<Rightarrow> task" where
  "respond_row now response t =
     t\<lparr>status := Queued, human_response := Some response, pending_input_prompt := None,
       human_input_timeout_at := None, timeout_reference_at := Some now, lease_owner := None,
       lease_expiry := None, version := version t + 1, updated_at := now\<rparr>"

definition respond_to_task :: "time \<Rightarrow> string \<Rightarrow> string \<Rightarrow> pystr \<Rightarrow> db \<Rightarrow> db" where
  "respond_to_task now tid tn response = api_update tid tn [WaitingForInput] (respond_row now response)"

definition follow_up_row :: "time \<Rightarrow> pystr \<Rightarrow> task \<Rightarrow> task" where
  "follow_up_row now response t =
     t\<lparr>status := Queued, human_response := Some response, task_output := JNull,
       lease_owner := None, lease_expiry := None, timeout_reference_at := Some now,
       version := version t + 1, updated_at := now\<rparr>"

definition follow_up_task :: "time \<Rightarrow> string \<Rightarrow> string \<Rightarrow> pystr \<Rightarrow> db \<Rightarrow> db" where
  "follow_up_task now tid tn response = api_update tid tn [Completed] (follow_up_row now response)"

definition redrive_row :: "time \<Rightarrow> task \<Rightarrow> task" where
  "redrive_row now t =
     t\<lparr>status := Queued, retry_count := 0, retry_after := None, lease_owner := None,
       lease_expiry := None, last_error_code := None, last_error_message := None,
       last_worker_id := None, dead_letter_reason := None, dead_lettered_at := None,
       timeout_reference_at := Some now, version := version t + 1, updated_at := now\<rparr>"

definition redrive_task :: "time \<Rightarrow> string \<Rightarrow> string \<Rightarrow> db \<Rightarrow> db" where
  "redrive_task now tid tn = api_update tid tn [DeadLetter] (redrive_row now)"

definition resume_task :: "time \<Rightarrow> string \<Rightarrow> string \<Rightarrow> db \<Rightarrow> db" where
  "resume_task now tid tn d =
     update_tasks (\<lambda>t. task_id t = tid \<and> tenant_id t = tn \<and> status t = Paused
        \<and> (case find_agent d (tenant_id t) (agent_id t) of None \<Rightarrow> False
           | Some a \<Rightarrow> sum_task_cost d tid \<le> budget_max_per_task a \<and> a_active a)) (resume_row now) d"

section \<open>Steps\<close>

inductive worker_step :: "db \<Rightarrow> db \<Rightarrow> bool" where
  claim: "claim_txn c now locked d = (d', res) \<Longrightarrow> worker_step d d'"
| heartbeat: "heartbeat_update c now tid tn d = (d', n) \<Longrightarrow> worker_step d d'"
| step_cost: "record_step_cost now w tid tn ag ck cost md d = Inr (d', totals) \<Longrightarrow> worker_step d d'"
| supervisor_cost:
    "record_supervisor_step_cost now w tid tn ag ck cost md d = Inr (d', totals) \<Longrightarrow> worker_step d d'"
| budget: "check_budget_and_pause now w tid tn ag cost d = (d', paused) \<Longrightarrow> worker_step d d'"
| complete: "d' = commit d (commit_memory_and_complete_task now mid w tid tn ag cfg pending out d) \<Longrightarrow>
    worker_step d d'"
| dead_letter: "d' = commit d (handle_dead_letter now mid w tid tn ag cfg pending reason msg code d) \<Longrightarrow>
    worker_step d d'"
| retry: "d' = commit d (handle_retryable_error now wall mid c snapshot cfg pending err d) \<Longrightarrow>
    0 \<le> retry_count snapshot \<Longrightarrow>
    (\<And>t. t \<in> set (tasks d) \<Longrightarrow> task_id t = task_id snapshot \<Longrightarrow> max_retries t = max_retries snapshot) \<Longrightarrow>
    worker_step d d'"
| interrupt: "d' = handle_interrupt_internal now wall w tid tn ag original data d \<Longrightarrow> worker_step d d'"
| reap: "reap_scan now d = (d', res) \<Longrightarrow> worker_step d d'"
| recover: "recover_hourly_budget_pauses now locked d = (d', ids) \<Longrightarrow> worker_step d d'"
| reconcile: "d' = reconcile_runtime_state now d \<Longrightarrow> worker_step d d'"
| prune: "prune_cost_ledger now d = (d', n) \<Longrightarrow> worker_step d d'"

inductive api_step :: "db \<Rightarrow> db \<Rightarrow> bool" where
  submit: "tid \<notin> task_id ` set (tasks d) \<Longrightarrow> 0 \<le> retries \<Longrightarrow>
    api_step d (d\<lparr>tasks := tasks d @
      [(new_task tid tn ag pl now)\<lparr>max_retries := retries, task_timeout_seconds := timeout\<rparr>]\<rparr>)"
| cancel: "api_step d (cancel_task now tid tn d)"
| decide: "api_step d (decide_task now tid tn response d)"
| respond: "api_step d (respond_to_task now tid tn response d)"
| follow_up: "api_step d (follow_up_task now tid tn response d)"
| redrive: "api_step d (redrive_task now tid tn d)"
| resume: "api_step d (resume_task now tid tn d)"
| edit_agents: "list_all (\<lambda>a. 0 < budget_max_per_hour a \<and> 0 < budget_max_per_task a \<and> 0 < max_concurrent a) as \<Longrightarrow>
    distinct (map agent_key as) \<Longrightarrow> api_step d (d\<lparr>agents := as\<rparr>)"

inductive reachable :: "db \<Rightarrow> bool" where
  start: "reachable empty_db"
| worker: "reachable d \<Longrightarrow> worker_step d d' \<Longrightarrow> reachable d'"
| api: "reachable d \<Longrightarrow> api_step d d' \<Longrightarrow> reachable d'"

inductive_cases worker_stepE [elim]: "worker_step d d'"
inductive_cases api_stepE [elim]: "api_step d d'"

section \<open>Row invariants\<close>

definition task_ok :: "task \<Rightarrow> bool" where
  "task_ok t \<longleftrightarrow> lease_wf_row t
     \<and> 0 \<le> retry_count t \<and> retry_count t \<le> max_retries t
     \<and> (status t = Paused \<longrightarrow> pause_reason t \<noteq> None
          \<and> (pause_reason t = Some ''budget_per_hour'' \<longrightarrow> resume_eligible_at t \<noteq> None))
     \<and> (status t = DeadLetter \<longrightarrow> dead_letter_reason t \<noteq> None \<and> dead_lettered_at t \<noteq> None)
     \<and> (status t = WaitingForApproval \<or> status t = WaitingForInput \<longrightarrow> human_input_timeout_at t \<noteq> None)"

definition agent_ok :: "agent \<Rightarrow> bool" where
  "agent_ok a \<longleftrightarrow> 0 < budget_max_per_hour a \<and> 0 < budget_max_per_task a \<and> 0 < max_concurrent a"

definition db_inv :: "db \<Rightarrow> bool" where
  "db_inv d \<longleftrightarrow> keys_ok d \<and> list_all task_ok (tasks d) \<and> list_all agent_ok (agents d)"

text \<open>The abstract state machine on statuses; the worker may also leave a status as it is.\<close>

fun may_become :: "task_status \<Rightarrow> task_status \<Rightarrow> bool" where
  "may_become Queued s = (s \<in> {Running, DeadLetter})"
| "may_become Running s = True"
| "may_become Paused s = (s = Queued)"
| "may_become WaitingForApproval s = (s = DeadLetter)"
| "may_become WaitingForInput s = (s = DeadLetter)"
| "may_become Completed s = False"
| "may_become DeadLetter s = False"

definition row_step :: "task \<Rightarrow> task \<Rightarrow> bool" where
  "row_step t t' \<longleftrightarrow> task_id t' = task_id t \<and> tenant_id t' = tenant_id t \<and> agent_id t' = agent_id t
     \<and> (t' = t \<or> may_become (status t) (status t'))"

definition row_ok_step :: "task \<Rightarrow> task \<Rightarrow> bool" where
  "row_ok_step t t' \<longleftrightarrow> row_step t t' \<and> (task_ok t \<longrightarrow> task_ok t')"

definition rows_step :: "db \<Rightarrow> db \<Rightarrow> bool" where
  "rows_step d d' \<longleftrightarrow> list_all2 row_ok_step (tasks d) (tasks d')"

section \<open>Every worker step moves rows along the state machine\<close>

lemma row_ok_step_refl [simp]: "row_ok_step t t"
  by (simp add: row_ok_step_def row_step_def)

lemma rows_step_cong: "tasks d' = tasks d \<Longrightarrow> rows_step d d'"
  by (simp add: rows_step_def list.rel_refl)

lemma rows_step_update:
  assumes "tasks d' = update_where P f (tasks d)"
    and "\<And>t. t \<in> set (tasks d) \<Longrightarrow> P t \<Longrightarrow> row_ok_step t (f t)"
  shows "rows_step d d'"
proof -
  have "list_all2 row_ok_step rows (update_where P f rows)"
    if "\<And>t. t \<in> set rows \<Longrightarrow> P t \<Longrightarrow> row_ok_step t (f t)" for rows
    using that by (induction rows) auto
  then show ?thesis using assms by (simp add: rows_step_def)
qed

lemmas row_step_defs = row_ok_step_def row_step_def task_ok_def lease_wf_row_def

lemma claim_row_step: "status t = Queued \<Longrightarrow> row_ok_step t (claim_row c now t)"
  by (auto simp: row_step_defs claim_row_def)

lemma release_row_steps:
  "status t = Running \<Longrightarrow> row_ok_step t (complete_row out t)"
  "status t = Running \<Longrightarrow> row_ok_step t (dead_letter_row now w reason msg code t)"
  "status t = Running \<Longrightarrow> reason = ''budget_per_hour'' \<Longrightarrow> resume \<noteq> None \<Longrightarrow>
     row_ok_step t (pause_row now reason details resume t)"
  "status t = Running \<Longrightarrow> reason \<noteq> ''budget_per_hour'' \<Longrightarrow>
     row_ok_step t (pause_row now reason details resume t)"
  "status t = Running \<Longrightarrow> row_ok_step t (interrupt_row now wall data t)"
  "status t = Running \<Longrightarrow> 0 \<le> n \<Longrightarrow> n \<le> max_retries t \<Longrightarrow> row_ok_step t (retry_row now n after msg t)"
  by (auto simp: row_step_defs release_rows Let_def)

lemma reap_each_row_step:
  "requeue_cond now t \<Longrightarrow> row_ok_step t (requeue_row now t)"
  "exhausted_cond now t \<Longrightarrow> row_ok_step t (exhausted_row now t)"
  "timeout_cond now t \<Longrightarrow> row_ok_step t (timeout_row now t)"
  "requeue_cond now t \<Longrightarrow> row_ok_step t (timeout_row now (requeue_row now t))"
  "human_timeout_cond now t \<Longrightarrow> row_ok_step t (human_timeout_row now t)"
  by (auto simp: row_step_defs reap_rows reap_conds)

lemma reap_row_steps: "row_ok_step t (reap_task now t)"
  unfolding reap_task_def using reap_each_row_step [of now t] by simp

lemma resume_row_step: "status t = Paused \<Longrightarrow> row_ok_step t (resume_row now t)"
  by (auto simp: row_step_defs resume_row_def)

lemma claim_rows_step:
  assumes "keys_ok d" "claim_txn c now locked d = (d', res)"
  shows "rows_step d d'"
proof (cases res)
  case None
  then show ?thesis using claim_txn_none assms(2) by (intro rows_step_cong) fastforce
next
  case (Some t')
  from assms(1) assms(2) [unfolded Some] obtain t where t: "t \<in> set (tasks d)"
    "task_ready c now (tenant_id t) (agent_id t) t" "t' = claim_row c now t"
    by (rule claim_txn_guards)
  show ?thesis
  proof (rule rows_step_update)
    show "tasks d' = update_where (\<lambda>u. task_id u = task_id t') (claim_row c now) (tasks d)"
      using claim_txn_effect(1) [of d c now locked d' t'] assms Some by simp
    fix u assume "u \<in> set (tasks d)" "task_id u = task_id t'"
    moreover from this have "u = t"
      using t assms(1) distinct_map_eq [of task_id "tasks d" u t] by (simp add: keys_ok_def claim_row_def)
    ultimately show "row_ok_step u (claim_row c now u)"
      using t(2) by (intro claim_row_step) (simp add: task_ready_def)
  qed
qed

lemma heartbeat_rows_step: "heartbeat_update c now tid tn d = (d', n) \<Longrightarrow> rows_step d d'"
  by (rule rows_step_update [of _ "holds_lease tid tn (worker_id c)"
        "\<lambda>t. t\<lparr>lease_expiry := Some (now + seconds (lease_duration_seconds c)), updated_at := now\<rparr>"])
     (auto simp: heartbeat_update_def holds_lease_def row_step_defs)

lemma record_cost_tasks:
  "record_step_cost now w tid tn ag ck cost md d = Inr (d', totals) \<Longrightarrow>
     tasks d' = tasks d \<and> agents d' = agents d \<and> (keys_ok d \<longrightarrow> keys_ok d')"
  "record_supervisor_step_cost now w tid tn ag ck cost md d = Inr (d', totals) \<Longrightarrow>
     tasks d' = tasks d \<and> agents d' = agents d \<and> (keys_ok d \<longrightarrow> keys_ok d')"
  by (auto simp: record_step_cost_def record_supervisor_step_cost_def insert_cost_row_default
      lift_db_def Let_def keys_ok_cong [of "set_cost_and_metadata ck tid cost md d" d] split: if_splits)

lemma hour_window_nonempty:
  assumes "0 < sum_hourly_cost_for_agent now d tn ag"
  shows "min_created_at_in_hour_window now d tn ag \<noteq> None"
proof
  assume "min_created_at_in_hour_window now d tn ag = None"
  then have "filter (in_hour_window now tn ag) (ledger d) = []"
    by (simp add: min_created_at_None_iff filter_empty_conv)
  then show False using assms by (simp add: sum_hourly_cost_for_agent_def)
qed

lemma find_agent_Some: "find_agent d tn ag = Some a \<Longrightarrow> a \<in> set (agents d)"
  unfolding find_agent_def by (drule find_Some_mem) simp

lemma owned_is_running:
  "db_inv d \<Longrightarrow> t \<in> set (tasks d) \<Longrightarrow> owns_lease tid w t \<Longrightarrow> status t = Running"
  by (auto simp: db_inv_def task_ok_def lease_wf_row_def owns_lease_def list_all_iff)

lemma check_budget_cases:
  assumes "check_budget_and_pause now w tid tn ag cost d = (d', p)"
  obtains "d' = d" "p = False"
  | a reason details resume where "find_agent d tn ag = Some a" "p = True"
      "d' = execute_budget_pause now w tid tn ag reason details resume d"
      "reason = ''budget_per_task'' \<and> cost > budget_max_per_task a
       \<or> reason = ''budget_per_hour'' \<and> cost \<le> budget_max_per_task a
         \<and> sum_hourly_cost_for_agent now d tn ag > budget_max_per_hour a
         \<and> resume = map_option (\<lambda>x. x + seconds 3600) (min_created_at_in_hour_window now d tn ag)"
proof (cases "find_agent d tn ag")
  case None
  then show ?thesis using assms that(1) by (simp add: check_budget_and_pause_def)
next
  case (Some a)
  show ?thesis
  proof (cases "cost > budget_max_per_task a")
    case True
    obtain details resume where "p = True"
      "d' = execute_budget_pause now w tid tn ag ''budget_per_task'' details resume d"
      using assms Some True by (auto simp: check_budget_and_pause_def Let_def)
    then show ?thesis using that(2) [OF Some] True by blast
  next
    case False
    show ?thesis
    proof (cases "sum_hourly_cost_for_agent now d tn ag > budget_max_per_hour a")
      case True
      obtain details where "p = True"
        "d' = execute_budget_pause now w tid tn ag ''budget_per_hour'' details
           (map_option (\<lambda>x. x + seconds 3600) (min_created_at_in_hour_window now d tn ag)) d"
        using assms Some False True by (auto simp: check_budget_and_pause_def Let_def)
      then show ?thesis using that(2) [OF Some] True False by auto
    next
      case no: False
      then show ?thesis using assms Some False
        by (intro that(1)) (simp_all add: check_budget_and_pause_def Let_def)
    qed
  qed
qed

lemma budget_rows_step:
  assumes "db_inv d" "check_budget_and_pause now w tid tn ag cost d = (d', p)"
  shows "rows_step d d'"
  using assms(2)
proof (cases rule: check_budget_cases)
  case 1
  then show ?thesis by (intro rows_step_cong) simp
next
  case (2 a reason details resume)
  have "0 < budget_max_per_hour a"
    using assms(1) find_agent_Some [OF 2(1)] by (auto simp: db_inv_def list_all_iff agent_ok_def)
  then have res: "reason = ''budget_per_hour'' \<Longrightarrow> resume \<noteq> None"
    using 2(4) hour_window_nonempty [of now d tn ag] by auto
  have "row_ok_step t (pause_row now reason (JObj details) resume t)"
    if "t \<in> set (tasks d)" "owns_lease tid w t" for t
    using owned_is_running [OF assms(1) that] release_row_steps(3,4) [of t reason] res
    by (cases "reason = ''budget_per_hour''") auto
  then show ?thesis unfolding 2(3) by (rule rows_step_update [OF pause.tasks_op])
qed

lemma reap_rows_step: "reap_scan now d = (d', res) \<Longrightarrow> rows_step d d'"
  using reap_scan_tasks [of now d]
  by (intro rows_step_update [of _ "\<lambda>_. True" "reap_task now"]) (simp_all add: update_where_def reap_row_steps)

text \<open>Budget recovery touches several agents; each paused task is resumed at most once.\<close>

definition resumed_or_same :: "time \<Rightarrow> task \<Rightarrow> task \<Rightarrow> bool" where
  "resumed_or_same now t t' \<longleftrightarrow> t' = t \<or> status t = Paused \<and> t' = resume_row now t"

lemma resumed_or_same_trans:
  "resumed_or_same now t u \<Longrightarrow> resumed_or_same now u v \<Longrightarrow> resumed_or_same now t v"
  by (auto simp: resumed_or_same_def resume_row_def)

lemma resumed_row_step: "resumed_or_same now t t' \<Longrightarrow> row_ok_step t t'"
  using resume_row_step by (auto simp: resumed_or_same_def)

lemma rs_keys_recover_agent:
  "map rs_key (runtime (fst (recover_agent now locked k d))) = map rs_key (runtime d)"
  by (simp add: recover_agent_def Let_def fold_frame [of runtime] map_key_update_where rs_key_def
      split: option.splits)

lemma recover_agent_rows:
  assumes "keys_ok d" "recover_agent now locked k d = (d', ids)"
  shows "list_all2 (resumed_or_same now) (tasks d) (tasks d') \<and> keys_ok d' \<and> agents d' = agents d"
  using assms(2)
proof (cases rule: recover_agent_cases)
  case 1
  then show ?thesis using assms(1) by (simp add: list.rel_refl resumed_or_same_def)
next
  case (2 a sel)
  have paused: "status t = Paused" if t: "t \<in> set (tasks d)" "task_id t \<in> sel" for t
  proof -
    obtain u where "u \<in> set (tasks d)" "task_id u = task_id t" "hourly_paused (fst k) (snd k) u"
      using resume_ids_mem t(2) 2(5) by blast
    moreover from this have "u = t"
      using t(1) assms(1) distinct_map_eq [of task_id "tasks d" u t] by (simp add: keys_ok_def)
    ultimately show ?thesis by (simp add: hourly_paused_def)
  qed
  have "list_all2 (resumed_or_same now) rows (update_where (\<lambda>t. task_id t \<in> sel) (resume_row now) rows)"
    if "\<And>t. t \<in> set rows \<Longrightarrow> task_id t \<in> sel \<Longrightarrow> status t = Paused" for rows
    using that by (induction rows) (auto simp: resumed_or_same_def)
  then have "list_all2 (resumed_or_same now) (tasks d) (tasks d')" using paused 2(7) by simp
  moreover have "map rs_key (runtime d') = map rs_key (runtime d)"
    using rs_keys_recover_agent [of now locked k d] assms(2) by simp
  ultimately show ?thesis
    using assms(1) 2(7,9) by (simp add: keys_ok_def map_key_update_where resume_row_def)
qed

lemma recover_agents_rows:
  "keys_ok d \<Longrightarrow> recover_agents now locked ks d = (d', ids) \<Longrightarrow>
   list_all2 (resumed_or_same now) (tasks d) (tasks d') \<and> keys_ok d' \<and> agents d' = agents d"
proof (induction ks arbitrary: d d' ids)
  case Nil
  then show ?case by (simp add: list.rel_refl resumed_or_same_def)
next
  case (Cons k ks)
  obtain d1 i1 where 1: "recover_agent now locked k d = (d1, i1)" by force
  obtain d2 i2 where 2: "recover_agents now locked ks d1 = (d2, i2)" by force
  have "d' = d2" using Cons.prems(2) 1 2 by simp
  moreover note a = recover_agent_rows [OF Cons.prems(1) 1]
  moreover note b = Cons.IH [OF _ 2]
  moreover have "list_all2 (resumed_or_same now) (tasks d) (tasks d2)"
    using a b list_all2_trans [of "resumed_or_same now" "resumed_or_same now" "resumed_or_same now"
        "tasks d" "tasks d1" "tasks d2"] resumed_or_same_trans by blast
  ultimately show ?case by simp
qed

lemma recover_rows_step:
  assumes "keys_ok d" "recover_hourly_budget_pauses now locked d = (d', ids)"
  shows "rows_step d d'"
  using recover_agents_rows [OF assms(1)] assms(2) list_all2_mono resumed_row_step
  unfolding rows_step_def recover_hourly_budget_pauses_def by blast

section \<open>The invariant\<close>

lemma release_step:
  assumes "lease_release op_db gate upd tid w tn ag" "db_inv d"
    and "\<And>t. t \<in> set (tasks d) \<Longrightarrow> gate t \<Longrightarrow> status t = Running \<Longrightarrow> row_ok_step t (upd t)"
  shows "rows_step d (op_db d)"
proof (rule rows_step_update [OF lease_release.tasks_op [OF assms(1)]])
  fix t assume t: "t \<in> set (tasks d)" "gate t"
  then have "owns_lease tid w t" using lease_release.gate_owner [OF assms(1)] by (simp add: owns_lease_def)
  with t show "row_ok_step t (upd t)" using assms(3) owned_is_running [OF assms(2)] by blast
qed

lemma worker_step_rows:
  assumes "db_inv d" "worker_step d d'"
  shows "rows_step d d'"
proof -
  have k: "keys_ok d" using assms(1) by (simp add: db_inv_def)
  from assms(2) show ?thesis
  proof cases
    case (claim c now locked res) then show ?thesis using claim_rows_step [OF k] by blast
  next
    case (heartbeat c now tid tn n) then show ?thesis using heartbeat_rows_step by blast
  next
    case (step_cost now w tid tn ag ck cost md totals)
    then show ?thesis using record_cost_tasks(1) by (intro rows_step_cong) blast
  next
    case (supervisor_cost now w tid tn ag ck cost md totals)
    then show ?thesis using record_cost_tasks(2) by (intro rows_step_cong) blast
  next
    case (budget now w tid tn ag cost paused) then show ?thesis using budget_rows_step [OF assms(1)] by blast
  next
    case (complete now mid w tid tn ag cfg pending out)
    show ?thesis unfolding complete
      by (rule release_step [OF complete.lease_release_axioms assms(1)]) (rule release_row_steps(1))
  next
    case (dead_letter now mid w tid tn ag cfg pending reason msg code)
    show ?thesis unfolding dead_letter
      by (rule release_step [OF dead_letter.lease_release_axioms assms(1)]) (rule release_row_steps(2))
  next
    case (retry now wall mid c snapshot cfg pending err)
    have "row_ok_step t (retry_upd now wall c snapshot err t)"
      if "t \<in> set (tasks d)" "owns_running (task_id snapshot) (worker_id c) t" "status t = Running" for t
      using retry(2) retry(3) [OF that(1)] that(2,3) release_row_steps(2,6) [OF that(3)]
      by (auto simp: retry_upd_def owns_running_def)
    then show ?thesis unfolding retry(1)
      by (rule release_step [OF retry.lease_release_axioms assms(1)])
  next
    case (interrupt now wall w tid tn ag original data)
    show ?thesis unfolding interrupt
      by (rule release_step [OF interrupt.lease_release_axioms assms(1)]) (rule release_row_steps(5))
  next
    case (reap now res) then show ?thesis by (rule reap_rows_step)
  next
    case (recover now locked ids) then show ?thesis using recover_rows_step [OF k] by blast
  next
    case (reconcile now) then show ?thesis by (intro rows_step_cong) (simp add: reconcile_runtime_state_def)
  next
    case (prune now n) then show ?thesis by (intro rows_step_cong) (auto simp: prune_cost_ledger_def Let_def)
  qed
qed

lemma keys_ok_fold: "(\<And>r e. keys_ok e \<Longrightarrow> keys_ok (body r e)) \<Longrightarrow> keys_ok d \<Longrightarrow> keys_ok (fold body rows d)"
  by (induction rows arbitrary: d) auto

lemma keys_ok_update_returning:
  assumes "\<And>r e. keys_ok e \<Longrightarrow> keys_ok (body r e)" "\<And>t. task_id (f t) = task_id t" "keys_ok d"
  shows "keys_ok (fst (update_returning P f body d))"
  using assms keys_ok_update_tasks [of d f P]
  by (simp add: update_returning_def Let_def update_tasks_def keys_ok_fold)

lemma reap_scan_keeps:
  assumes "reap_scan now d = (d', res)"
  shows "(keys_ok d \<longrightarrow> keys_ok d') \<and> agents d' = agents d"
proof -
  have bodies: "keys_ok e \<Longrightarrow> keys_ok (requeue_body now r e)" "keys_ok e \<Longrightarrow> keys_ok (exhausted_body now r e)"
    "keys_ok e \<Longrightarrow> keys_ok (timeout_body now r e)" "keys_ok e \<Longrightarrow> keys_ok (human_timeout_body now r e)" for r e
    by (simp_all add: requeue_body_def exhausted_body_def timeout_body_def human_timeout_body_def)
  have notif: "keys_ok e \<Longrightarrow> keys_ok (notify_requeued now e)" for e
    by (simp add: notify_requeued_def keys_ok_fold)
  have ag: "agents (fst (update_returning P f body e)) = agents e" if "\<And>r e. agents (body r e) = agents e" for P f body e
    by (simp add: update_returning_def Let_def fold_frame [of agents, OF that])
  have mark: "keys_ok (mark_stale_workers now e) = keys_ok e" "agents (mark_stale_workers now e) = agents e" for e
    by (simp_all add: mark_stale_workers_def keys_ok_def)
  have "d' = mark_stale_workers now (fst (reap_human_timeouts now (fst (reap_timeouts now
      (fst (reap_exhausted now (fst (reap_requeue now d))))))))"
    using assms by (auto simp: reap_scan_def Let_def split: prod.splits)
  then show ?thesis
    by (simp add: mark reap_requeue_def reap_exhausted_def reap_timeouts_def
        reap_human_timeouts_def ag keys_ok_update_returning bodies notif reap_rows)
qed

lemma keys_ok_reconcile: "keys_ok d \<Longrightarrow> keys_ok (reconcile_runtime_state now d)"
proof -
  have "map rs_key (runtime (reconcile_runtime_state now d)) = map rs_key (runtime d)"
    by (simp add: reconcile_rows rs_key_def)
  moreover have "tasks (reconcile_runtime_state now d) = tasks d" "agents (reconcile_runtime_state now d) = agents d"
    by (simp_all add: reconcile_runtime_state_def)
  ultimately show "keys_ok d \<Longrightarrow> keys_ok (reconcile_runtime_state now d)" by (simp add: keys_ok_def)
qed

lemma worker_step_keeps_keys:
  assumes "keys_ok d" "worker_step d d'"
  shows "keys_ok d' \<and> agents d' = agents d"
  using assms(2)
proof cases
  case (claim c now locked res)
  then show ?thesis using keys_ok_claim_txn [OF assms(1)]
    by (cases res) (use claim_txn_none claim_txn_effect(3) [OF assms(1)] preclaim_frame(2) in metis)+
next
  case (heartbeat c now tid tn n)
  then show ?thesis using keys_ok_heartbeat [OF assms(1), of c now tid tn] heartbeat_frame(2) [of c now tid tn d]
    by simp
next
  case (step_cost now w tid tn ag ck cost md totals)
  then show ?thesis using record_cost_tasks(1) assms(1) by blast
next
  case (supervisor_cost now w tid tn ag ck cost md totals)
  then show ?thesis using record_cost_tasks(2) assms(1) by blast
next
  case (budget now w tid tn ag cost paused)
  then show ?thesis using assms(1) pause.keys pause.same_agents by (cases rule: check_budget_cases) auto
next
  case complete then show ?thesis using complete.keys complete.same_agents assms(1) by simp
next
  case dead_letter then show ?thesis using dead_letter.keys dead_letter.same_agents assms(1) by simp
next
  case retry then show ?thesis using retry.keys retry.same_agents assms(1) by simp
next
  case interrupt then show ?thesis using interrupt.keys interrupt.same_agents assms(1) by simp
next
  case reap then show ?thesis using reap_scan_keeps assms(1) by blast
next
  case recover
  then show ?thesis using recover_agents_rows [OF assms(1)] unfolding recover_hourly_budget_pauses_def by blast
next
  case (reconcile now)
  then show ?thesis using keys_ok_reconcile [OF assms(1)] by (simp add: reconcile_runtime_state_def)
next
  case (prune now n)
  then show ?thesis using assms(1) by (auto simp: prune_cost_ledger_def Let_def)
qed

lemma list_all2_pres: "list_all2 R xs ys \<Longrightarrow> (\<And>x y. R x y \<Longrightarrow> P x \<Longrightarrow> P y) \<Longrightarrow> list_all P xs \<Longrightarrow> list_all P ys"
  by (induction rule: list_all2_induct) auto

lemma db_inv_worker: "db_inv d \<Longrightarrow> worker_step d d' \<Longrightarrow> db_inv d'"
  using worker_step_rows [of d d'] worker_step_keeps_keys [of d d'] list_all2_pres [of row_ok_step "tasks d" "tasks d'" task_ok]
  by (auto simp: db_inv_def rows_step_def row_ok_step_def)

lemma api_rows_ok:
  "task_ok t \<Longrightarrow> task_ok (cancel_row now t)" "task_ok t \<Longrightarrow> task_ok (decide_row now r t)"
  "task_ok t \<Longrightarrow> task_ok (respond_row now r t)" "task_ok t \<Longrightarrow> task_ok (follow_up_row now r t)"
  "task_ok t \<Longrightarrow> task_ok (redrive_row now t)" "task_ok t \<Longrightarrow> status t = Paused \<Longrightarrow> task_ok (resume_row now t)"
  by (auto simp: task_ok_def lease_wf_row_def cancel_row_def decide_row_def respond_row_def
      follow_up_row_def redrive_row_def resume_row_def)

lemma db_inv_update_tasks:
  assumes "db_inv d" "\<And>t. task_id (f t) = task_id t" "\<And>t. P t \<Longrightarrow> task_ok t \<Longrightarrow> task_ok (f t)"
  shows "db_inv (update_tasks P f d)"
  using assms keys_ok_update_tasks [of d f P] by (auto simp: db_inv_def list_all_iff set_update_where)

lemma db_inv_api:
  assumes "db_inv d" "api_step d d'"
  shows "db_inv d'"
  using assms(2)
proof cases
  case (submit tid retries tn ag pl now timeout)
  then show ?thesis
    using assms(1) by (auto simp: db_inv_def keys_ok_def new_task_def task_ok_def lease_wf_row_def)
next
  case (edit_agents as)
  then show ?thesis using assms(1) by (simp add: db_inv_def keys_ok_def agent_ok_def [abs_def])
qed (use assms(1) api_rows_ok in \<open>auto simp: cancel_task_def decide_task_def respond_to_task_def
       follow_up_task_def redrive_task_def resume_task_def api_update_def cancel_row_def decide_row_def
       respond_row_def follow_up_row_def redrive_row_def resume_row_def intro!: db_inv_update_tasks\<close>)

lemma db_inv_reachable: "reachable d \<Longrightarrow> db_inv d"
proof (induction rule: reachable.induct)
  case start
  then show ?case by (simp add: db_inv_def keys_ok_def empty_db_def)
qed (auto intro: db_inv_worker db_inv_api)

section \<open>The transitions of a lease holder\<close>

inductive transition :: "string \<Rightarrow> string \<Rightarrow> string \<Rightarrow> string \<Rightarrow> (db \<Rightarrow> db) \<Rightarrow> bool" where
  "transition tid w tn ag (\<lambda>d. commit d (commit_memory_and_complete_task now mid w tid tn ag cfg pending out d))"
| "transition tid w tn ag (\<lambda>d. commit d (handle_dead_letter now mid w tid tn ag cfg pending reason msg code d))"
| "transition (task_id t) (worker_id c) (tenant_id t) (agent_id t)
     (\<lambda>d. commit d (handle_retryable_error now wall mid c t cfg pending err d))"
| "transition tid w tn ag (execute_budget_pause now w tid tn ag reason details resume)"
| "transition tid w tn ag (handle_interrupt_internal now wall w tid tn ag original data)"

lemma transition_release:
  "transition tid w tn ag f \<Longrightarrow> \<exists>gate upd. lease_release f gate upd tid w tn ag"
  by (induction rule: transition.induct)
     (blast intro: complete.lease_release_axioms dead_letter.lease_release_axioms
       retry.lease_release_axioms pause.lease_release_axioms interrupt.lease_release_axioms)+

text \<open>
  C2. In every database reachable by worker transactions (claim, heartbeat, costs,
  completion, retry, dead letter, pauses, reaper, recovery, reconciliation) and API
  mutations, in any order: task ids are unique, a running task has an owner and a lease
  expiry and no other task has an owner, retries stay within max_retries, a paused task
  has a reason (and a resume time when the hour budget paused it), a dead letter has a
  reason and a time, a task waiting for a human has a timeout.
\<close>

theorem reachable_tasks_well_formed:
  assumes "reachable d"
  shows "distinct (map task_id (tasks d)) \<and> list_all task_ok (tasks d)"
  using db_inv_reachable [OF assms] by (simp add: db_inv_def keys_ok_def)

lemma demo_reachable: "reachable (demo_db [''x''])"
proof -
  have 1: "api_step empty_db (empty_db\<lparr>agents := [demo_agent]\<rparr>)"
    by (rule edit_agents) (simp_all add: demo_agent_def)
  have "api_step (empty_db\<lparr>agents := [demo_agent]\<rparr>) ((empty_db\<lparr>agents := [demo_agent]\<rparr>)\<lparr>tasks :=
      tasks (empty_db\<lparr>agents := [demo_agent]\<rparr>) @ [(new_task ''x'' ''t'' ''a'' ''p'' 10)\<lparr>max_retries := 3, task_timeout_seconds := 3600\<rparr>]\<rparr>)"
    by (rule submit) (simp_all add: empty_db_def)
  then have "reachable ((empty_db\<lparr>agents := [demo_agent]\<rparr>)\<lparr>tasks := [(new_task ''x'' ''t'' ''a'' ''p'' 10)\<lparr>max_retries := 3, task_timeout_seconds := 3600\<rparr>]\<rparr>)"
    using reachable.api [OF reachable.api [OF start 1]] by (simp add: empty_db_def)
  then show ?thesis by (simp add: demo_db_def empty_db_def new_task_def)
qed

definition demo_claimed :: db where
  "demo_claimed = fst (claim_txn demo_config 100 (\<lambda>_. False) (demo_db [''x'']))"

lemma demo_claimed_step: "worker_step (demo_db [''x'']) demo_claimed"
  unfolding demo_claimed_def by (rule claim [where res = "snd (claim_txn demo_config 100 (\<lambda>_. False) (demo_db [''x'']))"]) simp

lemma demo_claimed_tasks:
  "tasks demo_claimed = [(new_task ''x'' ''t'' ''a'' ''p'' 10)\<lparr>status := Running, version := 2,
     lease_owner := Some ''w'', lease_expiry := Some (100 + 60000000), updated_at := 100\<rparr>]"
  by code_simp

theorem reachable_tasks_well_formed_witness:
  "map status (tasks demo_claimed) = [Running] \<and> list_all task_ok (tasks demo_claimed)"
  using reachable_tasks_well_formed [OF reachable.worker [OF demo_reachable demo_claimed_step]]
  by (simp add: demo_claimed_tasks)

text \<open>
  C5. Every worker transaction on a reachable database refines the abstract status machine
  row by row: it adds and drops no task, and every task either keeps its status or follows
  an allowed edge.
\<close>

theorem worker_refines_status_machine:
  assumes "reachable d" "worker_step d d'"
  shows "list_all2 row_step (tasks d) (tasks d')"
  using worker_step_rows [OF db_inv_reachable [OF assms(1)] assms(2)]
  by (auto simp: rows_step_def row_ok_step_def elim: list_all2_mono)

theorem worker_refines_status_machine_witness:
  "list_all2 row_step (tasks (demo_db [''x''])) (tasks demo_claimed) \<and> tasks demo_claimed \<noteq> tasks (demo_db [''x''])"
  using worker_refines_status_machine [OF demo_reachable demo_claimed_step]
  by (simp add: demo_claimed_tasks demo_db_def new_task_def)

text \<open>
  C4. Of two executor transitions of one worker on the same task (complete, dead letter,
  retry, budget pause, interrupt) only the first has an effect: it gives the lease up, so
  the second changes nothing.
\<close>

theorem first_transition_wins:
  assumes "transition tid w tn ag f" "transition tid w tn2 ag2 g" "lease_wf d"
  shows "g (f d) = f d"
proof -
  obtain g1 u1 g2 u2 where "lease_release f g1 u1 tid w tn ag" "lease_release g g2 u2 tid w tn2 ag2"
    using transition_release [OF assms(1)] transition_release [OF assms(2)] by blast
  then have "lease_race f g1 u1 tid w tn ag g g2 u2 tn2 ag2" by (rule lease_race.intro)
  then show ?thesis using assms(3) by (rule lease_race.first_writer_wins)
qed

theorem first_transition_wins_witness:
  "map status (tasks (execute_budget_pause 200 ''w'' ''x'' ''t'' ''a'' ''budget_per_task'' [] None demo_claimed)) = [Paused]
   \<and> (\<forall>now wall original data. handle_interrupt_internal now wall ''w'' ''x'' ''t'' ''a'' original data
        (execute_budget_pause 200 ''w'' ''x'' ''t'' ''a'' ''budget_per_task'' [] None demo_claimed)
      = execute_budget_pause 200 ''w'' ''x'' ''t'' ''a'' ''budget_per_task'' [] None demo_claimed)"
proof -
  have "lease_wf demo_claimed" by (simp add: lease_wf_def demo_claimed_tasks lease_wf_row_def)
  note first_transition_wins [OF transition.intros(4) transition.intros(5) this]
  moreover have "map status (tasks (execute_budget_pause 200 ''w'' ''x'' ''t'' ''a'' ''budget_per_task'' [] None demo_claimed)) = [Paused]"
    by code_simp
  ultimately show ?thesis by blast
qed

text \<open>
  C3. A worker that does not hold the lease of a task cannot change it: completion, dead
  letter, retry, budget pause and interrupt leave the database as it is, both step-cost
  transactions raise, and the heartbeat updates no row.
\<close>

theorem lost_lease_fences_worker:
  assumes "distinct (map task_id (tasks d))" "t \<in> set (tasks d)" "lease_owner t \<noteq> Some w"
    and "transition (task_id t) w tn ag f"
  shows "f d = d \<and> record_step_cost now w (task_id t) tn ag ck cost md d = Inl LeaseRevoked
    \<and> record_supervisor_step_cost now w (task_id t) tn ag ck cost md d = Inl LeaseRevoked
    \<and> (worker_id c = w \<longrightarrow> heartbeat_update c now (task_id t) tn d = (d, 0))"
proof -
  have other: "u = t" if "u \<in> set (tasks d)" "task_id u = task_id t" for u
    using distinct_map_eq [OF assms(1) that(1) assms(2) that(2)] .
  have no: "\<not> lease_ok (task_id t) tn w d"
    using other assms(3) by (auto simp: lease_ok_def holds_lease_def)
  obtain gate upd where r: "lease_release f gate upd (task_id t) w tn ag"
    using transition_release [OF assms(4)] by blast
  have "\<not> any_task gate d"
    using lease_release.gate_owner [OF r] other assms(3) by (auto simp: any_task_def)
  then have "f d = d" by (rule lease_release.no_lease [OF r])
  moreover have "heartbeat_update c now (task_id t) tn d = (d, 0)" if "worker_id c = w"
    using heartbeat_rows_zero_iff [of c now "task_id t" tn d] heartbeat_no_lease_id [of "task_id t" tn c d now]
      no that by (metis prod.collapse)
  ultimately show ?thesis using no by (simp add: record_step_cost_def record_supervisor_step_cost_def)
qed

theorem lost_lease_fences_worker_witness:
  "execute_budget_pause 200 ''other'' ''x'' ''t'' ''a'' ''budget_per_task'' [] None demo_claimed = demo_claimed"
proof -
  let ?t = "(new_task ''x'' ''t'' ''a'' ''p'' 10)\<lparr>status := Running, version := 2,
     lease_owner := Some ''w'', lease_expiry := Some (100 + 60000000), updated_at := 100\<rparr>"
  have "transition (task_id ?t) ''other'' ''t'' ''a''
      (execute_budget_pause 200 ''other'' ''x'' ''t'' ''a'' ''budget_per_task'' [] None)"
    using transition.intros(4) [of "''x''"] by (simp add: new_task_def)
  from lost_lease_fences_worker [OF _ _ _ this, of demo_claimed] show ?thesis
    by (simp add: demo_claimed_tasks)
qed


text \<open>
  C6. The running counter that admission control reads stays equal to the number of
  running tasks of the agent through every claim and every executor transition.
\<close>

theorem claim_and_transitions_keep_counter:
  assumes "keys_ok d" "lease_wf d" "counter_exact d tn' ag'"
    and "d' = fst (claim_txn c now locked d)
      \<or> (\<exists>t f. t \<in> set (tasks d) \<and> transition (task_id t) w (tenant_id t) (agent_id t) f \<and> d' = f d)"
  shows "counter_exact d' tn' ag'"
  using assms(4)
proof
  assume d': "d' = fst (claim_txn c now locked d)"
  show ?thesis
  proof (cases "snd (claim_txn c now locked d)")
    case None
    then have "d' = preclaim_upsert c now d" using claim_txn_none d' by (metis prod.collapse)
    then show ?thesis using assms(3) by (simp add: counter_exact_def running_of_cong [of "preclaim_upsert c now d" d])
  next
    case (Some t')
    then have cl: "claim_txn c now locked d = (d', Some t')" using d' by (metis prod.collapse)
    from claim_txn_guards [OF assms(1) cl] obtain t where t: "t \<in> set (tasks d)"
      "task_ready c now (tenant_id t) (agent_id t) t" "t' = claim_row c now t" by blast
    let ?Q = "\<lambda>u. tenant_id u = tn' \<and> agent_id u = ag' \<and> status u = Running"
    have "count_where ?Q (update_where (\<lambda>u. task_id u = task_id t') (claim_row c now) (tasks d))
        = count_where ?Q (tasks d) - (if ?Q t then 1 else 0) + (if ?Q (claim_row c now t) then 1 else 0)"
      using assms(1) t by (intro count_where_update_key [where key = task_id and R = "\<lambda>_. True"])
        (simp_all add: keys_ok_def claim_row_def)
    then show ?thesis
      using claim_txn_effect(1) [OF assms(1) cl] claim_txn_effect(2) [OF assms(1) cl, of tn' ag'] assms(3) t
      by (auto simp: counter_exact_def running_of_def task_ready_def claim_row_def)
  qed
next
  assume "\<exists>t f. t \<in> set (tasks d) \<and> transition (task_id t) w (tenant_id t) (agent_id t) f \<and> d' = f d"
  then obtain t f where tf: "t \<in> set (tasks d)" "transition (task_id t) w (tenant_id t) (agent_id t) f" "d' = f d"
    by blast
  then obtain gate upd where r: "lease_release f gate upd (task_id t) w (tenant_id t) (agent_id t)"
    using transition_release by blast
  have "tenant_id u = tenant_id t \<and> agent_id u = agent_id t" if "u \<in> set (tasks d)" "gate u" for u
    using lease_release.gate_owner [OF r that(2)] distinct_map_eq [of task_id "tasks d" u t] that(1) tf(1) assms(1)
    by (auto simp: keys_ok_def)
  then show ?thesis
    unfolding tf(3) by (rule lease_release.keeps_counter_exact [OF r assms(1-3)])
qed

theorem claim_and_transitions_keep_counter_witness:
  "counter_exact demo_claimed ''t'' ''a'' \<and> running_of demo_claimed ''t'' ''a'' = 1"
proof -
  have "keys_ok (demo_db [''x''])" "lease_wf (demo_db [''x''])" "counter_exact (demo_db [''x'']) ''t'' ''a''"
    by code_simp+
  from claim_and_transitions_keep_counter [OF this, of demo_claimed demo_config 100 "\<lambda>_. False"]
  have "counter_exact demo_claimed ''t'' ''a''" by (simp add: demo_claimed_def)
  moreover have "running_of demo_claimed ''t'' ''a'' = 1" by code_simp
  ultimately show ?thesis by blast
qed

end
