(* ===== verification/Budget.thy ===== *)
theory Budget
  imports Lifecycle
begin

text \<open>
  What the accounting of step costs and the budget check guarantee: the additive cost write
  of the supervisor keeps the checkpoints' total in step with the ledger, a budget pause
  happens exactly when a limit is exceeded and names the right limit, and a retry is
  scheduled inside its bounds.  The last theorem follows a task that outlives the ledger's
  retention.
\<close>

definition ck_total :: "db \<Rightarrow> string \<Rightarrow> int" where
  "ck_total d tid = sum_of ck_cost (filter (\<lambda>c. ck_task c = tid) (checkpoints d))"

definition task_ckpts :: "db \<Rightarrow> string \<Rightarrow> checkpoint_row list" where
  "task_ckpts d tid = filter (\<lambda>c. ck_task c = tid) (checkpoints d)"

lemma ck_total_update:
  assumes "distinct (map ck_id (task_ckpts d tid))" "c \<in> set (task_ckpts d tid)" "ck_id c = ck"
    and "\<And>x. ck_task (f x) = ck_task x"
    and "checkpoints d' = update_where (\<lambda>c. ck_id c = ck \<and> ck_task c = tid) f (checkpoints d)"
  shows "ck_total d' tid = ck_total d tid - ck_cost c + ck_cost (f c)"
proof -
  have "filter (\<lambda>c. ck_task c = tid) (checkpoints d')
      = update_where (\<lambda>c. ck_id c = ck \<and> ck_task c = tid) f (task_ckpts d tid)"
    unfolding assms(5) task_ckpts_def by (rule filter_update_where_same) (simp add: assms(4))
  then show ?thesis
    unfolding ck_total_def task_ckpts_def [symmetric]
    using sum_of_update_key [of ck_id "task_ckpts d tid" c "\<lambda>c. ck_id c = ck \<and> ck_task c = tid"
        "\<lambda>c. ck_task c = tid" ck_cost f] assms(1-3)
    by (simp add: task_ckpts_def)
qed

lemma sum_task_cost_ledger:
  "ledger d' = ledger d @ [cost_row now tn ag tid ck c] \<Longrightarrow> sum_task_cost d' tid = sum_task_cost d tid + c"
  by (simp add: sum_task_cost_def cost_row_def)

lemma checkpoints_increment [simp]:
  "checkpoints (increment_hour_window_cost now tn ag c d) = checkpoints d"
  by simp

lemma stored_window_cost_eq: "stored_window_cost = window_cost"
  by (intro ext) (simp add: stored_window_cost_def window_cost_def)

lemma window_cost_frame [simp]:
  "window_cost (d\<lparr>ledger := x\<rparr>) tn ag = window_cost d tn ag"
  "window_cost (add_cost_and_preserve_metadata ck tid c md d) tn ag = window_cost d tn ag"
  by (simp_all add: window_cost_def find_runtime_def)

lemma record_supervisor_cases:
  assumes "record_supervisor_step_cost now w tid tn ag ck cost md d = Inr (d', tot, hourly)"
  shows "lease_ok tid tn w d"
    and "checkpoints d' = checkpoints (add_cost_and_preserve_metadata ck tid cost md d)"
    and "ledger d' = ledger d @ [cost_row now tn ag tid ck cost]"
    and "window_cost d' tn ag = window_cost d tn ag + cost"
    and "tot = sum_task_cost d' tid" and "hourly = window_cost d' tn ag"
  using assms
  by (auto simp: record_supervisor_step_cost_def insert_cost_row_default lift_db_def Let_def
      window_cost_increment stored_window_cost_eq split: if_splits)

text \<open>
  A supervisor step adds its cost once to the checkpoint, to the task total in the
  ledger and to the hour window, and returns these totals.
\<close>

theorem supervisor_cost_accounting:
  assumes "record_supervisor_step_cost now w tid tn ag ck cost md d = Inr (d', tot, hourly)"
    and "distinct (map ck_id (task_ckpts d tid))" "ck \<in> ck_id ` set (task_ckpts d tid)"
  shows "ck_total d' tid = ck_total d tid + cost \<and> sum_task_cost d' tid = sum_task_cost d tid + cost
    \<and> tot = sum_task_cost d' tid \<and> hourly = window_cost d tn ag + cost"
proof -
  note r = record_supervisor_cases [OF assms(1)]
  obtain c where c: "c \<in> set (task_ckpts d tid)" "ck_id c = ck" using assms(3) by auto
  have "ck_total d' tid = ck_total d tid - ck_cost c + (ck_cost c + cost)"
    using ck_total_update [OF assms(2) c, of "\<lambda>c. c\<lparr>ck_cost := ck_cost c + cost,
        ck_exec_metadata := (case ck_exec_metadata c of None \<Rightarrow> md | Some m \<Rightarrow> Some m)\<rparr>" d'] r(2)
    by (simp add: add_cost_and_preserve_metadata_def)
  then show ?thesis using r sum_task_cost_ledger [OF r(3)] by simp
qed

definition demo_checkpoint :: "string \<Rightarrow> int \<Rightarrow> checkpoint_row" where
  "demo_checkpoint i cost = \<lparr>ck_task = ''x'', ck_ns = '''', ck_id = i, ck_worker = ''w'', ck_parent = None,
     ck_ts = ''1'', ck_parent_ts = None, ck_payload = JNull, ck_metadata = JNull, ck_cost = cost,
     ck_exec_metadata = None, ck_created_at = 50\<rparr>"

definition demo_running_db :: db where
  "demo_running_db = demo_claimed\<lparr>checkpoints := [demo_checkpoint ''c1'' 5]\<rparr>"

theorem supervisor_cost_accounting_witness:
  "\<exists>d' tot hourly. record_supervisor_step_cost 200 ''w'' ''x'' ''t'' ''a'' ''c1'' 7 None demo_running_db
     = Inr (d', tot, hourly) \<and> ck_total d' ''x'' = ck_total demo_running_db ''x'' + 7"
proof -
  have ok: "case record_supervisor_step_cost 200 ''w'' ''x'' ''t'' ''a'' ''c1'' 7 None demo_running_db of
      Inl e \<Rightarrow> False | Inr r \<Rightarrow> True" by code_simp
  then obtain d' tot hourly where e: "record_supervisor_step_cost 200 ''w'' ''x'' ''t'' ''a'' ''c1'' 7 None demo_running_db
      = Inr (d', tot, hourly)" by (auto split: sum.splits)
  have "distinct (map ck_id (task_ckpts demo_running_db ''x''))"
    "''c1'' \<in> ck_id ` set (task_ckpts demo_running_db ''x'')" by code_simp+
  from supervisor_cost_accounting [OF e this] e show ?thesis by blast
qed

text \<open>
  C10. After a step the executor pauses the task exactly when its cost is over the task
  budget or the agent is over its hour budget; the task budget wins when both are
  exceeded, the paused row has no lease and the reason, and an hourly pause gets a resume
  time in the future. Otherwise nothing changes.
\<close>

theorem budget_pause_iff_exceeded:
  assumes "check_budget_and_pause now w tid tn ag cost d = (d', paused)"
    and "find_agent d tn ag = Some a" "0 \<le> budget_max_per_hour a"
    and "distinct (map task_id (tasks d))" "t \<in> set (tasks d)" "owns_lease tid w t"
  shows "paused = (cost > budget_max_per_task a \<or> sum_hourly_cost_for_agent now d tn ag > budget_max_per_hour a)
    \<and> (if paused then \<exists>t' \<in> set (tasks d'). task_id t' = tid \<and> status t' = Paused \<and> lease_owner t' = None
         \<and> (if cost > budget_max_per_task a
            then pause_reason t' = Some ''budget_per_task''
            else pause_reason t' = Some ''budget_per_hour''
              \<and> (case resume_eligible_at t' of None \<Rightarrow> False | Some r \<Rightarrow> now < r))
       else d' = d)"
  using assms(1)
proof (cases rule: check_budget_cases)
  case 1
  then have "\<not> (cost > budget_max_per_task a \<or> sum_hourly_cost_for_agent now d tn ag > budget_max_per_hour a)"
    using assms(1,2) by (auto simp: check_budget_and_pause_def Let_def split: if_splits)
  with 1 show ?thesis by simp
next
  case (2 b reason details resume)
  then have b: "b = a" using assms(2) by simp
  let ?t' = "pause_row now reason (JObj details) resume t"
  have "?t' \<in> set (tasks d')"
    using assms(5,6) by (auto simp: 2(3) pause.tasks_op set_update_where intro!: image_eqI [of _ _ t])
  moreover have "task_id ?t' = tid" using assms(6) by (simp add: pause_row_def owns_lease_def)
  moreover have "case resume of None \<Rightarrow> False | Some r \<Rightarrow> now < r" if "reason = ''budget_per_hour''"
  proof -
    have "0 < sum_hourly_cost_for_agent now d tn ag" using 2(4) assms(3) b that by auto
    then obtain m where "min_created_at_in_hour_window now d tn ag = Some m"
      using hour_window_nonempty by blast
    with min_created_at_in_window [OF this] 2(4) that show ?thesis by simp
  qed
  ultimately show ?thesis using 2(2,4) b by (auto simp: pause_row_def intro!: bexI [of _ ?t'])
qed

theorem budget_pause_iff_exceeded_witness:
  "snd (check_budget_and_pause 200 ''w'' ''x'' ''t'' ''a'' 101 demo_claimed) = True
   \<and> (\<exists>t' \<in> set (tasks (fst (check_budget_and_pause 200 ''w'' ''x'' ''t'' ''a'' 101 demo_claimed))).
        pause_reason t' = Some ''budget_per_task'')"
proof -
  have a: "find_agent demo_claimed ''t'' ''a'' = Some demo_agent" by code_simp
  have "check_budget_and_pause 200 ''w'' ''x'' ''t'' ''a'' 101 demo_claimed
      = (fst (check_budget_and_pause 200 ''w'' ''x'' ''t'' ''a'' 101 demo_claimed),
         snd (check_budget_and_pause 200 ''w'' ''x'' ''t'' ''a'' 101 demo_claimed))" by simp
  from budget_pause_iff_exceeded [OF this a, of "hd (tasks demo_claimed)"] show ?thesis
    by (auto simp: demo_agent_def demo_claimed_tasks owns_lease_def new_task_def)
qed

text \<open>
  A retryable error of a task with retries left puts it back in the queue with its
  retry count one higher, never above max_retries, and due between 2 and 300 seconds
  later.
\<close>

theorem retry_schedule:
  assumes "retry_count t < max_retries t" "0 \<le> retry_count t" "keys_ok d" "u \<in> set (tasks d)"
    and "owns_running (task_id t) (worker_id c) u"
  shows "\<exists>u' \<in> set (tasks (commit d (handle_retryable_error now wall mid c t cfg pending err d))).
    task_id u' = task_id t \<and> status u' = Queued \<and> retry_count u' = retry_count t + 1
    \<and> retry_count u' \<le> max_retries t
    \<and> (\<exists>r. retry_after u' = Some r \<and> wall + seconds 2 \<le> r \<and> r \<le> wall + seconds 300)"
proof -
  let ?u' = "retry_upd now wall c t err u"
  have "?u' \<in> set (tasks (commit d (handle_retryable_error now wall mid c t cfg pending err d)))"
    using assms(4,5) by (auto simp: retry.tasks_op set_update_where intro!: image_eqI [of _ _ u])
  moreover have "(2::int) ^ 1 \<le> 2 ^ nat (retry_count t + 1)"
    using assms(2) by (intro power_increasing) auto
  then have "2 \<le> retry_backoff (retry_count t + 1) \<and> retry_backoff (retry_count t + 1) \<le> 300"
    by (simp add: retry_backoff_def)
  ultimately show ?thesis
    using assms(1,5) by (auto simp: retry_upd_def retry_row_def second_def owns_running_def intro!: bexI [of _ ?u'])
qed

theorem retry_schedule_witness:
  "\<exists>u' \<in> set (tasks (commit demo_claimed (handle_retryable_error 200 300 ''m'' demo_config
     (hd (tasks demo_claimed)) JNull None (lit ''boom'') demo_claimed))). retry_count u' = 1 \<and> status u' = Queued"
proof -
  have "keys_ok demo_claimed" by code_simp
  moreover have "owns_running (task_id (hd (tasks demo_claimed))) (worker_id demo_config) (hd (tasks demo_claimed))"
    by (simp add: demo_claimed_tasks owns_running_def demo_config_def default_config_def new_task_def)
  ultimately show ?thesis
    using retry_schedule [of "hd (tasks demo_claimed)" demo_claimed "hd (tasks demo_claimed)" demo_config 200 300 "''m''" JNull None "lit ''boom''"]
    by (auto simp: demo_claimed_tasks new_task_def)
qed

text \<open>
  The ledger is pruned after two hours although the task budget sums the whole task:
  a task that spent 90 of 100, then 90 more two hours later, is recorded at 180 on its
  checkpoints, and the budget check sees 90 and lets it run.
\<close>

theorem long_task_escapes_its_budget:
  "(let cost = (\<lambda>now ck d. case record_step_cost now ''w'' ''x'' ''t'' ''a'' ck 90 None d of
                   Inl e \<Rightarrow> (d, 0) | Inr (d', tot, hourly) \<Rightarrow> (d', tot));
        d0 = demo_claimed\<lparr>checkpoints := [demo_checkpoint ''c1'' 0, demo_checkpoint ''c2'' 0]\<rparr>;
        (d1, total1) = cost 200 ''c1'' d0;
        d2 = fst (prune_cost_ledger (seconds 7300) d1);
        (d3, total3) = cost (seconds 7300) ''c2'' d2
    in map_option budget_max_per_task (find_agent d3 ''t'' ''a'') = Some 100
       \<and> ck_total d3 ''x'' = 180 \<and> total1 = 90 \<and> total3 = 90
       \<and> snd (check_budget_and_pause (seconds 7300) ''w'' ''x'' ''t'' ''a'' total3 d3) = False)"
  by code_simp

end
