(* ===== verification/Checkpointer.thy ===== *)
theory Checkpointer
  imports Leases "HOL-Library.AList"
begin

text \<open>
  \<open>checkpointer/postgres.py\<close>: the lease-aware checkpoint store.  Python objects are the
  datatype \<open>pyobj\<close>; a pending \<open>Send\<close> is opaque (\<open>PSend\<close>).  Third-party code is a parameter:
  \<open>ser\<close>/\<open>deser\<close> for LangGraph's \<open>serde.dumps_typed\<close>/\<open>loads_typed\<close>, \<open>dumps\<close>/\<open>loads\<close> for
  LangChain's JSON serialisation, \<open>widx\<close> for \<open>WRITES_IDX_MAP\<close> and \<open>contains\<close> for the
  \<open>jsonb\<close> operator \<open>@>\<close>.  Base64 of the standard library is defined on its own output; any
  other text is an error here.
\<close>

section \<open>Base64\<close>

definition b64_alphabet :: string where
  "b64_alphabet = ''ABCDEFGHIJKLMNOPQRSTUVWXYZabcdefghijklmnopqrstuvwxyz0123456789+/''"

definition b64_char :: "nat \<Rightarrow> char" where
  "b64_char i = b64_alphabet ! i"

definition b64_val :: "char \<Rightarrow> nat option" where
  "b64_val c = (if c \<in> set b64_alphabet then Some (length (takeWhile (\<lambda>x. x \<noteq> c) b64_alphabet)) else None)"

fun b64encode :: "nat list \<Rightarrow> string" where
  "b64encode [] = []"
| "b64encode [a] = [b64_char (a div 4), b64_char (a mod 4 * 16), CHR ''='', CHR ''='']"
| "b64encode [a, b] =
     [b64_char (a div 4), b64_char (a mod 4 * 16 + b div 16), b64_char (b mod 16 * 4), CHR ''='']"
| "b64encode (a # b # c # r) =
     b64_char (a div 4) # b64_char (a mod 4 * 16 + b div 16) # b64_char (b mod 16 * 4 + c div 64)
     # b64_char (c mod 64) # b64encode r"

fun b64decode :: "string \<Rightarrow> nat list option" where
  "b64decode [] = Some []"
| "b64decode (w # x # y # z # r) =
     (case (b64_val w, b64_val x) of
        (Some i, Some j) \<Rightarrow>
          (case (b64_val y, b64_val z) of
             (Some k, Some l) \<Rightarrow>
               (case b64decode r of
                  None \<Rightarrow> None
                | Some bs \<Rightarrow> Some ((i * 4 + j div 16) # (j mod 16 * 16 + k div 4) # (k mod 4 * 64 + l) # bs))
           | (Some k, None) \<Rightarrow>
               if z = CHR ''='' \<and> r = [] then Some [i * 4 + j div 16, j mod 16 * 16 + k div 4] else None
           | (None, _) \<Rightarrow>
               if y = CHR ''='' \<and> z = CHR ''='' \<and> r = [] then Some [i * 4 + j div 16] else None)
      | _ \<Rightarrow> None)"
| "b64decode _ = None"

lemma b64_tables:
  "list_all (\<lambda>i. b64_val (b64_char i) = Some i) [0..<64]" "b64_val CHR ''='' = None"
  by code_simp+

lemma b64_val_char [simp]: "i < 64 \<Longrightarrow> b64_val (b64_char i) = Some i"
  using b64_tables(1) by (simp add: list_all_iff)




section \<open>Sends on the pending-tasks channel\<close>

datatype 's pyobj =
    PNone
  | PInt int
  | PStr string
  | PList "'s pyobj list"
  | PDict "(string \<times> 's pyobj) list"
  | PSend 's

record 's checkpoint =
  cp_id :: string
  cp_ts :: string
  channel_values :: "(string \<times> 's pyobj) list option"
  cp_rest :: "(string \<times> 's pyobj) list"

definition TASKS :: string where "TASKS = ''__pregel_tasks''"

definition SEND_ENVELOPE_KEY :: string where "SEND_ENVELOPE_KEY = ''__par_send_serde__''"

fun is_send :: "'s pyobj \<Rightarrow> bool" where
  "is_send (PSend s) = True"
| "is_send _ = False"

fun encode_task :: "('s \<Rightarrow> string \<times> nat list) \<Rightarrow> 's pyobj \<Rightarrow> 's pyobj" where
  "encode_task ser (PSend s) =
     PDict [(SEND_ENVELOPE_KEY,
       PDict [(''type'', PStr (fst (ser s))), (''blob'', PStr (b64encode (snd (ser s))))])]"
| "encode_task ser t = t"

definition encode_pregel_tasks :: "('s \<Rightarrow> string \<times> nat list) \<Rightarrow> 's checkpoint \<Rightarrow> 's checkpoint" where
  "encode_pregel_tasks ser cp =
     (let cv = (case channel_values cp of None \<Rightarrow> [] | Some kvs \<Rightarrow> kvs) in
      case map_of cv TASKS of
        Some (PList ts) \<Rightarrow>
          if \<not> list_ex is_send ts then cp
          else cp\<lparr>channel_values := Some (AList.update TASKS (PList (map (encode_task ser) ts)) cv)\<rparr>
      | _ \<Rightarrow> cp)"

fun is_envelope :: "'s pyobj \<Rightarrow> bool" where
  "is_envelope (PDict kvs) = (SEND_ENVELOPE_KEY \<in> fst ` set kvs)"
| "is_envelope _ = False"

text \<open>\<open>None\<close>: the decoder raises (a missing key, or text that is not base64).\<close>

fun decode_task :: "(string \<times> nat list \<Rightarrow> 's) \<Rightarrow> 's pyobj \<Rightarrow> 's pyobj option" where
  "decode_task deser (PDict kvs) =
     (case map_of kvs SEND_ENVELOPE_KEY of
        None \<Rightarrow> Some (PDict kvs)
      | Some (PDict env) \<Rightarrow>
          (case (map_of env ''type'', map_of env ''blob'') of
             (Some (PStr ty), Some (PStr b)) \<Rightarrow>
               map_option (\<lambda>bytes. PSend (deser (ty, bytes))) (b64decode b)
           | _ \<Rightarrow> None)
      | Some _ \<Rightarrow> None)"
| "decode_task deser t = Some t"

definition decode_pregel_tasks ::
  "(string \<times> nat list \<Rightarrow> 's) \<Rightarrow> 's checkpoint \<Rightarrow> 's checkpoint option" where
  "decode_pregel_tasks deser cp =
     (case channel_values cp of
        None \<Rightarrow> Some cp
      | Some cv \<Rightarrow>
          (case map_of cv TASKS of
             Some (PList ts) \<Rightarrow>
               if \<not> list_ex is_envelope ts then Some cp
               else map_option (\<lambda>ts'. cp\<lparr>channel_values := Some (AList.update TASKS (PList ts') cv)\<rparr>)
                      (those (map (decode_task deser) ts))
           | _ \<Rightarrow> Some cp))"


section \<open>Writing checkpoints\<close>

definition ck_key :: "string \<Rightarrow> string \<Rightarrow> string \<Rightarrow> checkpoint_row \<Rightarrow> bool" where
  "ck_key tid ns i c \<longleftrightarrow> ck_task c = tid \<and> ck_ns c = ns \<and> ck_id c = i"

definition upsert_checkpoint ::
  "time \<Rightarrow> string \<Rightarrow> string \<Rightarrow> string \<Rightarrow> string option \<Rightarrow> string \<Rightarrow> string \<Rightarrow> json \<Rightarrow> json \<Rightarrow> db \<Rightarrow> db" where
  "upsert_checkpoint now tid ns w parent i ts payload md d =
     (let parent_ts = (case parent of None \<Rightarrow> None
            | Some p \<Rightarrow> map_option ck_ts (find (ck_key tid ns p) (checkpoints d)))
      in if \<exists>c \<in> set (checkpoints d). ck_key tid ns i c
         then d\<lparr>checkpoints := update_where (ck_key tid ns i)
                (\<lambda>c. c\<lparr>ck_payload := payload, ck_metadata := md, ck_worker := w, ck_parent := parent,
                       ck_ts := ts, ck_parent_ts := parent_ts\<rparr>) (checkpoints d)\<rparr>
         else d\<lparr>checkpoints := checkpoints d @
                [\<lparr>ck_task = tid, ck_ns = ns, ck_id = i, ck_worker = w, ck_parent = parent, ck_ts = ts,
                  ck_parent_ts = parent_ts, ck_payload = payload, ck_metadata = md, ck_cost = 0,
                  ck_exec_metadata = None, ck_created_at = now\<rparr>]\<rparr>)"

record target =
  tg_thread :: string
  tg_ns :: "string option"
  tg_checkpoint :: "string option"

definition target_ns :: "target \<Rightarrow> string" where
  "target_ns g = (case tg_ns g of None \<Rightarrow> [] | Some ns \<Rightarrow> ns)"

definition aput ::
  "('s checkpoint \<Rightarrow> json) \<Rightarrow> ('s \<Rightarrow> string \<times> nat list) \<Rightarrow> time \<Rightarrow> string \<Rightarrow> string
   \<Rightarrow> target \<Rightarrow> 's checkpoint \<Rightarrow> json \<Rightarrow> db \<Rightarrow> (db \<times> target) txn" where
  "aput dumps ser now tn w g cp md d =
     (let payload = dumps (encode_pregel_tasks ser cp) in
      if \<not> lease_ok (tg_thread g) tn w d then Inl LeaseRevoked
      else Inr (upsert_checkpoint now (tg_thread g) (target_ns g) w (tg_checkpoint g) (cp_id cp)
                  (cp_ts cp) payload md d,
                \<lparr>tg_thread = tg_thread g, tg_ns = Some (target_ns g), tg_checkpoint = Some (cp_id cp)\<rparr>))"

definition wr_key :: "write_row \<Rightarrow> string \<times> string \<times> string \<times> string \<times> int" where
  "wr_key r = (wr_task r, wr_ns r, wr_checkpoint r, wr_path r, wr_idx r)"

definition set_write :: "write_row \<Rightarrow> write_row \<Rightarrow> write_row" where
  "set_write x r =
     x\<lparr>wr_writer := wr_writer r, wr_channel := wr_channel r, wr_type := wr_type r, wr_blob := wr_blob r\<rparr>"

definition upsert_write :: "write_row \<Rightarrow> write_row list \<Rightarrow> write_row list" where
  "upsert_write r rows =
     (if wr_key r \<in> wr_key ` set rows
      then update_where (\<lambda>x. wr_key x = wr_key r)
             (\<lambda>x. set_write x r) rows
      else rows @ [r])"

definition insert_write :: "write_row \<Rightarrow> write_row list \<Rightarrow> write_row list" where
  "insert_write r rows = (if wr_key r \<in> wr_key ` set rows then rows else rows @ [r])"

definition write_params ::
  "(string \<Rightarrow> int option) \<Rightarrow> ('v \<Rightarrow> string \<times> nat list) \<Rightarrow> string \<Rightarrow> string \<Rightarrow> string \<Rightarrow> string \<Rightarrow> string
   \<Rightarrow> (string \<times> 'v) list \<Rightarrow> write_row list" where
  "write_params widx serv tid ns ck writer path ws =
     map (\<lambda>(i, (ch, v)). \<lparr>wr_task = tid, wr_ns = ns, wr_checkpoint = ck, wr_writer = Some writer,
            wr_path = path, wr_idx = (case widx ch of None \<Rightarrow> int i | Some j \<Rightarrow> j), wr_channel = ch,
            wr_type = fst (serv v), wr_blob = snd (serv v)\<rparr>) (enumerate 0 ws)"

datatype put_error = MissingCheckpointId | PutFailed txn_error

definition aput_writes ::
  "(string \<Rightarrow> int option) \<Rightarrow> ('v \<Rightarrow> string \<times> nat list) \<Rightarrow> string \<Rightarrow> string \<Rightarrow> target
   \<Rightarrow> (string \<times> 'v) list \<Rightarrow> string \<Rightarrow> string \<Rightarrow> db \<Rightarrow> put_error + db" where
  "aput_writes widx serv tn w g ws writer path d =
     (case tg_checkpoint g of
        None \<Rightarrow> Inl MissingCheckpointId
      | Some ck \<Rightarrow>
          let all_special = list_all (\<lambda>(ch, v). widx ch \<noteq> None) ws;
              params = write_params widx serv (tg_thread g) (target_ns g) ck writer path ws in
          if params = [] then Inr d
          else if \<not> lease_ok (tg_thread g) tn w d then Inl (PutFailed LeaseRevoked)
          else Inr (d\<lparr>ck_writes := fold (if all_special then upsert_write else insert_write) params
                        (ck_writes d)\<rparr>))"

section \<open>Reading checkpoints\<close>

record 's ckpt_tuple =
  tp_config :: target
  tp_checkpoint :: "'s checkpoint"
  tp_metadata :: json
  tp_parent :: "target option"
  tp_writes :: "(string \<times> string \<times> string \<times> nat list) list"

definition pending_writes :: "string \<Rightarrow> string \<Rightarrow> string \<Rightarrow> db \<Rightarrow> (string \<times> string \<times> string \<times> nat list) list" where
  "pending_writes tid ns ck d =
     map (\<lambda>r. ((case wr_writer r of None \<Rightarrow> wr_path r | Some x \<Rightarrow> if x = [] then wr_path r else x),
               wr_channel r, wr_type r, wr_blob r))
       (sort_key (\<lambda>r. (wr_path r, wr_idx r))
         (filter (\<lambda>r. wr_task r = tid \<and> wr_ns r = ns \<and> wr_checkpoint r = ck) (ck_writes d)))"

definition row_to_tuple ::
  "(json \<Rightarrow> 's checkpoint) \<Rightarrow> (string \<times> nat list \<Rightarrow> 's) \<Rightarrow> db \<Rightarrow> checkpoint_row \<Rightarrow> 's ckpt_tuple option" where
  "row_to_tuple loads deser d c =
     map_option (\<lambda>cp. \<lparr>tp_config = \<lparr>tg_thread = ck_task c, tg_ns = Some (ck_ns c), tg_checkpoint = Some (ck_id c)\<rparr>,
         tp_checkpoint = cp, tp_metadata = ck_metadata c,
         tp_parent = (case ck_parent c of None \<Rightarrow> None
           | Some p \<Rightarrow> if p = [] then None
               else Some \<lparr>tg_thread = ck_task c, tg_ns = Some (ck_ns c), tg_checkpoint = Some p\<rparr>),
         tp_writes = pending_writes (ck_task c) (ck_ns c) (ck_id c) d\<rparr>)
       (decode_pregel_tasks deser (loads (ck_payload c)))"

definition desc_by_id :: "checkpoint_row list \<Rightarrow> checkpoint_row list" where
  "desc_by_id rows = rev (sort_key ck_id (rev rows))"



record list_query =
  lq_thread :: "string option"
  lq_ns :: "string option"
  lq_checkpoint :: "string option"
  lq_filter :: "json option"
  lq_before :: "string option"
  lq_limit :: "nat option"

definition opt_eq :: "'a option \<Rightarrow> 'a \<Rightarrow> bool" where
  "opt_eq o' x \<longleftrightarrow> (case o' of None \<Rightarrow> True | Some y \<Rightarrow> x = y)"

definition alist_rows :: "(json \<Rightarrow> json \<Rightarrow> bool) \<Rightarrow> list_query \<Rightarrow> db \<Rightarrow> checkpoint_row list" where
  "alist_rows contains q d =
     (let rows = desc_by_id (filter (\<lambda>c.
            (case lq_thread q of None \<Rightarrow> True
             | Some tid \<Rightarrow> ck_task c = tid \<and> opt_eq (lq_ns q) (ck_ns c) \<and> opt_eq (lq_checkpoint q) (ck_id c))
            \<and> (case lq_filter q of None \<Rightarrow> True | Some f \<Rightarrow> contains (ck_metadata c) f)
            \<and> (case lq_before q of None \<Rightarrow> True | Some b \<Rightarrow> ck_id c < b)) (checkpoints d))
      in case lq_limit q of None \<Rightarrow> rows | Some n \<Rightarrow> take n rows)"

definition alist ::
  "(json \<Rightarrow> 's checkpoint) \<Rightarrow> (string \<times> nat list \<Rightarrow> 's) \<Rightarrow> (json \<Rightarrow> json \<Rightarrow> bool) \<Rightarrow> list_query \<Rightarrow> db
   \<Rightarrow> 's ckpt_tuple option list" where
  "alist loads deser contains q d = map (row_to_tuple loads deser d) (alist_rows contains q d)"

definition adelete_thread :: "string \<Rightarrow> db \<Rightarrow> db" where
  "adelete_thread tid d =
     d\<lparr>ck_writes := filter (\<lambda>r. wr_task r \<noteq> tid) (ck_writes d),
       checkpoints := filter (\<lambda>c. ck_task c \<noteq> tid) (checkpoints d)\<rparr>"

section \<open>Lemmas: the Send round trip\<close>







section \<open>Lemmas: checkpoint rows\<close>


lemma upsert_checkpoint_other:
  "ck_task c \<noteq> tid \<Longrightarrow> c \<in> set (checkpoints d) \<longleftrightarrow>
   c \<in> set (checkpoints (upsert_checkpoint now tid ns w parent i ts payload md d))"
  by (auto simp: upsert_checkpoint_def Let_def set_update_where ck_key_def image_iff)

section \<open>Lemmas: replaying writes\<close>

definition last_write :: "write_row list \<Rightarrow> write_row \<Rightarrow> write_row option" where
  "last_write ps r = find (\<lambda>p. wr_key p = wr_key r) (rev ps)"

lemma set_write_simps [simp]:
  "wr_key (set_write x p) = wr_key x" "set_write (set_write x p) q = set_write x q"
  "set_write (set_write x p) p = set_write x p" "set_write p p = p"
  by (simp_all add: set_write_def wr_key_def)

lemma last_write_snoc:
  "last_write (ps @ [p]) r = (if wr_key p = wr_key r then Some p else last_write ps r)"
  by (simp add: last_write_def)

lemma upsert_write_mem:
  "r \<in> set (upsert_write p rows) \<Longrightarrow>
   (wr_key r = wr_key p \<and> set_write r p = r) \<or> (wr_key r \<noteq> wr_key p \<and> r \<in> set rows)"
proof (cases "wr_key p \<in> wr_key ` set rows")
  case True
  then show "r \<in> set (upsert_write p rows) \<Longrightarrow> ?thesis"
    by (auto simp: upsert_write_def set_update_where)
next
  case False
  then have "x \<in> set rows \<Longrightarrow> wr_key x \<noteq> wr_key p" for x by (metis imageI)
  with False show "r \<in> set (upsert_write p rows) \<Longrightarrow> ?thesis" by (auto simp: upsert_write_def)
qed

lemma fold_upsert_last:
  "r \<in> set (fold upsert_write ps rows) \<Longrightarrow> last_write ps r = Some p \<Longrightarrow> set_write r p = r"
proof (induction ps arbitrary: r rule: rev_induct)
  case (snoc q ps)
  from snoc.prems(1) have "r \<in> set (upsert_write q (fold upsert_write ps rows))" by simp
  from upsert_write_mem [OF this] show ?case
    using snoc by (auto simp: last_write_snoc)
qed (simp add: last_write_def)

lemma keys_upsert_write: "wr_key ` set (upsert_write p rows) = insert (wr_key p) (wr_key ` set rows)"
proof (cases "wr_key p \<in> wr_key ` set rows")
  case True
  have "map wr_key (update_where P (\<lambda>x. set_write x p) rows) = map wr_key rows" for P
    by (rule map_key_update_where) simp
  then have "wr_key ` set (update_where P (\<lambda>x. set_write x p) rows) = wr_key ` set rows" for P
    by (metis set_map)
  with True show ?thesis by (auto simp: upsert_write_def)
qed (simp add: upsert_write_def)

lemma keys_fold_upsert: "wr_key ` set (fold upsert_write ps rows) = wr_key ` set ps \<union> wr_key ` set rows"
  by (induction ps arbitrary: rows) (auto simp: keys_upsert_write)

lemma fold_upsert_present:
  "wr_key ` set ps \<subseteq> wr_key ` set rows \<Longrightarrow>
   fold upsert_write ps rows = map (\<lambda>r. case last_write ps r of None \<Rightarrow> r | Some p \<Rightarrow> set_write r p) rows"
proof (induction ps rule: rev_induct)
  case (snoc p ps)
  let ?g = "\<lambda>r. case last_write ps r of None \<Rightarrow> r | Some p \<Rightarrow> set_write r p"
  have g: "fold upsert_write ps rows = map ?g rows" using snoc by auto
  have k: "wr_key (?g r) = wr_key r" for r by (simp split: option.split)
  have "wr_key p \<in> wr_key ` set (map ?g rows)" using snoc.prems k by (simp add: image_image)
  then have "upsert_write p (map ?g rows) = map (\<lambda>r. if wr_key (?g r) = wr_key p then set_write (?g r) p else ?g r) rows"
    by (simp add: upsert_write_def update_where_def comp_def)
  then show ?case
    by (auto simp: g k last_write_snoc split: option.split)
qed (simp add: last_write_def)

lemma fold_upsert_replay: "fold upsert_write ps (fold upsert_write ps rows) = fold upsert_write ps rows"
proof -
  let ?rows = "fold upsert_write ps rows"
  have "fold upsert_write ps ?rows = map (\<lambda>r. case last_write ps r of None \<Rightarrow> r | Some p \<Rightarrow> set_write r p) ?rows"
    by (rule fold_upsert_present) (simp add: keys_fold_upsert)
  also have "\<dots> = ?rows"
    using fold_upsert_last by (intro map_idI) (auto split: option.split)
  finally show ?thesis .
qed

lemma keys_fold_insert: "wr_key ` set ps \<subseteq> wr_key ` set (fold insert_write ps rows)"
  "wr_key ` set rows \<subseteq> wr_key ` set (fold insert_write ps rows)"
proof (induction ps arbitrary: rows)
  case (Cons p ps)
  { case 1 show ?case using Cons(1,2) [of "insert_write p rows"] by (auto simp: insert_write_def split: if_splits) }
  { case 2 show ?case using Cons(2) [of "insert_write p rows"] by (auto simp: insert_write_def split: if_splits) }
qed simp_all

lemma fold_insert_present: "wr_key ` set ps \<subseteq> wr_key ` set rows \<Longrightarrow> fold insert_write ps rows = rows"
  by (induction ps) (auto simp: insert_write_def)

lemma lease_ok_writes [simp]: "lease_ok tid tn w (d\<lparr>ck_writes := x\<rparr>) = lease_ok tid tn w d"
  by (simp add: lease_ok_def)

section \<open>Properties\<close>


definition demo_ckpt :: "bool checkpoint" where
  "demo_ckpt = \<lparr>cp_id = ''c1'', cp_ts = ''1'', channel_values = Some [(TASKS, PList [PSend True, PNone])],
     cp_rest = []\<rparr>"

definition demo_ser :: "bool \<Rightarrow> string \<times> nat list" where
  "demo_ser b = (''send'', [if b then 1 else 0])"


definition demo_lease_db :: db where
  "demo_lease_db = (demo_db [])\<lparr>tasks := [demo_running ''x'']\<rparr>"

definition demo_target :: target where
  "demo_target = \<lparr>tg_thread = ''x'', tg_ns = None, tg_checkpoint = Some ''c0''\<rparr>"

lemma demo_lease: "lease_ok ''x'' ''t'' ''w'' demo_lease_db"
  by code_simp


text \<open>
  Checkpoints and pending writes are stored exactly when the worker holds the lease,
  and a checkpoint put changes no checkpoint of another task and no task row.
\<close>

theorem checkpoint_writes_fenced_and_scoped:
  assumes "tg_checkpoint g \<noteq> None" "ws \<noteq> []"
  shows "((\<exists>r. aput dumps ser now tn w g cp md d = Inr r) \<longleftrightarrow> lease_ok (tg_thread g) tn w d)
    \<and> ((\<exists>d'. aput_writes widx serv tn w g ws writer path d = Inr d') \<longleftrightarrow> lease_ok (tg_thread g) tn w d)
    \<and> (\<forall>d' g' c. aput dumps ser now tn w g cp md d = Inr (d', g') \<longrightarrow> ck_task c \<noteq> tg_thread g \<longrightarrow>
          (c \<in> set (checkpoints d) \<longleftrightarrow> c \<in> set (checkpoints d')) \<and> tasks d' = tasks d)"
proof -
  have "write_params widx serv tid ns ck wr p ws \<noteq> []" for tid ns ck wr p
    using assms(2) by (cases ws) (auto simp: write_params_def enumerate_eq_zip)
  moreover have "tasks (upsert_checkpoint now tid ns w parent i ts payload md d) = tasks d" for tid ns parent i ts payload
    by (simp add: upsert_checkpoint_def Let_def)
  ultimately show ?thesis
    using assms(1) upsert_checkpoint_other by (auto simp: aput_def aput_writes_def Let_def split: option.split)
qed

theorem checkpoint_writes_fenced_and_scoped_witness:
  "\<exists>r. aput (\<lambda>_. JNull) demo_ser 50 ''t'' ''w'' demo_target demo_ckpt JNull demo_lease_db = Inr r"
  using checkpoint_writes_fenced_and_scoped [of demo_target "[(''ch'', True)]" "\<lambda>_. JNull" demo_ser 50 "''t''"
      "''w''" demo_ckpt JNull demo_lease_db]
  by (simp add: demo_target_def demo_lease)

text \<open>
  Writing the same pending writes a second time, as a resumed worker does, leaves the
  store as the first write left it, for the upserted special channels and the insert-once
  ordinary ones.
\<close>

theorem put_writes_replay_is_harmless:
  assumes "aput_writes widx serv tn w g ws writer path d = Inr d'"
  shows "aput_writes widx serv tn w g ws writer path d' = Inr d'"
proof -
  obtain ck where ck: "tg_checkpoint g = Some ck"
    using assms by (cases "tg_checkpoint g") (auto simp: aput_writes_def)
  let ?ps = "write_params widx serv (tg_thread g) (target_ns g) ck writer path ws"
  show ?thesis
  proof (cases "?ps = []")
    case True
    then show ?thesis using assms ck by (simp add: aput_writes_def Let_def)
  next
    case False
    have keep: "fold insert_write ?ps (fold insert_write ?ps rows) = fold insert_write ?ps rows" for rows
      using keys_fold_insert(1) by (rule fold_insert_present)
    from False assms ck have "lease_ok (tg_thread g) tn w d"
      "d' = d\<lparr>ck_writes := fold (if list_all (\<lambda>(ch, v). widx ch \<noteq> None) ws then upsert_write else insert_write)
                ?ps (ck_writes d)\<rparr>"
      by (auto simp: aput_writes_def Let_def split: if_splits)
    then show ?thesis
      using False ck fold_upsert_replay keep by (simp add: aput_writes_def Let_def)
  qed
qed

theorem put_writes_replay_is_harmless_witness:
  "case aput_writes (\<lambda>_. Some (- 1)) demo_ser ''t'' ''w'' demo_target [(''e'', True), (''e'', False)] ''wt'' '''' demo_lease_db of
     Inl _ \<Rightarrow> False
   | Inr d' \<Rightarrow> length (ck_writes d') = 1 \<and>
       aput_writes (\<lambda>_. Some (- 1)) demo_ser ''t'' ''w'' demo_target [(''e'', True), (''e'', False)] ''wt'' '''' d' = Inr d'"
proof -
  have "case aput_writes (\<lambda>_. Some (- 1)) demo_ser ''t'' ''w'' demo_target [(''e'', True), (''e'', False)] ''wt'' ''''
      demo_lease_db of Inl _ \<Rightarrow> False | Inr d' \<Rightarrow> length (ck_writes d') = 1"
    by code_simp
  then show ?thesis
    by (auto split: sum.splits intro: put_writes_replay_is_harmless)
qed

end
