(* ===== verification/Messages.thy ===== *)
theory Messages
  imports Text "HOL-Library.AList"
begin

text \<open>
  LangChain messages as the worker sees them, and the message helpers of
  \<open>executor/graph.py\<close>: output text, activity time stamps, recall tags, the reweaving of a
  tool node's output and the source filter of sub-agents.  Identifiers that a provider
  makes (message and tool-call ids, tool names) are texts.  Ids are optional where
  LangChain allows \<open>None\<close>; \<open>additional_kwargs\<close> is an association list without duplicates.
\<close>

datatype role = System | Human | Ai | ToolRole

record tool_call =
  tc_id :: "pystr option"
  tc_name :: pystr
  tc_args :: "(string \<times> json) list"

record message =
  role :: role
  content :: content
  msg_id :: "pystr option"
  tool_calls :: "tool_call list"
  tool_call_id :: pystr
  msg_name :: "pystr option"
  kwargs :: "(string \<times> json) list"

definition plain_message :: "role \<Rightarrow> pystr \<Rightarrow> message" where
  "plain_message r text = \<lparr>role = r, content = Plain text, msg_id = None, tool_calls = [],
     tool_call_id = [], msg_name = None, kwargs = []\<rparr>"

definition is_tool :: "message \<Rightarrow> bool" where
  "is_tool m \<longleftrightarrow> role m = ToolRole"

definition is_caller :: "message \<Rightarrow> bool" where
  "is_caller m \<longleftrightarrow> role m = Ai \<and> tool_calls m \<noteq> []"

definition kwarg :: "string \<Rightarrow> message \<Rightarrow> json option" where
  "kwarg k m = map_of (kwargs m) k"

definition kwarg_true :: "string \<Rightarrow> message \<Rightarrow> bool" where
  "kwarg_true k m = (case kwarg k m of None \<Rightarrow> False | Some j \<Rightarrow> json_truthy j)"

definition set_default :: "string \<Rightarrow> json \<Rightarrow> (string \<times> json) list \<Rightarrow> (string \<times> json) list" where
  "set_default k v kvs = (if map_of kvs k = None then kvs @ [(k, v)] else kvs)"

section \<open>Output text\<close>

definition NL2 :: pystr where "NL2 = [NL, NL]"

text \<open>
  \<open>compaction/tokens.py\<close>: the text of provider-shaped content.  \<open>blocks_of\<close> is LangChain's
  \<open>AIMessage(content=...).content_blocks\<close> (\<open>None\<close>: it raises).  The fuel is Python's recursion
  limit for nested \<open>message\<close> wrappers; running out of it is the \<open>RecursionError\<close>, also \<open>None\<close>.
\<close>

type_synonym blocks_fn = "json list \<Rightarrow> json list option"

definition str_or_empty :: "json option \<Rightarrow> pystr" where
  "str_or_empty j = (case j of Some (JStr s) \<Rightarrow> s | _ \<Rightarrow> [])"

fun extract_blocks :: "blocks_fn \<Rightarrow> nat \<Rightarrow> pystr \<Rightarrow> json list \<Rightarrow> pystr option"
  and extract_block :: "blocks_fn \<Rightarrow> nat \<Rightarrow> json \<Rightarrow> pystr option" where
  "extract_blocks blocks_of 0 sep bs = None"
| "extract_blocks blocks_of (Suc n) sep bs =
     (case blocks_of bs of
        None \<Rightarrow> Some []
      | Some bs' \<Rightarrow>
          map_option (\<lambda>parts. join sep (filter (\<lambda>p. p \<noteq> []) parts)) (those (map (extract_block blocks_of n) bs')))"
| "extract_block blocks_of n (JStr s) = Some s"
| "extract_block blocks_of n (JObj b) =
     (if map_of b ''type'' = Some (JStr (lit ''text'')) then Some (str_or_empty (map_of b ''text''))
      else if map_of b ''type'' = Some (JStr (lit ''non_standard'')) then
        (case map_of b ''value'' of
           Some (JObj inner) \<Rightarrow>
             if map_of inner ''type'' = Some (JStr (lit ''output_text'')) then Some (str_or_empty (map_of inner ''text''))
             else if map_of inner ''type'' = Some (JStr (lit ''message'')) then
               (case map_of inner ''content'' of
                  Some (JList nested) \<Rightarrow> (case n of 0 \<Rightarrow> None | Suc k \<Rightarrow> extract_blocks blocks_of k [] nested)
                | _ \<Rightarrow> Some [])
             else if map_of inner ''type'' = Some (JStr (lit ''thinking'')) then Some (str_or_empty (map_of inner ''thinking''))
             else Some []
         | _ \<Rightarrow> Some [])
      else Some [])"
| "extract_block blocks_of n _ = Some []"

definition extract_text_content :: "blocks_fn \<Rightarrow> nat \<Rightarrow> pystr \<Rightarrow> content \<Rightarrow> pystr option" where
  "extract_text_content blocks_of fuel sep c =
     (case c of Plain s \<Rightarrow> Some s | Blocks bs \<Rightarrow> extract_blocks blocks_of fuel sep bs)"

definition finalize_output_content :: "blocks_fn \<Rightarrow> nat \<Rightarrow> message list \<Rightarrow> pystr option" where
  "finalize_output_content blocks_of fuel ms =
     (if ms = [] then Some [] else extract_text_content blocks_of fuel NL2 (content (last ms)))"

definition terminal_output_content :: "blocks_fn \<Rightarrow> nat \<Rightarrow> json option \<Rightarrow> message list \<Rightarrow> pystr option" where
  "terminal_output_content blocks_of fuel report ms =
     (case report of
        Some (JStr r) \<Rightarrow> if strip r \<noteq> [] then Some r else finalize_output_content blocks_of fuel ms
      | _ \<Rightarrow> finalize_output_content blocks_of fuel ms)"

section \<open>Time stamps, recall tags, reweaving\<close>

definition stamp_emitted_at :: "json \<Rightarrow> message \<Rightarrow> message" where
  "stamp_emitted_at now_iso m =
     (if kwarg_true ''emitted_at'' m then m
      else m\<lparr>kwargs := AList.update ''emitted_at'' now_iso (kwargs m)\<rparr>)"

definition call_names :: "message list \<Rightarrow> (pystr \<times> pystr) list" where
  "call_names ms =
     (case find is_caller (rev ms) of
        None \<Rightarrow> []
      | Some m \<Rightarrow> rev (List.map_filter (\<lambda>c. map_option (\<lambda>i. (i, tc_name c)) (tc_id c)) (tool_calls m)))"

definition RECALL_NAME :: pystr where "RECALL_NAME = lit ''recall_tool_result''"

definition tag_recall_message :: "pystr \<Rightarrow> message \<Rightarrow> message" where
  "tag_recall_message original m =
     m\<lparr>kwargs := set_default ''original_tool_call_id'' (JStr original)
                 (set_default ''recalled'' (JBool True) (kwargs m))\<rparr>"

text \<open>A tool node returns messages and, for state updates, LangGraph commands.\<close>

datatype tool_output = Msg message | Command json

definition is_recall_output :: "message list \<Rightarrow> tool_output \<Rightarrow> bool" where
  "is_recall_output state_msgs out =
     (case out of
        Msg m \<Rightarrow> is_tool m \<and> map_of (call_names state_msgs) (tool_call_id m) = Some RECALL_NAME
      | Command _ \<Rightarrow> False)"

definition tag_output :: "tool_output \<Rightarrow> tool_output" where
  "tag_output out = (case out of Msg m \<Rightarrow> Msg (tag_recall_message (tool_call_id m) m) | Command c \<Rightarrow> Command c)"

definition tag_recall_outputs :: "message list \<Rightarrow> tool_output list \<Rightarrow> tool_output list" where
  "tag_recall_outputs state_msgs out =
     map (\<lambda>x. if is_recall_output state_msgs x then tag_output x else x) out"

definition output_call_id :: "tool_output \<Rightarrow> pystr option" where
  "output_call_id out =
     (case out of Msg m \<Rightarrow> if is_tool m then Some (tool_call_id m) else None | Command _ \<Rightarrow> None)"

fun reweave_loop :: "pystr set \<Rightarrow> tool_output list \<Rightarrow> tool_output list \<Rightarrow> tool_output list \<Rightarrow> tool_output list" where
  "reweave_loop ids [] rs os = []"
| "reweave_loop ids (m # ms) rs os =
     (if (case output_call_id m of None \<Rightarrow> False | Some i \<Rightarrow> i \<in> ids)
      then (case rs of [] \<Rightarrow> m # reweave_loop ids ms [] os | r # rs' \<Rightarrow> r # reweave_loop ids ms rs' os)
      else (case os of [] \<Rightarrow> m # reweave_loop ids ms rs [] | x # os' \<Rightarrow> x # reweave_loop ids ms rs os'))"

definition reweave_messages :: "tool_output list \<Rightarrow> tool_output list \<Rightarrow> tool_output list \<Rightarrow> tool_output list" where
  "reweave_messages original recalls others =
     reweave_loop (set (List.map_filter output_call_id recalls)) original recalls others"

definition offload_step_index :: "message list \<Rightarrow> nat" where
  "offload_step_index ms = length ms"

definition WEB_SOURCE_TOOLS :: "pystr list" where
  "WEB_SOURCE_TOOLS = [lit ''web_search'', lit ''read_url'']"

definition filter_subagent_source_tools :: "pystr list \<Rightarrow> pystr list option \<Rightarrow> pystr list" where
  "filter_subagent_source_tools allowed allowlist =
     (case allowlist of
        None \<Rightarrow> allowed
      | Some [] \<Rightarrow> allowed
      | Some l \<Rightarrow> filter (\<lambda>t. t \<notin> set WEB_SOURCE_TOOLS \<or> t \<in> set l) allowed)"

section \<open>Lemmas\<close>

lemma reweave_loop_partition:
  assumes "\<And>x. x \<in> set ms \<Longrightarrow> P x \<longleftrightarrow> (case output_call_id x of None \<Rightarrow> False | Some i \<Rightarrow> i \<in> ids)"
    and "length rs = length (filter P ms)" "length os = length (filter (\<lambda>x. \<not> P x) ms)"
  shows "length (reweave_loop ids ms rs os) = length ms
    \<and> filter fst (zip (map P ms) (reweave_loop ids ms rs os)) = map (Pair True) rs
    \<and> filter (\<lambda>y. \<not> fst y) (zip (map P ms) (reweave_loop ids ms rs os)) = map (Pair False) os"
  using assms
proof (induction ids ms rs os rule: reweave_loop.induct)
  case (2 ids m ms rs os)
  show ?case
  proof (cases "P m")
    case True
    then obtain r rs' where rs: "rs = r # rs'" using "2.prems"(2) by (cases rs) auto
    with True "2.prems" "2.IH"(2) [OF _ rs] show ?thesis by auto
  next
    case False
    then obtain x os' where os: "os = x # os'" using "2.prems"(3) by (cases os) auto
    with False "2.prems" "2.IH"(4) [OF _ os] show ?thesis by auto
  qed
qed simp

lemma output_call_id_tag [simp]: "output_call_id (tag_output x) = output_call_id x"
  by (simp add: output_call_id_def tag_output_def tag_recall_message_def is_tool_def split: tool_output.split)

end
