(* ===== verification/Digest.thy ===== *)
theory Digest
  imports Text "HOL-Library.Word"
begin

text \<open>
  SHA-256 and SHA-1 (\<open>hashlib.sha256(...).hexdigest()\<close>, \<open>hashlib.sha1(...).hexdigest()\<close>), on
  32-bit words with wrap-around.  The worker uses the first as the content hash of an offloaded
  tool result, and eight digits of the second in the id of a research finding.
\<close>

unbundle bit_operations_syntax

text \<open>
  The constants by their definition: the first 32 fractional bits of the square roots of the first
  8 primes, and of the cube roots of the first 64.  The roots below are integer roots, found bit
  by bit; 35 bits hold them, as no root is 8 or more.
\<close>

definition small_primes :: "nat list" where
  "small_primes = [
    2, 3, 5, 7, 11, 13, 17, 19, 23, 29, 31, 37, 41, 43, 47, 53, 59, 61, 67, 71, 73, 79,
    83, 89, 97, 101, 103, 107, 109, 113, 127, 131, 137, 139, 149, 151, 157, 163, 167, 173,
    179, 181, 191, 193, 197, 199, 211, 223, 227, 229, 233, 239, 241, 251, 257, 263, 269,
    271, 277, 281, 283, 293, 307, 311]"

primrec root_bits :: "nat \<Rightarrow> nat \<Rightarrow> nat \<Rightarrow> nat \<Rightarrow> nat" where
  "root_bits k n 0 r = r"
| "root_bits k n (Suc i) r = root_bits k n i (if (r + 2 ^ i) ^ k \<le> n then r + 2 ^ i else r)"

definition root_fraction :: "nat \<Rightarrow> nat \<Rightarrow> 32 word" where
  "root_fraction k p = of_nat (root_bits k (p * 2 ^ (32 * k)) 35 0)"

definition sha_init :: "32 word list" where
  "sha_init = map (root_fraction 2) (take 8 small_primes)"

definition sha_k :: "32 word list" where
  "sha_k = map (root_fraction 3) (take 64 small_primes)"

definition big_sigma0 :: "32 word \<Rightarrow> 32 word" where
  "big_sigma0 x = word_rotr 2 x XOR word_rotr 13 x XOR word_rotr 22 x"

definition big_sigma1 :: "32 word \<Rightarrow> 32 word" where
  "big_sigma1 x = word_rotr 6 x XOR word_rotr 11 x XOR word_rotr 25 x"

definition small_sigma0 :: "32 word \<Rightarrow> 32 word" where
  "small_sigma0 x = word_rotr 7 x XOR word_rotr 18 x XOR drop_bit 3 x"

definition small_sigma1 :: "32 word \<Rightarrow> 32 word" where
  "small_sigma1 x = word_rotr 17 x XOR word_rotr 19 x XOR drop_bit 10 x"

definition be_bytes :: "nat \<Rightarrow> nat \<Rightarrow> nat list" where
  "be_bytes k n = map (\<lambda>i. n div 256 ^ (k - 1 - i) mod 256) [0..<k]"

definition sha_pad :: "nat list \<Rightarrow> nat list" where
  "sha_pad bs = bs @ [128] @ replicate ((119 - length bs mod 64) mod 64) 0 @ be_bytes 8 (8 * length bs)"

fun be_words :: "nat list \<Rightarrow> 32 word list" where
  "be_words (a # b # c # d # bs) = of_nat (((a * 256 + b) * 256 + c) * 256 + d) # be_words bs"
| "be_words _ = []"

text \<open>The message schedule, held newest first while it grows.\<close>

fun sha_extend :: "nat \<Rightarrow> 32 word list \<Rightarrow> 32 word list" where
  "sha_extend 0 ws = ws"
| "sha_extend (Suc n) ws =
     sha_extend n ((small_sigma1 (ws ! 1) + ws ! 6 + small_sigma0 (ws ! 14) + ws ! 15) # ws)"

fun sha_round :: "32 word list \<Rightarrow> 32 word \<times> 32 word \<Rightarrow> 32 word list" where
  "sha_round [a, b, c, d, e, f, g, h] (k, w) =
     (let t1 = h + big_sigma1 e + ((e AND f) XOR (NOT e AND g)) + k + w;
          t2 = big_sigma0 a + ((a AND b) XOR (a AND c) XOR (b AND c))
      in [t1 + t2, a, b, c, d + t1, e, f, g])"
| "sha_round hs _ = hs"

definition sha_block :: "32 word list \<Rightarrow> nat list \<Rightarrow> 32 word list" where
  "sha_block hs block =
     map2 (+) hs (foldl sha_round hs (zip sha_k (rev (sha_extend 48 (rev (be_words block))))))"

function sha_blocks :: "32 word list \<Rightarrow> nat list \<Rightarrow> 32 word list" where
  "sha_blocks hs bs = (if length bs < 64 then hs else sha_blocks (sha_block hs (take 64 bs)) (drop 64 bs))"
  by pat_completeness auto
termination by (relation "measure (length \<circ> snd)") auto

declare sha_blocks.simps [simp del]

definition hex_word :: "32 word \<Rightarrow> pystr" where
  "hex_word w = map (\<lambda>i. hex_digit (unat w div 16 ^ (7 - i) mod 16)) [0..<8]"

definition sha256_hex :: "nat list \<Rightarrow> pystr" where
  "sha256_hex bs = concat (map hex_word (sha_blocks sha_init (sha_pad bs)))"

section \<open>SHA-1\<close>

text \<open>Its padding and byte order are those of SHA-256; the schedule is held newest first.\<close>

definition sha1_init :: "32 word list" where
  "sha1_init = [0x67452301, 0xEFCDAB89, 0x98BADCFE, 0x10325476, 0xC3D2E1F0]"

fun sha1_extend :: "nat \<Rightarrow> 32 word list \<Rightarrow> 32 word list" where
  "sha1_extend 0 ws = ws"
| "sha1_extend (Suc n) ws =
     sha1_extend n (word_rotl 1 ((ws ! 2) XOR (ws ! 7) XOR (ws ! 13) XOR (ws ! 15)) # ws)"

definition sha1_mix :: "nat \<Rightarrow> 32 word \<Rightarrow> 32 word \<Rightarrow> 32 word \<Rightarrow> 32 word" where
  "sha1_mix t b c d =
     (if t < 20 then ((b AND c) OR (NOT b AND d)) + 0x5A827999
      else if t < 40 then (b XOR c XOR d) + 0x6ED9EBA1
      else if t < 60 then ((b AND c) OR (b AND d) OR (c AND d)) + 0x8F1BBCDC
      else (b XOR c XOR d) + 0xCA62C1D6)"

fun sha1_round :: "32 word list \<Rightarrow> nat \<times> 32 word \<Rightarrow> 32 word list" where
  "sha1_round [a, b, c, d, e] (t, w) = [word_rotl 5 a + sha1_mix t b c d + e + w, a, word_rotl 30 b, c, d]"
| "sha1_round hs _ = hs"

definition sha1_block :: "32 word list \<Rightarrow> nat list \<Rightarrow> 32 word list" where
  "sha1_block hs block =
     map2 (+) hs (foldl sha1_round hs (zip [0..<80] (rev (sha1_extend 64 (rev (be_words block))))))"

function sha1_blocks :: "32 word list \<Rightarrow> nat list \<Rightarrow> 32 word list" where
  "sha1_blocks hs bs = (if length bs < 64 then hs else sha1_blocks (sha1_block hs (take 64 bs)) (drop 64 bs))"
  by pat_completeness auto
termination by (relation "measure (length \<circ> snd)") auto

declare sha1_blocks.simps [simp del]

definition sha1_hex :: "nat list \<Rightarrow> pystr" where
  "sha1_hex bs = concat (map hex_word (sha1_blocks sha1_init (sha_pad bs)))"

section \<open>Shape of a digest\<close>

definition is_hex :: "nat \<Rightarrow> bool" where
  "is_hex c \<longleftrightarrow> 48 \<le> c \<and> c \<le> 57 \<or> 97 \<le> c \<and> c \<le> 102"

lemma sha_round_length: "length (sha_round hs kw) = length hs"
  by (cases "(hs, kw)" rule: sha_round.cases) (auto simp: Let_def)

lemma foldl_sha_round_length: "length (foldl sha_round hs kws) = length hs"
  by (induction kws arbitrary: hs) (auto simp: sha_round_length)

lemma sha_blocks_length: "length (sha_blocks hs bs) = length hs"
proof (induction hs bs rule: sha_blocks.induct)
  case (1 hs bs)
  then show ?case
    by (subst sha_blocks.simps) (auto simp: sha_block_def foldl_sha_round_length)
qed

lemma hex_word_shape: "length (hex_word w) = 8 \<and> list_all is_hex (hex_word w)"
proof -
  have "is_hex (hex_digit (n mod 16))" for n
    using mod_less_divisor [of 16 n] by (auto simp: is_hex_def hex_digit_def)
  then show ?thesis by (auto simp: hex_word_def list_all_iff)
qed

lemma sha256_hex_shape: "length (sha256_hex bs) = 64 \<and> list_all is_hex (sha256_hex bs)"
proof -
  have "sum_list (map (length \<circ> hex_word) ws) = 8 * length ws" for ws
    by (induction ws) (auto simp: hex_word_shape)
  then show ?thesis
    using hex_word_shape
    by (auto simp: sha256_hex_def length_concat sha_blocks_length sha_init_def small_primes_def list_all_iff)
qed


lemma sha1_round_length: "length (sha1_round hs tw) = length hs"
  by (cases "(hs, tw)" rule: sha1_round.cases) auto

lemma foldl_sha1_round_length: "length (foldl sha1_round hs tws) = length hs"
  by (induction tws arbitrary: hs) (auto simp: sha1_round_length)

lemma sha1_blocks_length: "length (sha1_blocks hs bs) = length hs"
proof (induction hs bs rule: sha1_blocks.induct)
  case (1 hs bs)
  then show ?case
    by (subst sha1_blocks.simps) (auto simp: sha1_block_def foldl_sha1_round_length)
qed

lemma sha1_hex_shape: "length (sha1_hex bs) = 40 \<and> list_all is_hex (sha1_hex bs)"
proof -
  have "sum_list (map (length \<circ> hex_word) ws) = 8 * length ws" for ws
    by (induction ws) (auto simp: hex_word_shape)
  then show ?thesis
    using hex_word_shape
    by (auto simp: sha1_hex_def length_concat sha1_blocks_length sha1_init_def list_all_iff)
qed

end
