(* ===== verification/ToolResults.thy ===== *)
theory ToolResults
  imports Digest "HOL-Library.AList"
begin

text \<open>
  \<open>executor/compaction/tool_result_store.py\<close> and
  \<open>executor/builtin_tools/recall_tool_result.py\<close>: the \<open>toolresult://\<close> URIs, the in-memory and
  the S3 store of offloaded contents, and the tool with which the agent reads one back.  The
  two stores share the contract \<open>artifact_store\<close>, and the recall lemmas are proved over it.
  A bucket is a list of objects in the order in which the service lists them; a
  call that raises is \<open>None\<close>.  Texts hold no lone surrogates (encoding them raises).
\<close>

section \<open>URIs\<close>

record uri =
  u_tenant :: pystr
  u_task :: pystr
  u_call :: pystr
  u_hash :: pystr
  u_arg :: "pystr option"

definition SLASH :: nat where "SLASH = 47"

definition URI_SCHEME :: pystr where "URI_SCHEME = lit ''toolresult://''"

definition TXT :: pystr where "TXT = lit ''.txt''"

definition to_key :: "uri \<Rightarrow> pystr" where
  "to_key u =
     (let base = join [SLASH] [u_tenant u, u_task u, u_call u] in
      case u_arg u of
        None \<Rightarrow> join [SLASH] [base, u_hash u @ TXT]
      | Some k \<Rightarrow> join [SLASH] [base, lit ''args'', k, u_hash u @ TXT])"

definition to_uri :: "uri \<Rightarrow> pystr" where
  "to_uri u = URI_SCHEME @ to_key u"

definition hash_content :: "pystr \<Rightarrow> pystr" where
  "hash_content c = take 12 (sha256_hex (utf8 c))"

definition build_uri :: "pystr \<Rightarrow> pystr \<Rightarrow> pystr \<Rightarrow> pystr option \<Rightarrow> pystr \<Rightarrow> uri option" where
  "build_uri tn tk call arg c =
     (if tn = [] \<or> tk = [] \<or> call = [] \<or> arg = Some [] then None
      else Some \<lparr>u_tenant = tn, u_task = tk, u_call = call, u_hash = hash_content c, u_arg = arg\<rparr>)"

text \<open>\<open>^[0-9a-f]{12}$\<close> with \<open>re.match\<close>: the \<open>$\<close> also matches before a final newline.\<close>

definition content_hash_re :: "pystr \<Rightarrow> bool" where
  "content_hash_re h \<longleftrightarrow>
     list_all is_hex (take 12 h) \<and> (length h = 12 \<or> length h = 13 \<and> last h = NL)"

definition parse_tool_result_uri :: "pystr \<Rightarrow> uri option" where
  "parse_tool_result_uri s =
     (if \<not> startswith URI_SCHEME s then None
      else
        let parts = split_char SLASH (drop (length URI_SCHEME) s);
            named = (\<lambda>arg filename.
              if \<not> endswith TXT filename then None
              else let h = take (length filename - 4) filename in
                if content_hash_re h
                then Some \<lparr>u_tenant = parts ! 0, u_task = parts ! 1, u_call = parts ! 2, u_hash = h, u_arg = arg\<rparr>
                else None)
        in if length parts \<noteq> 4 \<and> length parts \<noteq> 6 then None
           else if parts ! 0 = [] \<or> parts ! 1 = [] \<or> parts ! 2 = [] then None
           else if length parts = 4 then named None (parts ! 3)
           else if parts ! 3 \<noteq> lit ''args'' then None
           else if parts ! 4 = [] then None
           else named (Some (parts ! 4)) (parts ! 5))"

section \<open>Stores\<close>

type_synonym mem_store = "(pystr \<times> pystr) list"

definition mem_put ::
  "pystr \<Rightarrow> pystr \<Rightarrow> pystr \<Rightarrow> pystr option \<Rightarrow> pystr \<Rightarrow> mem_store \<Rightarrow> (pystr \<times> mem_store) option" where
  "mem_put tn tk call arg c st =
     (case build_uri tn tk call arg c of
        None \<Rightarrow> None
      | Some u \<Rightarrow> Some (to_uri u, AList.update (to_uri u) c st))"

definition mem_get :: "pystr \<Rightarrow> mem_store \<Rightarrow> pystr option option" where
  "mem_get s st = (if parse_tool_result_uri s = None then None else Some (map_of st s))"

definition mem_list_keys :: "pystr \<Rightarrow> mem_store \<Rightarrow> pystr list" where
  "mem_list_keys p st =
     map (drop (length URI_SCHEME)) (filter (startswith (URI_SCHEME @ p)) (map fst st))"

type_synonym bucket = "(pystr \<times> nat list) list"

datatype s3_error = MissingKey | OtherS3Error

definition s3_download :: "pystr \<Rightarrow> bucket \<Rightarrow> s3_error + nat list" where
  "s3_download k b = (case map_of b k of None \<Rightarrow> Inl MissingKey | Some d \<Rightarrow> Inr d)"

definition s3_put ::
  "pystr \<Rightarrow> pystr \<Rightarrow> pystr \<Rightarrow> pystr option \<Rightarrow> pystr \<Rightarrow> bucket \<Rightarrow> (pystr \<times> bucket) option" where
  "s3_put tn tk call arg c b =
     (case build_uri tn tk call arg c of
        None \<Rightarrow> None
      | Some u \<Rightarrow> Some (to_uri u, AList.update (to_key u) (utf8 c) b))"

definition s3_get :: "pystr \<Rightarrow> bucket \<Rightarrow> pystr option option" where
  "s3_get s b =
     (case parse_tool_result_uri s of
        None \<Rightarrow> None
      | Some u \<Rightarrow>
          (case s3_download (to_key u) b of
             Inl MissingKey \<Rightarrow> Some None
           | Inl OtherS3Error \<Rightarrow> None
           | Inr d \<Rightarrow> map_option Some (utf8_decode d)))"

definition s3_list_keys :: "pystr \<Rightarrow> bucket \<Rightarrow> pystr list" where
  "s3_list_keys p b = filter (startswith p) (map fst b)"

section \<open>The recall tool\<close>

definition ERROR_MALFORMED :: pystr where
  "ERROR_MALFORMED = lit ''Error: not a valid tool result id''"
definition ERROR_CROSS_TASK :: pystr where
  "ERROR_CROSS_TASK = lit ''Error: tool_call_id belongs to a different task or tenant''"
definition ERROR_PURGED :: pystr where
  "ERROR_PURGED = lit ''Error: content not available (artifact may have been purged)''"
definition ERROR_TRANSIENT :: pystr where
  "ERROR_TRANSIENT = lit ''Error: artifact store temporarily unavailable; retry or continue without this content''"
definition ERROR_AMBIGUOUS :: pystr where
  "ERROR_AMBIGUOUS = lit ''Error: ambiguous tool_call_id '' @ [8212] @
     lit '' multiple offloaded versions exist; retry with a fresher tool_call_id from a recent placeholder''"
definition ERROR_NO_HASH :: pystr where
  "ERROR_NO_HASH = lit ''Error: no offloaded content found for this tool_call_id (it may not have been offloaded, or has already been purged)''"

definition prefix_for :: "pystr \<Rightarrow> pystr \<Rightarrow> pystr \<Rightarrow> pystr option \<Rightarrow> pystr" where
  "prefix_for tn tk call arg =
     (let base = join [SLASH] [tn, tk, call] in
      case arg of
        None \<Rightarrow> base @ [SLASH]
      | Some k \<Rightarrow> join [SLASH] [base, lit ''args'', k] @ [SLASH])"

definition dedup :: "'a list \<Rightarrow> 'a list" where
  "dedup xs = rev (remdups (rev xs))"

definition key_hashes :: "pystr list \<Rightarrow> pystr list" where
  "key_hashes ks =
     map (\<lambda>leaf. take (length leaf - 4) leaf)
       (filter (endswith TXT) (map (\<lambda>k. last (split_char SLASH k)) ks))"

definition single_hash_from_keys :: "pystr list \<Rightarrow> pystr option \<times> nat" where
  "single_hash_from_keys ks =
     (case dedup (key_hashes ks) of
        [] \<Rightarrow> (None, 0)
      | [h] \<Rightarrow> (Some h, 1)
      | hs \<Rightarrow> (None, length hs))"

definition MAX_AVAILABLE_ENTRIES :: nat where "MAX_AVAILABLE_ENTRIES = 20"

fun offloaded_entries :: "pystr \<Rightarrow> nat \<Rightarrow> (pystr \<times> pystr option) list \<Rightarrow> pystr list \<Rightarrow> (pystr \<times> pystr option) list" where
  "offloaded_entries prefix limit found [] = found"
| "offloaded_entries prefix limit found (k # ks) =
     (let rel = (if startswith prefix k then drop (length prefix) k else k);
          parts = split_char SLASH rel
      in if length parts < 2 then offloaded_entries prefix limit found ks
         else let e = (parts ! 0, if length parts \<ge> 4 \<and> parts ! 1 = lit ''args'' then Some (parts ! 2) else None)
           in if e \<in> set found then offloaded_entries prefix limit found ks
              else if length (found @ [e]) \<ge> limit then found @ [e]
              else offloaded_entries prefix limit (found @ [e]) ks)"

definition list_task_offloaded_entries ::
  "(pystr \<Rightarrow> pystr list option) \<Rightarrow> pystr \<Rightarrow> pystr \<Rightarrow> (pystr \<times> pystr option) list" where
  "list_task_offloaded_entries list_keys tn tk =
     (let prefix = join [SLASH] [tn, tk] @ [SLASH] in
      case list_keys prefix of
        None \<Rightarrow> []
      | Some ks \<Rightarrow> offloaded_entries prefix MAX_AVAILABLE_ENTRIES [] ks)"

definition arg_suffix :: "(nat \<Rightarrow> bool) \<Rightarrow> pystr option \<Rightarrow> pystr" where
  "arg_suffix printable arg =
     (case arg of None \<Rightarrow> []
      | Some k \<Rightarrow> if k = [] then [] else lit '', arg_key='' @ repr printable k)"

definition render_no_hash ::
  "(nat \<Rightarrow> bool) \<Rightarrow> pystr \<Rightarrow> pystr option \<Rightarrow> (pystr \<times> pystr option) list \<Rightarrow> pystr" where
  "render_no_hash printable call arg available =
     (if available = [] then ERROR_NO_HASH
      else join [NL]
        ([ERROR_NO_HASH,
          lit ''You supplied tool_call_id='' @ repr printable call @ arg_suffix printable arg @ lit ''.'',
          lit ''Available offloaded entries in this task:''] @
         map (\<lambda>(c, k). lit ''  - tool_call_id='' @ repr printable c @ arg_suffix printable k) available))"

definition clean_arg_key :: "pystr option \<Rightarrow> pystr option" where
  "clean_arg_key arg =
     (case arg of None \<Rightarrow> None | Some k \<Rightarrow> if strip k = [] then None else Some (strip k))"

definition resolve_and_fetch ::
  "(nat \<Rightarrow> bool) \<Rightarrow> (pystr \<Rightarrow> pystr list option) \<Rightarrow> (pystr \<Rightarrow> pystr option option)
   \<Rightarrow> pystr \<Rightarrow> pystr \<Rightarrow> pystr \<Rightarrow> pystr option \<Rightarrow> pystr" where
  "resolve_and_fetch printable list_keys get tn tk raw_call raw_arg =
     (let call = strip raw_call; arg = clean_arg_key raw_arg in
      if call = [] then ERROR_MALFORMED
      else case list_keys (prefix_for tn tk call arg) of
        None \<Rightarrow> ERROR_TRANSIENT
      | Some ks \<Rightarrow>
          let (h, count) = single_hash_from_keys ks in
          if count = 0 then render_no_hash printable call arg (list_task_offloaded_entries list_keys tn tk)
          else case h of
            None \<Rightarrow> ERROR_AMBIGUOUS
          | Some hash \<Rightarrow>
              let u = to_uri \<lparr>u_tenant = tn, u_task = tk, u_call = call, u_hash = hash, u_arg = arg\<rparr> in
              (case parse_tool_result_uri u of
                 None \<Rightarrow> ERROR_MALFORMED
               | Some p \<Rightarrow>
                   if u_tenant p \<noteq> tn \<or> u_task p \<noteq> tk then ERROR_CROSS_TASK
                   else case get u of
                     None \<Rightarrow> ERROR_TRANSIENT
                   | Some None \<Rightarrow> ERROR_PURGED
                   | Some (Some c) \<Rightarrow> c))"

section \<open>Lemmas: URIs\<close>

definition part_ok :: "pystr \<Rightarrow> bool" where
  "part_ok x \<longleftrightarrow> x \<noteq> [] \<and> SLASH \<notin> set x"

definition wf_uri :: "uri \<Rightarrow> bool" where
  "wf_uri u \<longleftrightarrow> part_ok (u_tenant u) \<and> part_ok (u_task u) \<and> part_ok (u_call u)
     \<and> (case u_arg u of None \<Rightarrow> True | Some k \<Rightarrow> part_ok k) \<and> content_hash_re (u_hash u)"

lemma SLASH_simps [simp]: "SLASH \<notin> set (lit ''args'')" "SLASH \<notin> set TXT"
  by (simp_all add: SLASH_def TXT_def lit_def)

lemma content_hash_no_slash: "content_hash_re h \<Longrightarrow> SLASH \<notin> set h"
proof
  assume h: "content_hash_re h" and s: "SLASH \<in> set h"
  have "h = take 12 h @ drop 12 h" by simp
  moreover have "SLASH \<notin> set (take 12 h)"
    using h by (auto simp: content_hash_re_def list_all_iff is_hex_def SLASH_def)
  ultimately have d: "SLASH \<in> set (drop 12 h)" using s by (metis UnE set_append)
  then have "length h = 13" using h by (auto simp: content_hash_re_def)
  then have "drop 12 h = [last h]" by (cases h rule: rev_cases) auto
  with d have "last h = SLASH" by simp
  with h \<open>length h = 13\<close> show False by (simp add: content_hash_re_def NL_def SLASH_def)
qed

lemma split_to_key:
  assumes "wf_uri u"
  shows "split_char SLASH (to_key u) =
    (case u_arg u of
       None \<Rightarrow> [u_tenant u, u_task u, u_call u, u_hash u @ TXT]
     | Some k \<Rightarrow> [u_tenant u, u_task u, u_call u, lit ''args'', k, u_hash u @ TXT])"
proof -
  have "SLASH \<notin> set (u_hash u @ TXT)"
    using assms content_hash_no_slash by (simp add: wf_uri_def)
  then show ?thesis
    using assms by (auto simp: to_key_def wf_uri_def part_ok_def split_char_append split_char_fresh
        simp del: set_append split: option.splits)
qed

lemma TXT_simps: "length TXT = 4" "take (length (h @ TXT) - 4) (h @ TXT) = h"
  by (simp_all add: TXT_def)

lemma parse_to_uri: "wf_uri u \<Longrightarrow> parse_tool_result_uri (to_uri u) = Some u"
  by (cases "u_arg u")
    (auto simp: parse_tool_result_uri_def to_uri_def split_to_key Let_def TXT_simps wf_uri_def part_ok_def)

lemma endswith_TXT: "endswith TXT f \<Longrightarrow> take (length f - 4) f @ TXT = f"
proof -
  assume "endswith TXT f"
  then have "rev f = rev TXT @ drop 4 (rev f)"
    unfolding endswith_def startswith_def by (metis append_take_drop_id length_rev TXT_simps(1))
  then have "f = rev (drop 4 (rev f)) @ TXT" by (metis rev_append rev_rev_ident)
  then show ?thesis by (simp add: rev_drop)
qed

lemma length_4_6:
  "length xs = 4 \<Longrightarrow> xs = [xs ! 0, xs ! 1, xs ! 2, xs ! 3]"
  "length xs = 6 \<Longrightarrow> xs = [xs ! 0, xs ! 1, xs ! 2, xs ! 3, xs ! 4, xs ! 5]"
  by (auto simp: numeral_eq_Suc length_Suc_conv)

lemma split_char_parts: "x \<in> set (split_char c s) \<Longrightarrow> c \<notin> set x"
proof (induction c s arbitrary: x rule: split_char.induct)
  case (2 c y s)
  then show ?case by (cases "split_char c s") (auto split: if_splits)
qed simp

lemma parse_sound:
  assumes "parse_tool_result_uri s = Some u"
  shows "s = to_uri u \<and> wf_uri u"
proof -
  let ?path = "drop (length URI_SCHEME) s"
  let ?parts = "split_char SLASH ?path"
  have sch: "s = URI_SCHEME @ ?path"
    using assms by (auto simp: parse_tool_result_uri_def startswith_def split: if_splits) (metis append_take_drop_id)
  have path: "?path = join [SLASH] ?parts" by (simp add: join_split_char)
  have noslash: "SLASH \<notin> set x" if "x \<in> set ?parts" for x using split_char_parts that by metis
  have "length ?parts = 4 \<or> length ?parts = 6"
    using assms by (auto simp: parse_tool_result_uri_def Let_def split: if_splits)
  then show ?thesis
  proof
    assume l: "length ?parts = 4"
    have u: "u = \<lparr>u_tenant = ?parts ! 0, u_task = ?parts ! 1, u_call = ?parts ! 2,
        u_hash = take (length (?parts ! 3) - 4) (?parts ! 3), u_arg = None\<rparr>" "endswith TXT (?parts ! 3)"
      "content_hash_re (u_hash u)" "?parts ! 0 \<noteq> []" "?parts ! 1 \<noteq> []" "?parts ! 2 \<noteq> []"
      using assms l by (auto simp: parse_tool_result_uri_def Let_def split: if_splits)
    have "?path = join [SLASH] [?parts ! 0, ?parts ! 1, ?parts ! 2, ?parts ! 3]"
      using path length_4_6(1) [OF l] by metis
    then have "s = to_uri u" using sch u endswith_TXT [OF u(2)] by (simp add: to_uri_def to_key_def)
    moreover have "SLASH \<notin> set (?parts ! 0)" "SLASH \<notin> set (?parts ! 1)" "SLASH \<notin> set (?parts ! 2)"
      using l by (auto intro!: noslash)
    ultimately show ?thesis using u by (simp add: wf_uri_def part_ok_def)
  next
    assume l: "length ?parts = 6"
    have u: "u = \<lparr>u_tenant = ?parts ! 0, u_task = ?parts ! 1, u_call = ?parts ! 2,
        u_hash = take (length (?parts ! 5) - 4) (?parts ! 5), u_arg = Some (?parts ! 4)\<rparr>" "endswith TXT (?parts ! 5)"
      "content_hash_re (u_hash u)" "?parts ! 0 \<noteq> []" "?parts ! 1 \<noteq> []" "?parts ! 2 \<noteq> []" "?parts ! 4 \<noteq> []"
      "?parts ! 3 = lit ''args''"
      using assms l by (auto simp: parse_tool_result_uri_def Let_def split: if_splits)
    have "?path = join [SLASH] [?parts ! 0, ?parts ! 1, ?parts ! 2, ?parts ! 3, ?parts ! 4, ?parts ! 5]"
      using path length_4_6(2) [OF l] by metis
    then have "s = to_uri u" using sch u endswith_TXT [OF u(2)] by (simp add: to_uri_def to_key_def)
    moreover have "SLASH \<notin> set (?parts ! 0)" "SLASH \<notin> set (?parts ! 1)" "SLASH \<notin> set (?parts ! 2)" "SLASH \<notin> set (?parts ! 4)"
      using l by (auto intro!: noslash)
    ultimately show ?thesis using u by (simp add: wf_uri_def part_ok_def)
  qed
qed

lemma parse_iff: "parse_tool_result_uri s = Some u \<longleftrightarrow> s = to_uri u \<and> wf_uri u"
  using parse_sound parse_to_uri by blast

lemma hash_content_re: "content_hash_re (hash_content c) \<and> length (hash_content c) = 12"
  using sha256_hex_shape [of "utf8 c"]
  by (auto simp: hash_content_def content_hash_re_def list_all_iff dest: in_set_takeD)

lemma build_uri_wf:
  assumes "build_uri tn tk call arg c = Some u"
    and "SLASH \<notin> set tn" "SLASH \<notin> set tk" "SLASH \<notin> set call" "\<forall>k. arg = Some k \<longrightarrow> SLASH \<notin> set k"
  shows "wf_uri u"
  using assms hash_content_re
  by (auto simp: build_uri_def wf_uri_def part_ok_def split: if_splits option.splits)

lemma to_key_inj: "wf_uri u \<Longrightarrow> wf_uri v \<Longrightarrow> to_key u = to_key v \<Longrightarrow> u = v"
  using parse_to_uri by (metis option.inject to_uri_def)

section \<open>The contract of a store, and recall over it\<close>

definition scoped :: "pystr \<Rightarrow> pystr \<Rightarrow> pystr \<Rightarrow> pystr option \<Rightarrow> bool" where
  "scoped tn tk call arg \<longleftrightarrow> part_ok tn \<and> part_ok tk \<and> part_ok call \<and> strip call = call
     \<and> (case arg of None \<Rightarrow> True | Some k \<Rightarrow> part_ok k \<and> strip k = k)"

definition uri_of :: "pystr \<Rightarrow> pystr \<Rightarrow> pystr \<Rightarrow> pystr option \<Rightarrow> pystr \<Rightarrow> uri" where
  "uri_of tn tk call arg c =
     \<lparr>u_tenant = tn, u_task = tk, u_call = call, u_hash = hash_content c, u_arg = arg\<rparr>"

lemma scoped_uri:
  assumes "scoped tn tk call arg"
  shows "build_uri tn tk call arg c = Some (uri_of tn tk call arg c)" "wf_uri (uri_of tn tk call arg c)"
proof -
  show b: "build_uri tn tk call arg c = Some (uri_of tn tk call arg c)"
    using assms by (auto simp: scoped_def part_ok_def build_uri_def uri_of_def split: option.splits)
  show "wf_uri (uri_of tn tk call arg c)"
    using assms by (intro build_uri_wf [OF b]) (auto simp: scoped_def part_ok_def)
qed

lemma set_dedup [simp]: "set (dedup xs) = set xs" and distinct_dedup: "distinct (dedup xs)"
  by (simp_all add: dedup_def)

lemma dedup_single: "set xs = {x} \<Longrightarrow> dedup xs = [x]"
  using set_dedup [of xs] distinct_dedup [of xs]
  by (metis card.empty card_insert_disjoint distinct_card empty_iff finite.emptyI insertCI length_Suc_conv
      length_0_conv list.set_intros(1) singletonD)

lemma set_key_hashes:
  assumes "\<And>u. u \<in> U \<Longrightarrow> wf_uri u" "set ks = to_key ` U"
  shows "set (key_hashes ks) = u_hash ` U"
proof -
  have leaf: "last (split_char SLASH (to_key u)) = u_hash u @ TXT" if "u \<in> U" for u
    using split_to_key [OF assms(1) [OF that]] by (simp split: option.splits)
  have leaves: "(\<lambda>k. last (split_char SLASH k)) ` set ks = (\<lambda>u. u_hash u @ TXT) ` U"
    unfolding assms(2) image_image using leaf by (rule image_cong [OF refl])
  have "set (key_hashes ks) =
      (\<lambda>f. take (length f - 4) f) ` {f \<in> (\<lambda>k. last (split_char SLASH k)) ` set ks. endswith TXT f}"
    by (simp only: key_hashes_def set_map set_filter)
  also have "\<dots> = (\<lambda>f. take (length f - 4) f) ` {f \<in> (\<lambda>u. u_hash u @ TXT) ` U. endswith TXT f}"
    unfolding leaves ..
  also have "{f \<in> (\<lambda>u. u_hash u @ TXT) ` U. endswith TXT f} = (\<lambda>u. u_hash u @ TXT) ` U"
    by (auto simp del: append_assoc)
  also have "(\<lambda>f. take (length f - 4) f) ` ((\<lambda>u. u_hash u @ TXT) ` U) = u_hash ` U"
    by (simp only: image_image TXT_simps(2))
  finally show ?thesis .
qed

lemma prefix_of_key: "startswith (prefix_for (u_tenant u) (u_task u) (u_call u) (u_arg u)) (to_key u)"
  by (rule startswithI [where t = "u_hash u @ TXT"])
    (auto simp: prefix_for_def to_key_def Let_def split: option.splits)

lemma result_prefix_of_arg_key: "startswith (prefix_for (u_tenant u) (u_task u) (u_call u) None) (to_key u)"
  by (rule startswithI [where t = "(case u_arg u of None \<Rightarrow> [] | Some k \<Rightarrow> join [SLASH] [lit ''args'', k] @ [SLASH]) @ u_hash u @ TXT"])
    (auto simp: prefix_for_def to_key_def Let_def split: option.splits)

lemma takeWhile_part: "SLASH \<notin> set x \<Longrightarrow> takeWhile (\<lambda>c. c \<noteq> SLASH) (x @ SLASH # t) = x"
  by (induction x) auto

lemma other_call_key:
  assumes "SLASH \<notin> set call" "SLASH \<notin> set call'" "call \<noteq> call'"
  shows "\<not> startswith (prefix_for tn tk call None)
    (to_key \<lparr>u_tenant = tn, u_task = tk, u_call = call', u_hash = h, u_arg = arg\<rparr>)"
proof
  assume "startswith (prefix_for tn tk call None)
    (to_key \<lparr>u_tenant = tn, u_task = tk, u_call = call', u_hash = h, u_arg = arg\<rparr>)"
  then obtain t where "to_key \<lparr>u_tenant = tn, u_task = tk, u_call = call', u_hash = h, u_arg = arg\<rparr>
      = prefix_for tn tk call None @ t"
    by (auto simp: startswith_iff)
  then have "\<exists>t t'. call' @ SLASH # t' = call @ SLASH # t"
    by (auto simp: to_key_def prefix_for_def Let_def split: option.splits)
  then show False using takeWhile_part [OF assms(1)] takeWhile_part [OF assms(2)] assms(3) by metis
qed

locale artifact_store =
  fixes store_put :: "pystr \<Rightarrow> pystr \<Rightarrow> pystr \<Rightarrow> pystr option \<Rightarrow> pystr \<Rightarrow> 's \<Rightarrow> (pystr \<times> 's) option"
    and store_get :: "pystr \<Rightarrow> 's \<Rightarrow> pystr option option"
    and store_keys :: "pystr \<Rightarrow> 's \<Rightarrow> pystr list"
  assumes put_returns_uri:
      "build_uri tn tk call arg c = Some u \<Longrightarrow> \<exists>s'. store_put tn tk call arg c s = Some (to_uri u, s')"
    and put_then_get:
      "store_put tn tk call arg c s = Some (v, s') \<Longrightarrow> parse_tool_result_uri v = Some u \<Longrightarrow>
       list_all is_scalar c \<Longrightarrow> store_get v s' = Some (Some c)"
    and put_frame:
      "store_put tn tk call arg c s = Some (v, s') \<Longrightarrow> w \<noteq> v \<Longrightarrow> store_get w s' = store_get w s"
    and get_missing:
      "parse_tool_result_uri v = Some u \<Longrightarrow> store_get v s = Some None \<longleftrightarrow> to_key u \<notin> set (store_keys [] s)"
    and keys_prefix: "set (store_keys p s) = {k \<in> set (store_keys [] s). startswith p k}"
    and put_keys:
      "store_put tn tk call arg c s = Some (to_uri u, s') \<Longrightarrow>
       set (store_keys [] s') = insert (to_key u) (set (store_keys [] s))"
begin

abbreviation recall :: "(nat \<Rightarrow> bool) \<Rightarrow> 's \<Rightarrow> pystr \<Rightarrow> pystr \<Rightarrow> pystr \<Rightarrow> pystr option \<Rightarrow> pystr" where
  "recall pr s \<equiv> resolve_and_fetch pr (\<lambda>p. Some (store_keys p s)) (\<lambda>u. store_get u s)"

lemma put_prefix_keys:
  "store_put tn tk call arg c s = Some (to_uri u, s') \<Longrightarrow>
   set (store_keys p s') = set (store_keys p s) \<union> (if startswith p (to_key u) then {to_key u} else {})"
  using put_keys [of tn tk call arg c s u s'] keys_prefix [of p s] keys_prefix [of p s'] by auto

lemma scoped_put:
  assumes "scoped tn tk call arg" "store_put tn tk call arg c s = Some (v, s')"
  shows "v = to_uri (uri_of tn tk call arg c)"
  using put_returns_uri [OF scoped_uri(1) [OF assms(1)], of c s] assms(2) by auto

definition held :: "pystr \<Rightarrow> pystr \<Rightarrow> pystr \<Rightarrow> pystr option \<Rightarrow> pystr \<Rightarrow> 's \<Rightarrow> bool" where
  "held tn tk call arg c s \<longleftrightarrow>
     set (store_keys (prefix_for tn tk call arg) s) = to_key ` {uri_of tn tk call arg c}
     \<and> store_get (to_uri (uri_of tn tk call arg c)) s = Some (Some c)"

lemma put_holds:
  assumes "scoped tn tk call arg" "list_all is_scalar c" "store_keys (prefix_for tn tk call arg) s = []"
    and "store_put tn tk call arg c s = Some (v, s')"
  shows "held tn tk call arg c s'"
proof -
  let ?u = "uri_of tn tk call arg c"
  have v: "v = to_uri ?u" using scoped_put [OF assms(1,4)] .
  have "startswith (prefix_for tn tk call arg) (to_key ?u)"
    using prefix_of_key [of ?u] by (simp add: uri_of_def)
  then have "set (store_keys (prefix_for tn tk call arg) s') = to_key ` {?u}"
    using put_prefix_keys [OF assms(4) [unfolded v]] assms(3) by simp
  moreover have "store_get (to_uri ?u) s' = Some (Some c)"
    using put_then_get [OF assms(4) _ assms(2)] parse_to_uri [OF scoped_uri(2) [OF assms(1)]] v by blast
  ultimately show ?thesis by (simp add: held_def)
qed

lemma recall_held:
  assumes "scoped tn tk call arg" "held tn tk call arg c s"
  shows "recall pr s tn tk call arg = c"
proof -
  let ?u = "uri_of tn tk call arg c"
  have wf: "wf_uri ?u" using scoped_uri(2) [OF assms(1)] .
  from set_key_hashes [OF _ assms(2) [unfolded held_def, THEN conjunct1]] wf
  have "dedup (key_hashes (store_keys (prefix_for tn tk call arg) s)) = [hash_content c]"
    by (intro dedup_single) (simp add: uri_of_def)
  moreover have "strip call = call" "call \<noteq> []" "clean_arg_key arg = arg"
    using assms(1) by (auto simp: scoped_def part_ok_def clean_arg_key_def split: option.splits)
  ultimately show ?thesis
    using parse_to_uri [OF wf] assms(2)
    by (simp add: resolve_and_fetch_def single_hash_from_keys_def Let_def uri_of_def held_def)
qed

lemma recall_returns_offloaded:
  assumes "scoped tn tk call arg" "list_all is_scalar c" "store_keys (prefix_for tn tk call arg) s = []"
    and "store_put tn tk call arg c s = Some (v, s')"
  shows "recall pr s' tn tk call arg = c"
  using recall_held [OF assms(1) put_holds [OF assms]] .

lemma put_other_call:
  assumes "scoped tn tk call' arg'" "SLASH \<notin> set call" "call \<noteq> call'"
    and "store_put tn tk call' arg' c' s = Some (v, s')"
  shows "set (store_keys (prefix_for tn tk call None) s') = set (store_keys (prefix_for tn tk call None) s)"
    and "held tn tk call None c s \<Longrightarrow> held tn tk call None c s'"
proof -
  have v: "v = to_uri (uri_of tn tk call' arg' c')" using scoped_put [OF assms(1,4)] .
  have call': "SLASH \<notin> set call'" using assms(1) by (simp add: scoped_def part_ok_def)
  have "\<not> startswith (prefix_for tn tk call None) (to_key (uri_of tn tk call' arg' c'))"
    using other_call_key [OF assms(2) call' assms(3)] by (simp add: uri_of_def)
  then show k: "set (store_keys (prefix_for tn tk call None) s') = set (store_keys (prefix_for tn tk call None) s)"
    using put_prefix_keys [OF assms(4) [unfolded v]] by simp
  have "to_uri (uri_of tn tk call None c) \<noteq> v"
  proof
    assume "to_uri (uri_of tn tk call None c) = v"
    then have "to_key (uri_of tn tk call None c) = to_key (uri_of tn tk call' arg' c')"
      using v by (simp add: to_uri_def)
    then have "startswith (prefix_for tn tk call None) (to_key (uri_of tn tk call' arg' c'))"
      using prefix_of_key [of "uri_of tn tk call None c"] by (simp add: uri_of_def)
    then show False using other_call_key [OF assms(2) call' assms(3)] by (simp add: uri_of_def)
  qed
  then show "held tn tk call None c s \<Longrightarrow> held tn tk call None c s'"
    using put_frame [OF assms(4)] k by (simp add: held_def)
qed

lemma arg_offload_hides_result:
  assumes "scoped tn tk call (Some k)" "store_put tn tk call (Some k) a s = Some (v, s')"
    and "store_put tn tk call None c s' = Some (v', s'')" "list_all is_scalar c"
    and "store_keys (prefix_for tn tk call None) s = []"
  shows "recall pr s'' tn tk call None = (if hash_content a = hash_content c then c else ERROR_AMBIGUOUS)"
proof -
  have sc: "scoped tn tk call None" using assms(1) by (simp add: scoped_def)
  let ?ua = "uri_of tn tk call (Some k) a" and ?uc = "uri_of tn tk call None c"
  let ?p = "prefix_for tn tk call None"
  have v: "v = to_uri ?ua" "v' = to_uri ?uc" using scoped_put [OF assms(1,2)] scoped_put [OF sc assms(3)] .
  have wf: "wf_uri ?ua" "wf_uri ?uc" using scoped_uri(2) [OF assms(1)] scoped_uri(2) [OF sc] .
  have pre: "startswith ?p (to_key ?ua)" "startswith ?p (to_key ?uc)"
    using result_prefix_of_arg_key [of ?ua] result_prefix_of_arg_key [of ?uc] by (simp_all add: uri_of_def)
  have "set (store_keys ?p s'') = to_key ` {?ua, ?uc}"
    using put_prefix_keys [OF assms(2) [unfolded v]] put_prefix_keys [OF assms(3) [unfolded v]] pre assms(5) by auto
  from set_key_hashes [OF _ this] wf
  have hashes: "set (key_hashes (store_keys ?p s'')) = {hash_content a, hash_content c}"
    by (auto simp: uri_of_def)
  have call: "strip call = call" "call \<noteq> []" using sc by (auto simp: scoped_def part_ok_def)
  show ?thesis
  proof (cases "hash_content a = hash_content c")
    case True
    then have "dedup (key_hashes (store_keys ?p s'')) = [hash_content c]" using hashes by (intro dedup_single) simp
    moreover have "store_get (to_uri ?uc) s'' = Some (Some c)"
      using put_then_get [OF assms(3) _ assms(4)] parse_to_uri [OF wf(2)] v by blast
    ultimately show ?thesis using True call parse_to_uri [OF wf(2)]
      by (simp add: resolve_and_fetch_def single_hash_from_keys_def clean_arg_key_def Let_def uri_of_def)
  next
    case False
    have "\<exists>x y zs. dedup (key_hashes (store_keys ?p s'')) = x # y # zs"
    proof -
      have "length (dedup (key_hashes (store_keys ?p s''))) = card {hash_content a, hash_content c}"
        using hashes set_dedup distinct_dedup by (metis distinct_card)
      then have "length (dedup (key_hashes (store_keys ?p s''))) = Suc (Suc 0)" using False by simp
      then show ?thesis by (auto simp: length_Suc_conv)
    qed
    then show ?thesis using False call
      by (auto simp: resolve_and_fetch_def single_hash_from_keys_def clean_arg_key_def Let_def)
  qed
qed

lemma arg_only_recalls_as_purged:
  assumes "scoped tn tk call (Some k)" "store_put tn tk call (Some k) a s = Some (v, s')"
    and "store_keys (prefix_for tn tk call None) s = []"
  shows "recall pr s' tn tk call None = ERROR_PURGED"
proof -
  let ?ua = "uri_of tn tk call (Some k) a" and ?u0 = "uri_of tn tk call None a"
  let ?p = "prefix_for tn tk call None"
  have sc: "scoped tn tk call None" using assms(1) by (simp add: scoped_def)
  have v: "v = to_uri ?ua" using scoped_put [OF assms(1,2)] .
  have wf: "wf_uri ?ua" "wf_uri ?u0" using scoped_uri(2) [OF assms(1)] scoped_uri(2) [OF sc] .
  have pre: "startswith ?p (to_key ?ua)" "startswith ?p (to_key ?u0)"
    using result_prefix_of_arg_key [of ?ua] result_prefix_of_arg_key [of ?u0] by (simp_all add: uri_of_def)
  have keys: "set (store_keys ?p s') = to_key ` {?ua}"
    using put_prefix_keys [OF assms(2) [unfolded v]] pre assms(3) by simp
  from set_key_hashes [OF _ this] wf have "dedup (key_hashes (store_keys ?p s')) = [hash_content a]"
    by (intro dedup_single) (simp add: uri_of_def)
  moreover have "to_key ?u0 \<noteq> to_key ?ua" using to_key_inj [OF wf(2,1)] by (auto simp: uri_of_def)
  then have "to_key ?u0 \<notin> set (store_keys [] s')"
    using keys keys_prefix [of ?p s'] pre(2) by auto
  then have "store_get (to_uri ?u0) s' = Some None"
    using get_missing [OF parse_to_uri [OF wf(2)]] by simp
  moreover have "strip call = call" "call \<noteq> []" using sc by (auto simp: scoped_def part_ok_def)
  ultimately show ?thesis using parse_to_uri [OF wf(2)]
    by (simp add: resolve_and_fetch_def single_hash_from_keys_def clean_arg_key_def Let_def uri_of_def)
qed

lemma recall_unknown_id:
  assumes "scoped tn tk call arg" "store_keys (prefix_for tn tk call arg) s = []"
  shows "startswith ERROR_NO_HASH (recall pr s tn tk call arg)"
proof -
  have "startswith ERROR_NO_HASH (render_no_hash pr c k av)" for c k av
    by (auto simp: render_no_hash_def startswith_iff join_Cons)
  moreover have "strip call = call" "call \<noteq> []" "clean_arg_key arg = arg"
    using assms(1) by (auto simp: scoped_def part_ok_def clean_arg_key_def split: option.splits)
  ultimately show ?thesis
    using assms(2) by (simp add: resolve_and_fetch_def single_hash_from_keys_def dedup_def key_hashes_def Let_def)
qed

end

section \<open>The two stores keep the contract\<close>

lemma drop_scheme: "drop (length URI_SCHEME) (to_uri u) = to_key u"
  by (simp add: to_uri_def)

lemma startswith_scheme: "startswith (URI_SCHEME @ p) (URI_SCHEME @ s) = startswith p s"
  by (simp add: startswith_def)

lemma set_mem_keys: "k \<in> set (mem_list_keys p st) \<longleftrightarrow> URI_SCHEME @ k \<in> fst ` set st \<and> startswith p k"
proof -
  have "startswith (URI_SCHEME @ p) x \<longleftrightarrow> (\<exists>k. x = URI_SCHEME @ k \<and> startswith p k)" for x
    by (auto simp: startswith_iff)
  then have "set (mem_list_keys p st) =
      drop (length URI_SCHEME) ` {x \<in> fst ` set st. \<exists>k. x = URI_SCHEME @ k \<and> startswith p k}"
    by (simp add: mem_list_keys_def)
  then show ?thesis by (simp add: image_iff del: image_eqI) (metis append_eq_conv_conj)
qed

interpretation mem: artifact_store mem_put mem_get mem_list_keys
proof unfold_locales
  fix tn tk call arg c u s
  assume "build_uri tn tk call arg c = Some u"
  then show "\<exists>s'. mem_put tn tk call arg c s = Some (to_uri u, s')" by (simp add: mem_put_def)
next
  fix tn tk call arg c and s :: mem_store and v s' u
  assume "mem_put tn tk call arg c s = Some (v, s')" "parse_tool_result_uri v = Some u"
  then show "mem_get v s' = Some (Some c)" by (auto simp: mem_put_def mem_get_def update_conv split: option.splits)
next
  fix tn tk call arg c and s :: mem_store and v s' w
  assume "mem_put tn tk call arg c s = Some (v, s')" "w \<noteq> v"
  then show "mem_get w s' = mem_get w s" by (auto simp: mem_put_def mem_get_def update_conv split: option.splits)
next
  fix v u and s :: mem_store
  assume "parse_tool_result_uri v = Some u"
  moreover from this have "v = URI_SCHEME @ to_key u" using parse_sound by (metis to_uri_def)
  ultimately show "mem_get v s = Some None \<longleftrightarrow> to_key u \<notin> set (mem_list_keys [] s)"
    by (simp add: mem_get_def set_mem_keys map_of_eq_None_iff startswith_def)
next
  fix p and s :: mem_store
  show "set (mem_list_keys p s) = {k \<in> set (mem_list_keys [] s). startswith p k}"
    by (simp add: set_eq_iff set_mem_keys startswith_def [of "[]"])
next
  fix tn tk call arg c and s :: mem_store and u s'
  assume a: "mem_put tn tk call arg c s = Some (to_uri u, s')"
  then have s': "s' = AList.update (to_uri u) c s" by (auto simp: mem_put_def split: option.splits)
  have "fst ` set s' = insert (to_uri u) (fst ` set s)" by (auto simp: s' dom_update)
  then show "set (mem_list_keys [] s') = insert (to_key u) (set (mem_list_keys [] s))"
    by (auto simp: set_mem_keys startswith_def [of "[]"] to_uri_def)
qed

lemma set_s3_keys: "k \<in> set (s3_list_keys p b) \<longleftrightarrow> k \<in> fst ` set b \<and> startswith p k"
  by (auto simp: s3_list_keys_def)

interpretation s3: artifact_store s3_put s3_get s3_list_keys
proof unfold_locales
  fix tn tk call arg c u s
  assume "build_uri tn tk call arg c = Some u"
  then show "\<exists>s'. s3_put tn tk call arg c s = Some (to_uri u, s')" by (simp add: s3_put_def)
next
  fix tn tk call arg c and s :: bucket and v s' u
  assume p: "s3_put tn tk call arg c s = Some (v, s')" "parse_tool_result_uri v = Some u" "list_all is_scalar c"
  then obtain u' where u': "v = to_uri u'" "s' = AList.update (to_key u') (utf8 c) s"
    by (auto simp: s3_put_def split: option.splits)
  have "v = to_uri u" using parse_sound [OF p(2)] by simp
  then have "to_key u = to_key u'" using u'(1) by (simp add: to_uri_def)
  then show "s3_get v s' = Some (Some c)"
    using p(2,3) u'(2) by (simp add: s3_get_def s3_download_def update_conv utf8_roundtrip)
next
  fix tn tk call arg c and s :: bucket and v s' w
  assume p: "s3_put tn tk call arg c s = Some (v, s')" "w \<noteq> v"
  then obtain u' where u': "v = to_uri u'" "s' = AList.update (to_key u') (utf8 c) s"
    by (auto simp: s3_put_def split: option.splits)
  show "s3_get w s' = s3_get w s"
  proof (cases "parse_tool_result_uri w")
    case (Some x)
    then have "w = to_uri x" using parse_sound by blast
    then have "to_key x \<noteq> to_key u'" using p(2) u'(1) by (auto simp: to_uri_def)
    then show ?thesis using Some u'(2) by (simp add: s3_get_def s3_download_def update_conv)
  qed (simp add: s3_get_def)
next
  fix v u and s :: bucket
  assume u: "parse_tool_result_uri v = Some u"
  have "map_of s (to_key u) = None \<longleftrightarrow> to_key u \<notin> set (s3_list_keys [] s)"
    by (simp add: set_s3_keys map_of_eq_None_iff startswith_def)
  then show "s3_get v s = Some None \<longleftrightarrow> to_key u \<notin> set (s3_list_keys [] s)"
    by (cases "map_of s (to_key u)") (simp_all add: u s3_get_def s3_download_def)
next
  fix p and s :: bucket
  show "set (s3_list_keys p s) = {k \<in> set (s3_list_keys [] s). startswith p k}"
    by (simp add: set_eq_iff set_s3_keys startswith_def [of "[]"])
next
  fix tn tk call arg c and s :: bucket and u s'
  assume "s3_put tn tk call arg c s = Some (to_uri u, s')"
  then have "s' = AList.update (to_key u) (utf8 c) s" by (auto simp: s3_put_def to_uri_def split: option.splits)
  then have "fst ` set s' = insert (to_key u) (fst ` set s)" by (auto simp: dom_update)
  then show "set (s3_list_keys [] s') = insert (to_key u) (set (s3_list_keys [] s))"
    by (auto simp: set_s3_keys startswith_def [of "[]"])
qed

section \<open>Properties\<close>

definition scope :: "pystr \<Rightarrow> pystr \<Rightarrow> pystr" where
  "scope tn tk = join [SLASH] [tn, tk] @ [SLASH]"

definition s3_recall ::
  "(nat \<Rightarrow> bool) \<Rightarrow> bucket \<Rightarrow> pystr \<Rightarrow> pystr \<Rightarrow> pystr \<Rightarrow> pystr option \<Rightarrow> pystr" where
  "s3_recall pr b = resolve_and_fetch pr (\<lambda>p. Some (s3_list_keys p b)) (\<lambda>u. s3_get u b)"

definition in_scope :: "pystr \<Rightarrow> pystr \<Rightarrow> bucket \<Rightarrow> bucket" where
  "in_scope tn tk b = filter (\<lambda>(k, d). startswith (scope tn tk) k) b"

lemma startswith_trans: "startswith p q \<Longrightarrow> startswith q s \<Longrightarrow> startswith p s"
  by (auto simp: startswith_iff)

lemma list_keys_in_scope:
  "startswith (scope tn tk) p \<Longrightarrow> s3_list_keys p (in_scope tn tk b) = s3_list_keys p b"
  using startswith_trans [of "scope tn tk" p]
  by (auto simp: s3_list_keys_def in_scope_def filter_map comp_def split_beta intro!: filter_cong arg_cong [where f = "map fst"])

lemma get_in_scope:
  assumes "startswith (URI_SCHEME @ scope tn tk) u"
  shows "s3_get u (in_scope tn tk b) = s3_get u b"
proof (cases "parse_tool_result_uri u")
  case (Some v)
  then have "startswith (scope tn tk) (to_key v)"
    using assms parse_sound by (metis startswith_scheme to_uri_def)
  then have "map_of (in_scope tn tk b) (to_key v) = map_of b (to_key v)"
    by (induction b) (auto simp: in_scope_def)
  then show ?thesis by (simp add: s3_get_def s3_download_def Some)
qed (simp add: s3_get_def)

lemma prefix_in_scope: "startswith (scope tn tk) (prefix_for tn tk call arg)"
  by (auto simp: scope_def prefix_for_def startswith_iff Let_def split: option.splits)

lemma uri_in_scope:
  "startswith (URI_SCHEME @ scope tn tk)
     (to_uri \<lparr>u_tenant = tn, u_task = tk, u_call = call, u_hash = h, u_arg = arg\<rparr>)"
  by (auto simp: scope_def to_uri_def to_key_def startswith_iff Let_def split: option.splits)

lemma s3_recall_in_scope: "s3_recall pr (in_scope tn tk b) tn tk call arg = s3_recall pr b tn tk call arg"
proof -
  have "startswith (scope tn tk) (scope tn tk)" by (simp add: startswith_def)
  then have "list_task_offloaded_entries (\<lambda>p. Some (s3_list_keys p (in_scope tn tk b))) tn tk
      = list_task_offloaded_entries (\<lambda>p. Some (s3_list_keys p b)) tn tk"
    using list_keys_in_scope [of tn tk "scope tn tk" b]
    by (simp add: list_task_offloaded_entries_def scope_def Let_def)
  then show ?thesis
    unfolding s3_recall_def resolve_and_fetch_def Let_def
    by (simp add: list_keys_in_scope prefix_in_scope get_in_scope uri_in_scope cong: option.case_cong prod.case_cong if_cong)
qed

text \<open>
  The URI parser accepts exactly the printed forms of well-formed URIs and returns
  their components: parsing inverts printing in both directions.
\<close>

theorem uri_parse_print:
  "parse_tool_result_uri s = Some u \<longleftrightarrow> s = to_uri u \<and> wf_uri u"
  by (rule parse_iff)

text \<open>
  A content offloaded to S3 under a call id (or an argument of it) with no object yet
  is returned unchanged by recall_tool_result, through listing, hash extraction, URI
  reconstruction and UTF-8.
\<close>

theorem offload_recall_roundtrip:
  assumes "scoped tn tk call arg" "list_all is_scalar c" "s3_list_keys (prefix_for tn tk call arg) b = []"
    and "s3_put tn tk call arg c b = Some (v, b')"
  shows "s3_recall pr b' tn tk call arg = c"
  using s3.recall_returns_offloaded [OF assms] by (simp add: s3_recall_def)

theorem offload_recall_roundtrip_witness:
  "case s3_put (lit ''t'') (lit ''x'') (lit ''c1'') None [8364] [] of
     None \<Rightarrow> False | Some (v, b) \<Rightarrow> s3_recall (\<lambda>_. True) b (lit ''t'') (lit ''x'') (lit ''c1'') None = [8364]"
proof -
  have ok: "scoped (lit ''t'') (lit ''x'') (lit ''c1'') None"
    by (simp add: scoped_def part_ok_def lit_def SLASH_def strip_def lstrip_def rstrip_def is_space_def py_spaces_def)
  obtain v b where p: "s3_put (lit ''t'') (lit ''x'') (lit ''c1'') None [8364] [] = Some (v, b)"
    using s3.put_returns_uri [OF scoped_uri(1) [OF ok]] by blast
  have "s3_recall (\<lambda>_. True) b (lit ''t'') (lit ''x'') (lit ''c1'') None = [8364]"
    by (rule offload_recall_roundtrip [OF ok _ _ p]) (simp_all add: is_scalar_def s3_list_keys_def)
  then show ?thesis by (simp add: p)
qed

text \<open>
  The listing prefix of a tool result also matches the offloaded arguments of the
  same call: with only an argument offloaded, recalling the result says it was purged;
  with both offloaded, it is ambiguous and can never be read back, unless their hashes
  collide.
\<close>

theorem arg_offload_hides_tool_result:
  assumes "scoped tn tk call (Some k)" "list_all is_scalar c" "s3_list_keys (prefix_for tn tk call None) b = []"
    and "s3_put tn tk call (Some k) a b = Some (v, b')" "s3_put tn tk call None c b' = Some (v', b'')"
  shows "s3_recall pr b' tn tk call None = ERROR_PURGED
    \<and> s3_recall pr b'' tn tk call None = (if hash_content a = hash_content c then c else ERROR_AMBIGUOUS)"
  using s3.arg_offload_hides_result [OF assms(1,4,5,2,3)] s3.arg_only_recalls_as_purged [OF assms(1,4,3)]
  by (simp add: s3_recall_def)

theorem arg_offload_hides_tool_result_witness:
  "case s3_put (lit ''t'') (lit ''x'') (lit ''c1'') (Some (lit ''content'')) [97] [] of
     None \<Rightarrow> False
   | Some (v, b) \<Rightarrow> s3_recall (\<lambda>_. True) b (lit ''t'') (lit ''x'') (lit ''c1'') None = ERROR_PURGED"
proof -
  have ok: "scoped (lit ''t'') (lit ''x'') (lit ''c1'') (Some (lit ''content''))"
    by (simp add: scoped_def part_ok_def lit_def SLASH_def strip_def lstrip_def rstrip_def is_space_def py_spaces_def)
  have ok': "scoped (lit ''t'') (lit ''x'') (lit ''c1'') None" using ok by (simp add: scoped_def)
  obtain v b where p: "s3_put (lit ''t'') (lit ''x'') (lit ''c1'') (Some (lit ''content'')) [97] [] = Some (v, b)"
    using s3.put_returns_uri [OF scoped_uri(1) [OF ok]] by blast
  obtain v' b' where q: "s3_put (lit ''t'') (lit ''x'') (lit ''c1'') None [98] b = Some (v', b')"
    using s3.put_returns_uri [OF scoped_uri(1) [OF ok']] by blast
  have "s3_recall (\<lambda>_. True) b (lit ''t'') (lit ''x'') (lit ''c1'') None = ERROR_PURGED"
    by (rule arg_offload_hides_tool_result [OF ok _ _ p q, THEN conjunct1]) (simp_all add: is_scalar_def s3_list_keys_def)
  then show ?thesis by (simp add: p)
qed

text \<open>
  C16. Whatever tool_call_id and arg_key the model supplies, the answer of
  recall_tool_result depends only on the objects under the tenant and task it was built
  for.
\<close>

theorem recall_sees_only_its_task:
  assumes "in_scope tn tk b = in_scope tn tk b'"
  shows "s3_recall pr b tn tk call arg = s3_recall pr b' tn tk call arg"
  using s3_recall_in_scope [of pr tn tk b call arg] s3_recall_in_scope [of pr tn tk b' call arg] assms by simp

theorem recall_sees_only_its_task_witness:
  "s3_recall (\<lambda>_. True) [(lit ''t2/x/c1/0123456789ab.txt'', [97])] (lit ''t'') (lit ''x'') (lit ''c1'') None
   = s3_recall (\<lambda>_. True) [] (lit ''t'') (lit ''x'') (lit ''c1'') None"
  by (rule recall_sees_only_its_task) (simp add: in_scope_def scope_def startswith_def SLASH_def lit_def)

end
