(* ===== verification/Ingestion.thy ===== *)
theory Ingestion
  imports Messages ToolResults
begin

text \<open>
  \<open>executor/compaction/ingestion.py\<close> and the tool node and agent node of
  \<open>executor/graph.py\<close> that call it: oversized tool results and tool-call arguments go to the
  artifact store and are replaced by a placeholder.  The store is a parameter (\<open>put\<close>, as in
  the contract \<open>artifact_store\<close>), \<open>None\<close> when the call raises.  \<open>printable\<close> is the
  Unicode table of \<open>repr\<close>.
\<close>

definition OFFLOAD_THRESHOLD_BYTES :: nat where "OFFLOAD_THRESHOLD_BYTES = 20000"
definition PREVIEW_MAX_LINES :: nat where "PREVIEW_MAX_LINES = 5"
definition PREVIEW_MAX_BYTES :: nat where "PREVIEW_MAX_BYTES = 500"

definition TRUNCATABLE_ARG_KEYS :: "string list" where
  "TRUNCATABLE_ARG_KEYS = [''content'', ''new_string'', ''old_string'', ''text'', ''body'']"

type_synonym 's put_fn = "pystr \<Rightarrow> pystr \<Rightarrow> pystr \<Rightarrow> pystr option \<Rightarrow> pystr \<Rightarrow> 's \<Rightarrow> (pystr \<times> 's) option"

datatype variant = ResultVariant | ArgVariant

record offload_event =
  ev_variant :: variant
  ev_call :: pystr
  ev_tool :: pystr
  ev_arg :: "string option"
  ev_size :: nat
  ev_uri :: "pystr option"

definition byte_len :: "pystr \<Rightarrow> nat" where
  "byte_len s = length (utf8 s)"

definition utf8_preview :: "pystr \<Rightarrow> pystr" where
  "utf8_preview s =
     (let by_lines = join [NL] (take PREVIEW_MAX_LINES (splitlines s));
          by_bytes = utf8_prefix PREVIEW_MAX_BYTES s
      in if byte_len by_lines \<le> byte_len by_bytes then by_lines else by_bytes)"

definition result_placeholder :: "(nat \<Rightarrow> bool) \<Rightarrow> nat \<Rightarrow> pystr \<Rightarrow> pystr \<Rightarrow> pystr \<Rightarrow> pystr" where
  "result_placeholder printable nbytes u preview call =
     lit ''[tool result '' @ dec_nat nbytes @ lit '' bytes @ '' @ u @ lit '' preview: '' @ preview @ [32, 8212]
     @ lit '' to fetch full content call recall_tool_result(tool_call_id='' @ repr printable call @ lit '')]''"

definition arg_placeholder ::
  "(nat \<Rightarrow> bool) \<Rightarrow> string \<Rightarrow> nat \<Rightarrow> pystr \<Rightarrow> pystr \<Rightarrow> pystr \<Rightarrow> pystr" where
  "arg_placeholder printable key nbytes u preview call =
     lit ''[tool arg '' @ [39] @ lit key @ [39, 32] @ dec_nat nbytes @ lit '' bytes @ '' @ u @ lit '' preview: ''
     @ preview @ [32, 8212] @ lit '' to fetch full content call recall_tool_result(tool_call_id=''
     @ repr printable call @ lit '', arg_key='' @ repr printable (lit key) @ lit '')]''"

definition offload_tool_message ::
  "(nat \<Rightarrow> bool) \<Rightarrow> 's put_fn \<Rightarrow> pystr \<Rightarrow> pystr \<Rightarrow> tool_output \<Rightarrow> 's
   \<Rightarrow> tool_output \<times> 's \<times> offload_event list" where
  "offload_tool_message printable put tn tk out st =
     (case out of
        Command c \<Rightarrow> (out, st, [])
      | Msg m \<Rightarrow>
          if \<not> is_tool m then (out, st, [])
          else case content m of
            Blocks bs \<Rightarrow> (out, st, [])
          | Plain text \<Rightarrow>
              if byte_len text \<le> OFFLOAD_THRESHOLD_BYTES then (out, st, [])
              else
                let ev = (\<lambda>u. \<lparr>ev_variant = ResultVariant, ev_call = tool_call_id m,
                      ev_tool = (case msg_name m of None \<Rightarrow> [] | Some n \<Rightarrow> n), ev_arg = None,
                      ev_size = byte_len text, ev_uri = u\<rparr>)
                in case put tn tk (tool_call_id m) None text st of
                  None \<Rightarrow> (out, st, [ev None])
                | Some (u, st') \<Rightarrow>
                    (Msg (m\<lparr>content := Plain (result_placeholder printable (byte_len text) u
                        (utf8_preview text) (tool_call_id m))\<rparr>), st', [ev (Some u)]))"

definition offload_arg ::
  "(nat \<Rightarrow> bool) \<Rightarrow> 's put_fn \<Rightarrow> pystr \<Rightarrow> pystr \<Rightarrow> pystr \<Rightarrow> pystr \<Rightarrow> string \<Rightarrow> json \<Rightarrow> 's
   \<Rightarrow> json \<times> 's \<times> offload_event list" where
  "offload_arg printable put tn tk call tool key v st =
     (if key \<notin> set TRUNCATABLE_ARG_KEYS then (v, st, [])
      else case v of
        JStr text \<Rightarrow>
          if byte_len text \<le> OFFLOAD_THRESHOLD_BYTES then (v, st, [])
          else
            let ev = (\<lambda>u. \<lparr>ev_variant = ArgVariant, ev_call = call, ev_tool = tool, ev_arg = Some key,
                  ev_size = byte_len text, ev_uri = u\<rparr>)
            in (case put tn tk call (Some (lit key)) text st of
                  None \<Rightarrow> (v, st, [ev None])
                | Some (u, st') \<Rightarrow>
                    (JStr (arg_placeholder printable key (byte_len text) u (utf8_preview text) call),
                     st', [ev (Some u)]))
      | _ \<Rightarrow> (v, st, []))"

fun thread_list :: "('a \<Rightarrow> 's \<Rightarrow> 'b \<times> 's \<times> 'e list) \<Rightarrow> 'a list \<Rightarrow> 's \<Rightarrow> 'b list \<times> 's \<times> 'e list" where
  "thread_list f [] st = ([], st, [])"
| "thread_list f (x # xs) st =
     (let (y, st1, evs) = f x st; (ys, st2, evs') = thread_list f xs st1 in (y # ys, st2, evs @ evs'))"

definition offload_call ::
  "(nat \<Rightarrow> bool) \<Rightarrow> 's put_fn \<Rightarrow> pystr \<Rightarrow> pystr \<Rightarrow> tool_call \<Rightarrow> 's \<Rightarrow> tool_call \<times> 's \<times> offload_event list" where
  "offload_call printable put tn tk c st =
     (let call = (case tc_id c of None \<Rightarrow> [] | Some i \<Rightarrow> i);
          (args, st', evs) = thread_list (\<lambda>(k, v) s.
             let (v', s', e) = offload_arg printable put tn tk call (tc_name c) k v s in ((k, v'), s', e))
            (tc_args c) st
      in (c\<lparr>tc_args := args\<rparr>, st', evs))"

definition offload_ai_message_args ::
  "(nat \<Rightarrow> bool) \<Rightarrow> 's put_fn \<Rightarrow> pystr \<Rightarrow> pystr \<Rightarrow> message \<Rightarrow> 's \<Rightarrow> message \<times> 's \<times> offload_event list" where
  "offload_ai_message_args printable put tn tk m st =
     (let (calls, st', evs) = thread_list (offload_call printable put tn tk) (tool_calls m) st
      in (m\<lparr>tool_calls := calls\<rparr>, st', evs))"

definition offload_tool_messages_batch ::
  "(nat \<Rightarrow> bool) \<Rightarrow> 's put_fn \<Rightarrow> pystr \<Rightarrow> pystr \<Rightarrow> tool_output list \<Rightarrow> 's
   \<Rightarrow> tool_output list \<times> 's \<times> offload_event list" where
  "offload_tool_messages_batch printable put tn tk = thread_list (offload_tool_message printable put tn tk)"

definition stamp_output :: "json \<Rightarrow> tool_output \<Rightarrow> tool_output" where
  "stamp_output now_iso out = (case out of Msg m \<Rightarrow> Msg (stamp_emitted_at now_iso m) | Command c \<Rightarrow> out)"

text \<open>
  The tool node wrapper: \<open>run_tools\<close> is LangGraph's \<open>ToolNode\<close> on the state's messages,
  \<open>store = None\<close> is the branch with offloading disabled.
\<close>

definition tool_node ::
  "(nat \<Rightarrow> bool) \<Rightarrow> 's put_fn option \<Rightarrow> pystr \<Rightarrow> pystr \<Rightarrow> json \<Rightarrow> (message list \<Rightarrow> tool_output list)
   \<Rightarrow> message list \<Rightarrow> 's \<Rightarrow> tool_output list \<times> 's \<times> offload_event list" where
  "tool_node printable store tn tk now_iso run_tools msgs st =
     (let out = run_tools msgs in
      case store of
        None \<Rightarrow> (tag_recall_outputs msgs out, st, [])
      | Some put \<Rightarrow>
          let recalls = map tag_output (filter (is_recall_output msgs) out);
              others = filter (\<lambda>x. \<not> is_recall_output msgs x) out;
              (others', st', evs) = offload_tool_messages_batch printable put tn tk others st
          in (map (stamp_output now_iso) (reweave_messages out recalls others'), st', evs))"

text \<open>
  The end of the agent node: the model's response, with oversized arguments replaced, is
  appended to the journal after the rewrites of the compaction hook.
\<close>

definition agent_response ::
  "(nat \<Rightarrow> bool) \<Rightarrow> 's put_fn option \<Rightarrow> pystr \<Rightarrow> pystr \<Rightarrow> json \<Rightarrow> message list \<Rightarrow> message \<Rightarrow> 's
   \<Rightarrow> message list \<times> 's \<times> offload_event list" where
  "agent_response printable store tn tk now_iso hook_messages response st =
     (let (r, st', evs) = (case store of
             Some put \<Rightarrow> if is_caller response then offload_ai_message_args printable put tn tk response st
                          else (response, st, [])
           | None \<Rightarrow> (response, st, []))
      in (hook_messages @ [stamp_emitted_at now_iso r], st', evs))"

section \<open>Lemmas\<close>

lemma thread_list_append:
  "thread_list f (xs @ ys) st =
     (let (as, st1, e1) = thread_list f xs st; (bs, st2, e2) = thread_list f ys st1 in (as @ bs, st2, e1 @ e2))"
  by (induction xs arbitrary: st) (auto simp: split_beta Let_def)

lemma thread_list_length: "length (fst (thread_list f xs st)) = length xs"
  by (induction xs arbitrary: st) (auto simp: split_beta)

lemma thread_list_mem:
  "x \<in> set xs \<Longrightarrow> \<exists>s. fst (f x s) \<in> set (fst (thread_list f xs st))"
  by (induction xs arbitrary: st) (auto simp: split_beta)

definition node_step ::
  "(nat \<Rightarrow> bool) \<Rightarrow> 's put_fn \<Rightarrow> pystr \<Rightarrow> pystr \<Rightarrow> message list \<Rightarrow> tool_output \<Rightarrow> 's
   \<Rightarrow> tool_output \<times> 's \<times> offload_event list" where
  "node_step printable put tn tk msgs x st =
     (if is_recall_output msgs x then (tag_output x, st, [])
      else offload_tool_message printable put tn tk x st)"

lemma reweave_thread:
  assumes "\<And>x. x \<in> set ms \<Longrightarrow> R x \<longleftrightarrow> (case output_call_id x of None \<Rightarrow> False | Some i \<Rightarrow> i \<in> ids)"
  shows "thread_list (\<lambda>x s. if R x then (g x, s, []) else f x s) ms st =
    (reweave_loop ids ms (map g (filter R ms)) (fst (thread_list f (filter (\<lambda>x. \<not> R x) ms) st)),
     snd (thread_list f (filter (\<lambda>x. \<not> R x) ms) st))"
  using assms
proof (induction ms arbitrary: st)
  case (Cons m ms)
  note ih = Cons.IH [OF Cons.prems [OF list.set_intros(2)]]
  from Cons.prems [of m] show ?case by (auto simp: split_beta Let_def ih)
qed simp

lemma is_recall_iff:
  "is_recall_output msgs x \<longleftrightarrow>
     (\<exists>i. output_call_id x = Some i \<and> map_of (call_names msgs) i = Some RECALL_NAME)"
  by (auto simp: is_recall_output_def output_call_id_def split: tool_output.splits)

lemma recall_ids:
  assumes "x \<in> set out"
  shows "is_recall_output msgs x \<longleftrightarrow>
     (case output_call_id x of None \<Rightarrow> False
      | Some i \<Rightarrow> i \<in> set (List.map_filter output_call_id (map tag_output (filter (is_recall_output msgs) out))))"
  using assms by (auto simp: set_map_filter is_recall_iff split: option.splits)

lemma tool_node_threads:
  "tool_node pr (Some put) tn tk now_iso run_tools msgs st =
     (let (out, st', evs) = thread_list (node_step pr put tn tk msgs) (run_tools msgs) st
      in (map (stamp_output now_iso) out, st', evs))"
proof -
  have "node_step pr put tn tk msgs = (\<lambda>x s. if is_recall_output msgs x then (tag_output x, s, [])
      else offload_tool_message pr put tn tk x s)"
    by (intro ext) (simp add: node_step_def)
  then show ?thesis
    unfolding tool_node_def offload_tool_messages_batch_def reweave_messages_def
    by (simp add: reweave_thread [OF recall_ids] split_beta Let_def)
qed

section \<open>Nothing is lost\<close>

text \<open>What a tool output must allow before the node, and what the journal entry holds after it.\<close>

definition storable :: "pystr \<Rightarrow> pystr \<Rightarrow> 's \<Rightarrow> (pystr \<Rightarrow> 's \<Rightarrow> pystr list) \<Rightarrow> tool_output \<Rightarrow> bool" where
  "storable tn tk st keys x =
     (case x of
        Command c \<Rightarrow> True
      | Msg m \<Rightarrow> is_tool m \<longrightarrow> scoped tn tk (tool_call_id m) None
          \<and> keys (prefix_for tn tk (tool_call_id m) None) st = []
          \<and> (case content m of Plain t \<Rightarrow> list_all is_scalar t | Blocks bs \<Rightarrow> True))"

definition recoverable :: "(pystr \<Rightarrow> pystr \<Rightarrow> bool) \<Rightarrow> tool_output \<Rightarrow> tool_output \<Rightarrow> bool" where
  "recoverable readable x y =
     (case x of
        Command c \<Rightarrow> y = x
      | Msg m \<Rightarrow> \<exists>m'. y = Msg m' \<and> role m' = role m \<and> tool_call_id m' = tool_call_id m
          \<and> (content m' = content m
             \<or> (\<exists>t. content m = Plain t \<and> OFFLOAD_THRESHOLD_BYTES < byte_len t \<and> readable (tool_call_id m) t)))"

lemma recoverable_mono: "recoverable R x y \<Longrightarrow> (\<And>i t. R i t \<Longrightarrow> R' i t) \<Longrightarrow> recoverable R' x y"
  by (fastforce simp: recoverable_def split: tool_output.splits)

lemma recoverable_refl [simp]: "recoverable R x x"
  by (simp add: recoverable_def split: tool_output.split)

lemma recoverable_stamp: "recoverable R x y \<Longrightarrow> recoverable R x (stamp_output now_iso y)"
  by (auto simp: recoverable_def stamp_output_def stamp_emitted_at_def split: tool_output.splits)

lemma recoverable_tag: "recoverable R x (tag_output x)"
  by (auto simp: recoverable_def tag_output_def tag_recall_message_def split: tool_output.splits)

context artifact_store
begin

lemma node_step_cases:
  assumes "node_step pr store_put tn tk msgs x s = (y, s', evs)" "storable tn tk s store_keys x"
  obtains (keep) "s' = s" "\<And>R. recoverable R x y"
    | (offload) m t v where "x = Msg m" "is_tool m" "content m = Plain t" "OFFLOAD_THRESHOLD_BYTES < byte_len t"
        "store_put tn tk (tool_call_id m) None t s = Some (v, s')" "list_all is_scalar t"
        "\<And>R. R (tool_call_id m) t \<Longrightarrow> recoverable R x y" "scoped tn tk (tool_call_id m) None"
proof (cases "is_recall_output msgs x")
  case True
  then show ?thesis using assms(1) recoverable_tag keep by (auto simp: node_step_def)
next
  case False
  then have o: "offload_tool_message pr store_put tn tk x s = (y, s', evs)"
    using assms(1) by (simp add: node_step_def)
  show ?thesis
  proof (cases x)
    case (Command c)
    then show ?thesis using o keep by (simp add: offload_tool_message_def)
  next
    case (Msg m)
    show ?thesis
    proof (cases "is_tool m \<and> (\<exists>t v. content m = Plain t \<and> OFFLOAD_THRESHOLD_BYTES < byte_len t
        \<and> store_put tn tk (tool_call_id m) None t s \<noteq> None)")
      case True
      then obtain t v s1 where t: "is_tool m" "content m = Plain t" "OFFLOAD_THRESHOLD_BYTES < byte_len t"
        "store_put tn tk (tool_call_id m) None t s = Some (v, s1)" by auto
      then show ?thesis
        using o Msg assms(2)
        by (intro offload [of m t v])
          (auto simp: offload_tool_message_def recoverable_def storable_def Let_def)
    next
      case False
      then have "y = x \<and> s' = s"
        using o Msg by (auto simp: offload_tool_message_def Let_def split: content.splits if_splits option.splits)
      then show ?thesis using keep by simp
    qed
  qed
qed

lemma storable_after_put:
  assumes "storable tn tk s store_keys x" "scoped tn tk call None" "output_call_id x \<noteq> Some call"
    and "store_put tn tk call None c s = Some (v, s')"
  shows "storable tn tk s' store_keys x"
proof (cases x)
  case (Msg m)
  show ?thesis
  proof (cases "is_tool m")
    case True
    then have "scoped tn tk (tool_call_id m) None" "tool_call_id m \<noteq> call"
      using assms(1,3) Msg by (auto simp: storable_def output_call_id_def)
    moreover have "SLASH \<notin> set (tool_call_id m)"
      using \<open>scoped tn tk (tool_call_id m) None\<close> by (simp add: scoped_def part_ok_def)
    ultimately have "set (store_keys (prefix_for tn tk (tool_call_id m) None) s') = set (store_keys (prefix_for tn tk (tool_call_id m) None) s)"
      by (intro put_other_call(1) [OF assms(2) _ _ assms(4)])
    then show ?thesis using assms(1) True Msg by (simp add: storable_def)
  qed (simp add: storable_def Msg)
qed (simp add: storable_def)

lemma thread_keeps_held:
  assumes "\<forall>x \<in> set xs. storable tn tk s store_keys x" "distinct (List.map_filter output_call_id xs)"
    and "SLASH \<notin> set call" "call \<notin> set (List.map_filter output_call_id xs)" "held tn tk call None c s"
  shows "held tn tk call None c (fst (snd (thread_list (node_step pr store_put tn tk msgs) xs s)))"
  using assms
proof (induction xs arbitrary: s)
  case (Cons x xs)
  obtain y s1 e where st: "node_step pr store_put tn tk msgs x s = (y, s1, e)" by (metis prod_cases3)
  have sx: "storable tn tk s store_keys x" using Cons.prems(1) by simp
  from st sx show ?case
  proof (cases rule: node_step_cases)
    case keep
    then show ?thesis using Cons st by (simp add: split_beta List.map_filter_simps split: option.splits)
  next
    case (offload m t v)
    then have id: "output_call_id x = Some (tool_call_id m)" by (simp add: output_call_id_def)
    with Cons.prems have ne: "call \<noteq> tool_call_id m" "tool_call_id m \<notin> set (List.map_filter output_call_id xs)"
      "distinct (List.map_filter output_call_id xs)" "call \<notin> set (List.map_filter output_call_id xs)"
      by (simp_all add: List.map_filter_simps)
    have "storable tn tk s1 store_keys z" if "z \<in> set xs" for z
      using that Cons.prems(1) ne(2) storable_after_put [OF _ offload(8) _ offload(5), of z]
      by (auto simp: set_map_filter)
    moreover have "held tn tk call None c s1"
      using put_other_call(2) [OF offload(8) Cons.prems(3) ne(1) offload(5) Cons.prems(5)] .
    ultimately show ?thesis using Cons.IH [of s1] Cons.prems(3) ne st by (simp add: split_beta)
  qed
qed simp

lemma thread_recoverable:
  assumes "\<forall>x \<in> set xs. storable tn tk s store_keys x" "distinct (List.map_filter output_call_id xs)"
    and "thread_list (node_step pr store_put tn tk msgs) xs s = (ys, s', evs)"
  shows "list_all2 (recoverable (\<lambda>i t. scoped tn tk i None \<and> held tn tk i None t s')) xs ys"
  using assms
proof (induction xs arbitrary: s ys s' evs)
  case (Cons x xs)
  let ?f = "node_step pr store_put tn tk msgs"
  obtain y s1 e where st: "?f x s = (y, s1, e)" by (metis prod_cases3)
  obtain ys1 e1 where ys: "thread_list ?f xs s1 = (ys1, s', e1)" "ys = y # ys1"
    using Cons.prems(3) st by (auto simp: split_beta Let_def) (metis prod.collapse)
  have sx: "storable tn tk s store_keys x" using Cons.prems(1) by simp
  have dist: "distinct (List.map_filter output_call_id xs)"
    using Cons.prems(2) by (auto simp: List.map_filter_simps split: option.splits)
  from st sx show ?case
  proof (cases rule: node_step_cases)
    case keep
    then show ?thesis using Cons.IH [OF _ dist ys(1)] Cons.prems(1) ys(2) by simp
  next
    case (offload m t v)
    then have id: "output_call_id x = Some (tool_call_id m)" by (simp add: output_call_id_def)
    with Cons.prems have ne: "tool_call_id m \<notin> set (List.map_filter output_call_id xs)"
      by (simp add: List.map_filter_simps)
    have sts: "\<forall>z \<in> set xs. storable tn tk s1 store_keys z"
      using Cons.prems(1) ne storable_after_put [OF _ offload(8) _ offload(5)]
      by (auto simp: set_map_filter)
    have "store_keys (prefix_for tn tk (tool_call_id m) None) s = []"
      using sx offload(1,2) by (simp add: storable_def)
    from put_holds [OF offload(8,6) this offload(5)]
    have "held tn tk (tool_call_id m) None t s1" .
    then have "held tn tk (tool_call_id m) None t s'"
      using thread_keeps_held [OF sts dist _ ne] offload(8) ys(1)
      by (metis fst_conv part_ok_def scoped_def snd_conv)
    then show ?thesis using Cons.IH [OF sts dist ys(1)] offload(7,8) ys(2) by simp
  qed
qed simp

end

section \<open>Properties\<close>

text \<open>
  Splitting the tool outputs into recalled and other ones, offloading the others as a
  batch and reweaving the two lists is the same as one pass over the outputs in order that
  tags the recalled ones and offloads the rest.
\<close>

theorem tool_node_is_sequential:
  "tool_node pr (Some put) tn tk now_iso run_tools msgs st =
     (let (out, st', evs) = thread_list (node_step pr put tn tk msgs) (run_tools msgs) st
      in (map (stamp_output now_iso) out, st', evs))"
  by (rule tool_node_threads)

text \<open>
  C15. Tool-node safety over the S3 store: when the call ids are distinct, usable as path
  segments and new to the store, every output of the tools is in the journal with its own
  role and call id, and its content is either unchanged or readable in full with
  recall_tool_result on that call id.
\<close>

theorem tool_node_loses_nothing:
  assumes "\<forall>x \<in> set (run_tools msgs). storable tn tk b s3_list_keys x"
    and "distinct (List.map_filter output_call_id (run_tools msgs))"
    and "tool_node pr (Some s3_put) tn tk now_iso run_tools msgs b = (out, b', evs)"
  shows "list_all2 (recoverable (\<lambda>i t. s3_recall pr b' tn tk i None = t)) (run_tools msgs) out"
proof -
  obtain ys where ys: "thread_list (node_step pr s3_put tn tk msgs) (run_tools msgs) b = (ys, b', evs)"
    "out = map (stamp_output now_iso) ys"
    using assms(3) by (auto simp: tool_node_threads split_beta Let_def) (metis prod.collapse)
  have "list_all2 (recoverable (\<lambda>i t. scoped tn tk i None \<and> s3.held tn tk i None t b')) (run_tools msgs) ys"
    by (rule s3.thread_recoverable [OF assms(1,2) ys(1)])
  then have "list_all2 (recoverable (\<lambda>i t. s3_recall pr b' tn tk i None = t)) (run_tools msgs) ys"
    using s3.recall_held by (elim list_all2_mono recoverable_mono) (auto simp: s3_recall_def)
  then show ?thesis unfolding ys(2) list_all2_map2
    by (rule list_all2_mono) (rule recoverable_stamp)
qed

definition big_result :: message where
  "big_result = \<lparr>role = ToolRole, content = Plain (replicate 20001 97), msg_id = None, tool_calls = [],
     tool_call_id = lit ''c1'', msg_name = Some (lit ''read_url''), kwargs = []\<rparr>"

lemma demo_scoped: "scoped (lit ''t'') (lit ''x'') (lit ''c1'') None"
  by (simp add: scoped_def part_ok_def lit_def SLASH_def strip_def lstrip_def rstrip_def is_space_def py_spaces_def)

theorem tool_node_loses_nothing_witness:
  "case tool_node (\<lambda>_. True) (Some s3_put) (lit ''t'') (lit ''x'') JNull (\<lambda>_. [Msg big_result]) [] [] of
     (out, b', evs) \<Rightarrow> list_all2 (recoverable (\<lambda>i t. s3_recall (\<lambda>_. True) b' (lit ''t'') (lit ''x'') i None = t))
       [Msg big_result] out"
proof -
  obtain out b' evs where r: "tool_node (\<lambda>_. True) (Some s3_put) (lit ''t'') (lit ''x'') JNull (\<lambda>_. [Msg big_result]) [] []
      = (out, b', evs)" by (metis prod_cases3)
  have "list_all2 (recoverable (\<lambda>i t. s3_recall (\<lambda>_. True) b' (lit ''t'') (lit ''x'') i None = t))
      ((\<lambda>_. [Msg big_result]) []) out"
  proof (rule tool_node_loses_nothing [OF _ _ r])
    have "list_all is_scalar (replicate 20001 97)" by (simp add: list_all_iff is_scalar_def)
    then show "\<forall>x \<in> set [Msg big_result]. storable (lit ''t'') (lit ''x'') [] s3_list_keys x"
      by (simp add: storable_def big_result_def demo_scoped s3_list_keys_def)
    show "distinct (List.map_filter output_call_id [Msg big_result])"
      by (simp add: List.map_filter_def)
  qed
  then show ?thesis by (simp only: r prod.case)
qed

text \<open>
  An oversized content/text/body/old_string/new_string argument is replaced in the
  response before it enters the journal, so the message the tool node executes carries the
  placeholder with at most 500 bytes of preview in place of the argument.
\<close>

theorem large_argument_never_reaches_its_tool:
  assumes "is_caller r" "c \<in> set (tool_calls r)" "tc_id c = Some call" "(k, JStr text) \<in> set (tc_args c)"
    and "k \<in> set TRUNCATABLE_ARG_KEYS" "OFFLOAD_THRESHOLD_BYTES < byte_len text" "scoped tn tk call (Some (lit k))"
    and "agent_response pr (Some s3_put) tn tk now_iso hook r b = (new, b', evs)"
  shows "\<exists>c' \<in> set (tool_calls (last new)). tc_id c' = Some call \<and> tc_name c' = tc_name c
    \<and> (\<exists>preview. byte_len preview \<le> PREVIEW_MAX_BYTES
         \<and> (k, JStr (arg_placeholder pr k (byte_len text) (to_uri (uri_of tn tk call (Some (lit k)) text)) preview call))
           \<in> set (tc_args c'))"
proof -
  let ?g = "\<lambda>(k, v) s. let (v', s', e) = offload_arg pr s3_put tn tk call (tc_name c) k v s in ((k, v'), s', e)"
  obtain calls where calls: "tool_calls (last new) = calls"
    "calls = fst (thread_list (offload_call pr s3_put tn tk) (tool_calls r) b)"
  proof -
    have "new = hook @ [stamp_emitted_at now_iso (fst (offload_ai_message_args pr s3_put tn tk r b))]"
      using assms(1,8) by (simp add: agent_response_def split_beta)
    then show thesis using that by (simp add: stamp_emitted_at_def offload_ai_message_args_def split_beta)
  qed
  obtain s where "fst (offload_call pr s3_put tn tk c s) \<in> set calls"
    using thread_list_mem [OF assms(2)] calls(2) by metis
  moreover define c' where "c' = fst (offload_call pr s3_put tn tk c s)"
  ultimately have c': "c' \<in> set calls" by simp
  have args: "tc_args c' = fst (thread_list ?g (tc_args c) s)" "tc_id c' = Some call" "tc_name c' = tc_name c"
    by (simp_all add: c'_def offload_call_def assms(3) split_beta Let_def)
  obtain s1 where s1: "fst (?g (k, JStr text) s1) \<in> set (tc_args c')"
    using thread_list_mem [OF assms(4), of ?g s] unfolding args(1) by blast
  have "\<exists>s2. s3_put tn tk call (Some (lit k)) text s1 = Some (to_uri (uri_of tn tk call (Some (lit k)) text), s2)"
    by (rule s3.put_returns_uri [OF scoped_uri(1) [OF assms(7)]])
  then have "fst (?g (k, JStr text) s1) = (k, JStr (arg_placeholder pr k (byte_len text)
      (to_uri (uri_of tn tk call (Some (lit k)) text)) (utf8_preview text) call))"
    using assms(5,6) by (auto simp: offload_arg_def Let_def)
  moreover have "byte_len (utf8_preview text) \<le> PREVIEW_MAX_BYTES"
    using utf8_prefix_bound [of PREVIEW_MAX_BYTES "text"] by (simp add: utf8_preview_def byte_len_def Let_def)
  ultimately show ?thesis using s1 c' args calls(1) by force
qed

definition big_call :: message where
  "big_call = \<lparr>role = Ai, content = Plain [], msg_id = None,
     tool_calls = [\<lparr>tc_id = Some (lit ''c1''), tc_name = lit ''sandbox_write_file'',
        tc_args = [(''content'', JStr (replicate 20001 97))]\<rparr>],
     tool_call_id = [], msg_name = None, kwargs = []\<rparr>"

theorem large_argument_never_reaches_its_tool_witness:
  "\<exists>c' \<in> set (tool_calls (last (fst (agent_response (\<lambda>_. True) (Some s3_put) (lit ''t'') (lit ''x'') JNull [] big_call [])))).
     tc_name c' = lit ''sandbox_write_file'' \<and> (\<exists>preview. byte_len preview \<le> 500 \<and>
       (''content'', JStr (arg_placeholder (\<lambda>_. True) ''content'' 20001
          (to_uri (uri_of (lit ''t'') (lit ''x'') (lit ''c1'') (Some (lit ''content'')) (replicate 20001 97))) preview (lit ''c1'')))
        \<in> set (tc_args c'))"
proof -
  obtain new b' evs where r: "agent_response (\<lambda>_. True) (Some s3_put) (lit ''t'') (lit ''x'') JNull [] big_call []
      = (new, b', evs)" by (metis prod_cases3)
  have big: "byte_len (replicate 20001 97) = 20001"
    by (simp add: byte_len_def utf8_def utf8_char_def length_concat sum_list_replicate)
  have sc: "scoped (lit ''t'') (lit ''x'') (lit ''c1'') (Some (lit ''content''))"
    using demo_scoped
    by (simp add: scoped_def part_ok_def lit_def SLASH_def strip_def lstrip_def rstrip_def is_space_def py_spaces_def)
  have "is_caller big_call" "hd (tool_calls big_call) \<in> set (tool_calls big_call)"
    "tc_id (hd (tool_calls big_call)) = Some (lit ''c1'')"
    "(''content'', JStr (replicate 20001 97)) \<in> set (tc_args (hd (tool_calls big_call)))"
    "''content'' \<in> set TRUNCATABLE_ARG_KEYS" "OFFLOAD_THRESHOLD_BYTES < byte_len (replicate 20001 97)"
    by (simp_all only: big) (simp_all add: is_caller_def big_call_def TRUNCATABLE_ARG_KEYS_def OFFLOAD_THRESHOLD_BYTES_def)
  note large_argument_never_reaches_its_tool [OF this sc r]
  moreover have "tc_name (hd (tool_calls big_call)) = lit ''sandbox_write_file''" by (simp add: big_call_def)
  ultimately show ?thesis unfolding r fst_conv big PREVIEW_MAX_BYTES_def by (elim bexE) (intro bexI, auto)
qed

end
