(* ===== verification/Compaction.thy ===== *)
theory Compaction
  imports Messages
begin

text \<open>
  \<open>executor/compaction/state.py\<close> and \<open>pre_model_hook.py\<close>: the graph state with its channel
  reducers, and the hook that runs before every model call.  It projects the journal into
  system prompt, summary, middle and keep window, and when the projection is too large it has
  the middle summarised and advances a watermark.  The token estimate and the summariser
  are arguments.  \<open>None\<close> for a channel is a key that the state does not have.  Log lines are
  left out, and events do not repeat the task's ids.
\<close>

section \<open>Graph state and reducers\<close>

record plan_item =
  pi_id :: pystr
  pi_title :: pystr
  pi_status :: pystr

record run_state =
  messages :: "message list"
  observations :: "pystr list"
  commit_rationales :: "pystr list"
  projected_observations :: "pystr list option"
  projected_rationales :: "pystr list option"
  memory_opt_in :: bool
  summary :: pystr
  summarized_through :: int
  flush_fired :: bool
  last_count :: int
  firings :: int
  fatal :: bool
  plan :: "plan_item list"

definition max_reducer :: "int \<Rightarrow> int \<Rightarrow> int" where
  "max_reducer a b = max a b"

definition any_reducer :: "bool \<Rightarrow> bool \<Rightarrow> bool" where
  "any_reducer a b \<longleftrightarrow> a \<or> b"

definition list_replace_reducer :: "'a list \<Rightarrow> 'a list \<Rightarrow> 'a list" where
  "list_replace_reducer a b = b"

definition plan_replace_reducer :: "plan_item list \<Rightarrow> plan_item list \<Rightarrow> plan_item list" where
  "plan_replace_reducer a b = b"

definition summary_replace_reducer :: "pystr \<Rightarrow> pystr \<Rightarrow> pystr" where
  "summary_replace_reducer a b = b"

text \<open>The state updates of one hook invocation; \<open>None\<close> and \<open>False\<close>: the key is not in the dictionary.\<close>

record updates =
  u_last_count :: int
  u_summary :: "pystr option"
  u_through :: "int option"
  u_firings :: "int option"
  u_observations :: "pystr list option"
  u_rationales :: "pystr list option"
  u_messages :: "message list option"
  u_flush :: bool
  u_fatal :: bool

definition no_updates :: "int \<Rightarrow> updates" where
  "no_updates n = \<lparr>u_last_count = n, u_summary = None, u_through = None, u_firings = None,
     u_observations = None, u_rationales = None, u_messages = None, u_flush = False, u_fatal = False\<rparr>"

text \<open>LangGraph applies each returned key through its channel's reducer; \<open>add_messages\<close> is a parameter.\<close>

definition apply_updates ::
  "(message list \<Rightarrow> message list \<Rightarrow> message list) \<Rightarrow> run_state \<Rightarrow> updates \<Rightarrow> run_state" where
  "apply_updates add_messages st u =
     st\<lparr>messages := (case u_messages u of None \<Rightarrow> messages st | Some ms \<Rightarrow> add_messages (messages st) ms),
        projected_observations := (case u_observations u of None \<Rightarrow> projected_observations st
          | Some xs \<Rightarrow> Some (list_replace_reducer (case projected_observations st of None \<Rightarrow> [] | Some a \<Rightarrow> a) xs)),
        projected_rationales := (case u_rationales u of None \<Rightarrow> projected_rationales st
          | Some xs \<Rightarrow> Some (list_replace_reducer (case projected_rationales st of None \<Rightarrow> [] | Some a \<Rightarrow> a) xs)),
        summary := (case u_summary u of None \<Rightarrow> summary st | Some s \<Rightarrow> summary_replace_reducer (summary st) s),
        summarized_through := (case u_through u of None \<Rightarrow> summarized_through st
          | Some n \<Rightarrow> max_reducer (summarized_through st) n),
        flush_fired := any_reducer (flush_fired st) (u_flush u),
        last_count := max_reducer (last_count st) (u_last_count u),
        firings := (case u_firings u of None \<Rightarrow> firings st | Some n \<Rightarrow> max_reducer (firings st) n),
        fatal := any_reducer (fatal st) (u_fatal u)\<rparr>"

section \<open>Recalled messages\<close>

definition KEEP_TOOL_USES :: nat where "KEEP_TOOL_USES = 3"
definition TIER_3_MAX_FIRINGS_PER_TASK :: int where "TIER_3_MAX_FIRINGS_PER_TASK = 10"

definition is_recalled :: "message \<Rightarrow> bool" where
  "is_recalled m \<longleftrightarrow> is_tool m \<and> kwarg_true ''recalled'' m"

definition QUOTE :: pystr where "QUOTE = [39]"

definition reference_placeholder :: "pystr \<Rightarrow> pystr" where
  "reference_placeholder original =
     lit ''[recalled content summarized; full content remains at original tool_call_id='' @ QUOTE @ original @ QUOTE @ lit '']''"

definition original_id :: "message \<Rightarrow> pystr" where
  "original_id m = (case kwarg ''original_tool_call_id'' m of Some (JStr i) \<Rightarrow> i | _ \<Rightarrow> [])"

definition recall_pointer :: "message \<Rightarrow> message" where
  "recall_pointer m =
     m\<lparr>content := Plain (reference_placeholder (original_id m)), tool_calls := [],
       kwargs := AList.update ''content_offloaded'' (JBool True) (kwargs m)\<rparr>"

definition shrink_summarized_recalls_to_pointers :: "message list \<Rightarrow> int \<Rightarrow> int \<Rightarrow> message list" where
  "shrink_summarized_recalls_to_pointers raw previous new =
     (if new \<le> previous then []
      else
        let start = max 0 previous; stop = min (int (length raw)) new in
        if start \<ge> stop then []
        else map recall_pointer
          (filter (\<lambda>m. is_recalled m \<and> \<not> kwarg_true ''content_offloaded'' m)
            (take (nat stop - nat start) (drop (nat start) raw))))"

definition stub_content :: "message \<Rightarrow> pystr" where
  "stub_content m =
     lit ''[recall response elided from older context; full content remains at original tool_call_id='' @ QUOTE
     @ original_id m @ QUOTE @ lit '']''"

definition stub_recalled_outside_keep_window :: "message list \<Rightarrow> message list" where
  "stub_recalled_outside_keep_window middle =
     map (\<lambda>m. if \<not> is_recalled m then m
              else if content m = Plain (stub_content m) then m
              else m\<lparr>content := Plain (stub_content m)\<rparr>) middle"

section \<open>The keep window\<close>

definition find_keep_window_start :: "message list \<Rightarrow> nat \<Rightarrow> nat" where
  "find_keep_window_start raw keep =
     (let tool_positions = filter (\<lambda>i. is_tool (raw ! i)) [0..<length raw] in
      if length tool_positions \<le> keep then 0
      else
        let start = tool_positions ! (length tool_positions - keep) in
        if is_tool (raw ! start)
        then (case find (\<lambda>j. is_caller (raw ! j)) (rev [0..<start]) of None \<Rightarrow> start | Some j \<Rightarrow> j)
        else start)"

section \<open>Findings and rationales\<close>

definition OBSERVATION_BULLET_CAP :: nat where "OBSERVATION_BULLET_CAP = 20"
definition OBSERVATION_BLOCK_CHAR_CAP :: nat where "OBSERVATION_BLOCK_CHAR_CAP = 4000"
definition COMMIT_RATIONALE_BLOCK_CHAR_CAP :: nat where "COMMIT_RATIONALE_BLOCK_CHAR_CAP = 1500"

definition OBSERVATION_HEADER :: pystr where
  "OBSERVATION_HEADER = lit ''AGENT FINDINGS (preserved across compaction):''"
definition COMMIT_RATIONALE_HEADER :: pystr where
  "COMMIT_RATIONALE_HEADER = lit ''COMMIT RATIONALE(S):''"

definition sanitize_bullet :: "pystr \<Rightarrow> pystr" where
  "sanitize_bullet s = strip (replace_char NL [32] s)"

definition bullets_of :: "pystr list \<Rightarrow> pystr list" where
  "bullets_of xs = map (\<lambda>o'. lit ''- '' @ sanitize_bullet o') (filter (\<lambda>o'. sanitize_bullet o' \<noteq> []) xs)"

fun trim_bullets :: "nat \<Rightarrow> pystr list \<Rightarrow> nat \<Rightarrow> pystr list \<times> nat" where
  "trim_bullets budget [] omitted = ([], omitted)"
| "trim_bullets budget (b # bs) omitted =
     (if sum_list (map (\<lambda>x. length x + 1) (b # bs)) > budget then trim_bullets budget bs (omitted + 1)
      else (b # bs, omitted))"

definition format_observations_block :: "pystr list \<Rightarrow> pystr" where
  "format_observations_block obs =
     (if obs = [] then []
      else
        let kept_tail = drop (length obs - OBSERVATION_BULLET_CAP) obs;
            budget = OBSERVATION_BLOCK_CHAR_CAP - (length OBSERVATION_HEADER + 1);
            (bullets, omitted) = trim_bullets budget (bullets_of kept_tail) (length obs - length kept_tail)
        in if bullets = []
           then OBSERVATION_HEADER @ NL # lit ''- ... '' @ dec_nat (length obs)
                @ lit '' finding(s) omitted (each exceeds block budget)''
           else OBSERVATION_HEADER @ [NL] @ join [NL]
             (if omitted > 0
              then (lit ''- ... '' @ dec_nat omitted @ lit '' older finding(s) omitted'') # bullets
              else bullets))"

definition format_commit_rationales_block :: "pystr list \<Rightarrow> pystr" where
  "format_commit_rationales_block rationales =
     (if rationales = [] then []
      else
        let budget = COMMIT_RATIONALE_BLOCK_CHAR_CAP - (length COMMIT_RATIONALE_HEADER + 1);
            (bullets, omitted) = trim_bullets budget (bullets_of rationales) 0
        in if bullets = []
           then COMMIT_RATIONALE_HEADER @ NL # lit ''- ... '' @ dec_nat (length rationales)
                @ lit '' rationale(s) omitted (each exceeds block budget)''
           else COMMIT_RATIONALE_HEADER @ [NL] @ join [NL]
             (if omitted > 0
              then (lit ''- ... '' @ dec_nat omitted @ lit '' older rationale(s) omitted'') # bullets
              else bullets))"

section \<open>The projection\<close>

definition system_region :: "pystr option \<Rightarrow> pystr option \<Rightarrow> pystr \<Rightarrow> pystr list \<Rightarrow> pystr list \<Rightarrow> message list" where
  "system_region system_prompt platform summ obs rationales =
     (let opt = (\<lambda>p. case p of None \<Rightarrow> [] | Some s \<Rightarrow> if s = [] then [] else [plain_message System s]);
          combined = join NL2 (filter (\<lambda>p. p \<noteq> [])
            [summ, format_observations_block obs, format_commit_rationales_block rationales])
      in opt system_prompt @ opt platform
         @ (if combined = [] then []
            else [(plain_message System combined)\<lparr>kwargs := [(''compaction'', JBool True)]\<rparr>]))"

definition build_projection ::
  "pystr option \<Rightarrow> pystr option \<Rightarrow> pystr \<Rightarrow> message list \<Rightarrow> message list \<Rightarrow> pystr list \<Rightarrow> pystr list \<Rightarrow> message list" where
  "build_projection system_prompt platform summ middle keep_window obs rationales =
     system_region system_prompt platform summ obs rationales @ middle @ keep_window"

section \<open>The hook\<close>

record sum_result =
  sr_skipped :: bool
  sr_reason :: "pystr option"
  sr_summary :: "pystr option"
  sr_model :: pystr
  sr_tokens_in :: int
  sr_tokens_out :: int
  sr_cost :: int
  sr_latency :: int

text \<open>
  What the caller passes besides the state: the estimate, the summariser (\<open>None\<close>: it raises;
  its arguments here are the model id, the slice, the prior summary and the new watermark), the
  prompts, and the default summariser model of the environment.
\<close>

record hook_env =
  he_config :: json
  he_window :: nat
  he_estimate :: "message list \<Rightarrow> nat"
  he_summarizer :: "pystr \<Rightarrow> message list \<Rightarrow> pystr \<Rightarrow> int \<Rightarrow> sum_result option"
  he_system :: "pystr option"
  he_platform :: "pystr option"
  he_reserved :: nat
  he_default_model :: pystr

datatype event =
    HardFloor nat nat
  | Tier3Fired pystr int int int
  | Tier3Skipped pystr
  | FlushFired nat

record pass_result =
  pr_messages :: "message list"
  pr_updates :: updates
  pr_events :: "event list"
  pr_skipped :: bool

definition json_section :: "string \<Rightarrow> json \<Rightarrow> json" where
  "json_section k j = (case json_get k j of Some (JObj kvs) \<Rightarrow> JObj kvs | _ \<Rightarrow> JObj [])"

definition is_heartbeat_turn :: "message list \<Rightarrow> int \<Rightarrow> bool" where
  "is_heartbeat_turn raw n \<longleftrightarrow> int (length raw) \<le> n"

definition should_fire_pre_tier3_flush :: "run_state \<Rightarrow> json \<Rightarrow> message list \<Rightarrow> bool" where
  "should_fire_pre_tier3_flush st cfg raw \<longleftrightarrow>
     (case json_get ''pre_tier3_memory_flush'' (json_section ''context_management'' cfg) of
        None \<Rightarrow> True | Some j \<Rightarrow> json_truthy j)
     \<and> json_get ''enabled'' (json_section ''memory'' cfg) = Some (JBool True)
     \<and> \<not> flush_fired st
     \<and> \<not> is_heartbeat_turn raw (last_count st)"

fun skip_tool_messages :: "message list \<Rightarrow> nat \<Rightarrow> nat" where
  "skip_tool_messages [] i = i"
| "skip_tool_messages (m # ms) i = (if is_tool m then skip_tool_messages ms (i + 1) else i)"

text \<open>The watermark, clamped to the journal and moved off a tool message.\<close>

definition effective_through :: "message list \<Rightarrow> run_state \<Rightarrow> nat" where
  "effective_through raw st =
     (let t = nat (max 0 (min (summarized_through st) (int (length raw))))
      in skip_tool_messages (drop t raw) t)"

definition shown_observations :: "run_state \<Rightarrow> pystr list" where
  "shown_observations st = (case projected_observations st of None \<Rightarrow> observations st | Some xs \<Rightarrow> xs)"

definition shown_rationales :: "run_state \<Rightarrow> pystr list" where
  "shown_rationales st = (case projected_rationales st of None \<Rightarrow> commit_rationales st | Some xs \<Rightarrow> xs)"

definition hook_projection :: "hook_env \<Rightarrow> run_state \<Rightarrow> message list \<Rightarrow> message list \<Rightarrow> message list" where
  "hook_projection e st middle keep_window =
     build_projection (he_system e) (he_platform e) (summary st) middle keep_window
       (shown_observations st) (shown_rationales st)"

definition estimate :: "hook_env \<Rightarrow> message list \<Rightarrow> nat" where
  "estimate e ms = he_estimate e ms + he_reserved e"

definition slice :: "message list \<Rightarrow> nat \<Rightarrow> nat \<Rightarrow> message list" where
  "slice raw i j = take (j - i) (drop i raw)"

text \<open>The start of the keep window, after the shrink that rescues an empty middle.\<close>

definition keep_start :: "hook_env \<Rightarrow> message list \<Rightarrow> run_state \<Rightarrow> nat" where
  "keep_start e raw st =
     (let through = effective_through raw st;
          kws = max (find_keep_window_start raw KEEP_TOOL_USES) through
      in if slice raw through kws \<noteq> [] then kws
         else if estimate e (hook_projection e st [] (drop kws raw)) > he_window e
                 \<and> length (filter is_tool raw) \<ge> 2
         then max kws (find_keep_window_start raw 1)
         else kws)"

definition trigger_tokens :: "nat \<Rightarrow> nat" where
  "trigger_tokens window = float_mul_trunc 7656119366529843 53 window"

definition hard_floor :: "hook_env \<Rightarrow> nat \<Rightarrow> event list" where
  "hard_floor e est = (if est > he_window e then [HardFloor est (he_window e)] else [])"

definition FLUSH_PROMPT :: pystr where
  "FLUSH_PROMPT = join [NL]
     [lit ''You are about to have older context summarized. This is your one chance in'',
      lit ''this task to preserve cross-task-valuable facts. Call memory_note for anything'',
      lit ''you want to remember in future tasks '' @ [8212] @ lit '' decisions, user preferences, non-obvious'',
      lit ''facts. If nothing qualifies, reply with an empty response.'']"

definition flush_message :: message where
  "flush_message = (plain_message Human FLUSH_PROMPT)
     \<lparr>kwargs := [(''compaction'', JBool True), (''compaction_event'', JStr (lit ''pre_tier3_memory_flush''))]\<rparr>"

definition skip_with :: "hook_env \<Rightarrow> message list \<Rightarrow> nat \<Rightarrow> updates \<Rightarrow> event list \<Rightarrow> pass_result" where
  "skip_with e projection est u evs =
     \<lparr>pr_messages = projection, pr_updates = u, pr_events = evs @ hard_floor e est, pr_skipped = True\<rparr>"

definition fire :: "hook_env \<Rightarrow> message list \<Rightarrow> run_state \<Rightarrow> nat \<Rightarrow> nat \<Rightarrow> pystr \<Rightarrow> sum_result \<Rightarrow> pass_result" where
  "fire e raw st through kws new_summary res =
     (let u = (no_updates (int (length (messages st))))
            \<lparr>u_summary := Some new_summary, u_through := Some (int kws), u_firings := Some (firings st + 1),
             u_observations := Some (observations st), u_rationales := Some (commit_rationales st),
             u_messages := (case shrink_summarized_recalls_to_pointers raw (int through) (int kws) of
                [] \<Rightarrow> None | rs \<Rightarrow> Some rs)\<rparr>;
          post = build_projection (he_system e) (he_platform e) new_summary [] (drop kws raw)
            (observations st) (commit_rationales st)
      in \<lparr>pr_messages = post, pr_updates = u,
          pr_events = Tier3Fired (sr_model res) (sr_tokens_in res) (sr_tokens_out res) (int kws)
            # hard_floor e (estimate e post),
          pr_skipped = False\<rparr>)"

definition summarise :: "hook_env \<Rightarrow> message list \<Rightarrow> run_state \<Rightarrow> nat \<Rightarrow> nat \<Rightarrow> message list \<Rightarrow> message list \<Rightarrow> pass_result" where
  "summarise e raw st through kws middle projection =
     (let est = estimate e projection;
          u = no_updates (int (length (messages st)));
          model = (case json_get ''summarizer_model'' (json_section ''context_management'' (he_config e)) of
              Some (JStr m) \<Rightarrow> if m = [] then he_default_model e else m | _ \<Rightarrow> he_default_model e)
      in if middle = [] then skip_with e projection est u [Tier3Skipped (lit ''empty_slice'')]
         else case he_summarizer e model middle (summary st) (int kws) of
           None \<Rightarrow> skip_with e projection est (u\<lparr>u_fatal := True\<rparr>) [Tier3Skipped (lit ''fatal'')]
         | Some res \<Rightarrow>
             if sr_skipped res then
               let reason = (case sr_reason res of None \<Rightarrow> [] | Some r \<Rightarrow> r) in
               skip_with e projection est (if reason = lit ''fatal'' then u\<lparr>u_fatal := True\<rparr> else u)
                 [Tier3Skipped (if reason = [] then lit ''unknown'' else reason)]
             else
               let new_summary = strip (case sr_summary res of None \<Rightarrow> [] | Some s \<Rightarrow> s) in
               if new_summary = [] then skip_with e projection est u [Tier3Skipped (lit ''empty_summary'')]
               else fire e raw st through kws new_summary res)"

definition compaction_pre_model_hook :: "hook_env \<Rightarrow> message list \<Rightarrow> run_state \<Rightarrow> pass_result" where
  "compaction_pre_model_hook e raw st =
     (let through = effective_through raw st;
          kws = keep_start e raw st;
          middle = stub_recalled_outside_keep_window (slice raw through kws);
          projection = hook_projection e st middle (drop kws raw);
          est = estimate e projection;
          u = no_updates (int (length (messages st)))
      in if est < trigger_tokens (he_window e)
         then \<lparr>pr_messages = projection, pr_updates = u, pr_events = hard_floor e est, pr_skipped = False\<rparr>
         else if fatal st then skip_with e projection est u []
         else if firings st \<ge> TIER_3_MAX_FIRINGS_PER_TASK
         then skip_with e projection est u [Tier3Skipped (lit ''cap_reached'')]
         else if should_fire_pre_tier3_flush st (he_config e) raw
         then \<lparr>pr_messages = projection @ [flush_message], pr_updates = u\<lparr>u_flush := True\<rparr>,
               pr_events = FlushFired (length raw) # hard_floor e (estimate e (projection @ [flush_message])),
               pr_skipped = False\<rparr>
         else summarise e raw st through kws middle projection)"

section \<open>Lemmas: tool pairing\<close>

text \<open>
  What providers demand: a tool message answers a call of the last message before it that is not
  a tool message.
\<close>

definition call_ids :: "message \<Rightarrow> pystr list" where
  "call_ids m = (if is_caller m then List.map_filter tc_id (tool_calls m) else [])"

fun answered :: "pystr list \<Rightarrow> message list \<Rightarrow> bool" where
  "answered ids [] = True"
| "answered ids (m # ms) =
     (if is_tool m then tool_call_id m \<in> set ids \<and> answered ids ms else answered (call_ids m) ms)"

definition paired :: "message list \<Rightarrow> bool" where
  "paired ms = answered [] ms"

definition aligned :: "message list \<Rightarrow> nat \<Rightarrow> bool" where
  "aligned ms i \<longleftrightarrow> i < length ms \<longrightarrow> \<not> is_tool (ms ! i)"

lemma answered_head: "ms = [] \<or> \<not> is_tool (hd ms) \<Longrightarrow> answered ids ms = answered ids' ms"
  by (cases ms) auto

lemma answered_drop: "answered ids ms \<Longrightarrow> aligned ms i \<Longrightarrow> answered [] (drop i ms)"
proof (induction ids ms arbitrary: i rule: answered.induct)
  case (2 ids m ms)
  show ?case
  proof (cases i)
    case 0
    then have "\<not> is_tool m" using "2.prems" by (simp add: aligned_def)
    then show ?thesis using "2.prems" 0 by simp
  next
    case (Suc j)
    then have "aligned ms j" using "2.prems" by (simp add: aligned_def)
    then show ?thesis using "2.prems" "2.IH" Suc by (auto split: if_splits)
  qed
qed simp

lemma answered_caller:
  "answered ids ms \<Longrightarrow> i < length ms \<Longrightarrow> is_tool (ms ! i) \<Longrightarrow> ids = [] \<Longrightarrow> \<exists>j<i. is_caller (ms ! j)"
proof (induction ids ms arbitrary: i rule: answered.induct)
  case (2 ids m ms)
  then have nt: "\<not> is_tool m" by auto
  then obtain j where i: "i = Suc j" using "2.prems"(3) by (cases i) auto
  show ?case
  proof (cases "is_caller m")
    case True
    then show ?thesis using i by (intro exI [of _ 0]) simp
  next
    case False
    then have "call_ids m = []" by (simp add: call_ids_def)
    then obtain l where "l < j" "is_caller (ms ! l)" using "2.IH"(2) [OF nt, of j] "2.prems" nt i by auto
    then show ?thesis using i by (intro exI [of _ "Suc l"]) simp
  qed
qed simp

lemma answered_map:
  assumes "\<And>m. m \<in> set ms \<Longrightarrow> role (f m) = role m \<and> tool_calls (f m) = tool_calls m \<and> tool_call_id (f m) = tool_call_id m"
  shows "answered ids (map f ms) = answered ids ms"
  using assms
  by (induction ids ms rule: answered.induct) (auto simp: is_tool_def call_ids_def is_caller_def)

lemma answered_append:
  "answered ids (xs @ ys) \<Longrightarrow> ys' = [] \<or> length ys' = length ys \<and> list_all2 (\<lambda>y y'. role y' = role y
     \<and> tool_calls y' = tool_calls y \<and> tool_call_id y' = tool_call_id y) ys ys' \<Longrightarrow> answered ids (xs @ ys')"
proof (induction ids xs rule: answered.induct)
  case (1 ids)
  have "answered ids ys' = answered ids ys" if "list_all2 (\<lambda>y y'. role y' = role y
     \<and> tool_calls y' = tool_calls y \<and> tool_call_id y' = tool_call_id y) ys ys'" for ids
    using that
    by (induction ys ys' arbitrary: ids rule: list_all2_induct) (auto simp: is_tool_def call_ids_def is_caller_def)
  then show ?case using 1 by auto
qed (auto split: if_splits)

lemma answered_prefix: "list_all (\<lambda>m. \<not> is_tool m \<and> \<not> is_caller m) sys \<Longrightarrow> answered [] (sys @ ms) = answered [] ms"
  by (induction sys) (auto simp: call_ids_def)

lemma system_region_roles: "list_all (\<lambda>m. \<not> is_tool m \<and> \<not> is_caller m) (system_region sp pl summ obs rat)"
  by (auto simp: system_region_def Let_def plain_message_def is_tool_def is_caller_def split: option.split)

section \<open>Lemmas: the boundaries\<close>

lemma skip_tool_messages_spec:
  "skip_tool_messages ms i = i + length (takeWhile is_tool ms)"
  by (induction ms arbitrary: i) auto

lemma effective_through_aligned:
  "aligned raw (effective_through raw st) \<and> effective_through raw st \<le> length raw"
proof -
  define t where "t = nat (max 0 (min (summarized_through st) (int (length raw))))"
  have t: "t \<le> length raw" by (simp add: t_def)
  define n where "n = length (takeWhile is_tool (drop t raw))"
  have eff: "effective_through raw st = t + n"
    by (simp add: effective_through_def t_def [symmetric] skip_tool_messages_spec n_def Let_def)
  have "n \<le> length (drop t raw)" unfolding n_def by (rule length_takeWhile_le)
  moreover have "n < length (drop t raw) \<Longrightarrow> \<not> is_tool (drop t raw ! n)"
    unfolding n_def by (rule nth_length_takeWhile)
  ultimately show ?thesis using t by (simp add: eff aligned_def)
qed

lemma find_Some_props: "find P xs = Some x \<Longrightarrow> x \<in> set xs \<and> P x"
  by (auto simp: find_Some_iff)

lemma keep_window_spec:
  assumes "0 < k"
  shows "find_keep_window_start raw k \<le> length raw \<and> (paired raw \<longrightarrow> aligned raw (find_keep_window_start raw k))"
proof -
  let ?tp = "filter (\<lambda>i. is_tool (raw ! i)) [0..<length raw]"
  define start where "start = ?tp ! (length ?tp - k)"
  let ?found = "find (\<lambda>j. is_caller (raw ! j)) (rev [0..<start])"
  show ?thesis
  proof (cases "length ?tp \<le> k")
    case True
    have "aligned raw 0" if "paired raw"
      using answered_caller [OF that [unfolded paired_def], of 0] by (auto simp: aligned_def)
    then show ?thesis using True by (simp add: find_keep_window_start_def)
  next
    case False
    then have "start \<in> set ?tp" unfolding start_def using assms by (intro nth_mem) simp
    then have start: "start < length raw" "is_tool (raw ! start)" by simp_all
    then have kws: "find_keep_window_start raw k = (case ?found of None \<Rightarrow> start | Some j \<Rightarrow> j)"
      using False by (simp add: find_keep_window_start_def Let_def flip: start_def)
    show ?thesis
    proof (cases ?found)
      case None
      then have "\<not> paired raw"
        using answered_caller [of "[]" raw start] start by (auto simp: paired_def find_None_iff)
      then show ?thesis using kws None start by simp
    next
      case (Some j)
      from find_Some_props [OF this] have "j < start" "is_caller (raw ! j)" by simp_all
      then show ?thesis
        using kws Some start by (simp add: aligned_def is_caller_def is_tool_def)
    qed
  qed
qed

lemma keep_start_spec:
  "effective_through raw st \<le> keep_start e raw st \<and> keep_start e raw st \<le> length raw
   \<and> (paired raw \<longrightarrow> aligned raw (keep_start e raw st))"
  using keep_window_spec [of KEEP_TOOL_USES raw] keep_window_spec [of 1 raw] effective_through_aligned [of raw st]
  by (auto simp: keep_start_def Let_def KEEP_TOOL_USES_def max_def)

lemma slice_drop: "i \<le> j \<Longrightarrow> slice raw i j @ drop j raw = drop i raw"
  by (metis append_take_drop_id drop_drop le_add_diff_inverse2 slice_def)

lemma stub_fields:
  "list_all2 (\<lambda>y y'. role y' = role y \<and> tool_calls y' = tool_calls y \<and> tool_call_id y' = tool_call_id y)
     ms (stub_recalled_outside_keep_window ms)"
  by (auto simp: stub_recalled_outside_keep_window_def list.rel_map intro!: list.rel_refl)

lemma list_all2_same_append:
  "(\<And>x. R x x) \<Longrightarrow> list_all2 R xs ys \<Longrightarrow> list_all2 R (xs @ zs) (ys @ zs)"
  by (intro list_all2_appendI) (auto simp: list.rel_refl)

section \<open>Lemmas: the three kinds of outcome\<close>

definition hook_middle :: "hook_env \<Rightarrow> message list \<Rightarrow> run_state \<Rightarrow> message list" where
  "hook_middle e raw st =
     stub_recalled_outside_keep_window (slice raw (effective_through raw st) (keep_start e raw st))"

lemma hook_cases:
  obtains (kept) u extra evs sk where
      "compaction_pre_model_hook e raw st =
        \<lparr>pr_messages = hook_projection e st (hook_middle e raw st) (drop (keep_start e raw st) raw) @ extra,
         pr_updates = u, pr_events = evs, pr_skipped = sk\<rparr>"
      "extra = [] \<or> extra = [flush_message]"
      "u = (no_updates (int (length (messages st))))\<lparr>u_flush := u_flush u, u_fatal := u_fatal u\<rparr>"
      "\<exists>evs'. evs = evs' @ hard_floor e (estimate e (hook_projection e st (hook_middle e raw st) (drop (keep_start e raw st) raw) @ extra))
        \<and> (\<forall>x \<in> set evs'. (\<forall>a b. x \<noteq> HardFloor a b) \<and> (\<forall>a b c d. x \<noteq> Tier3Fired a b c d))"
      "u_flush u \<longleftrightarrow> extra = [flush_message]" "u_flush u \<Longrightarrow> \<not> flush_fired st"
  | (fired) model res where
      "compaction_pre_model_hook e raw st =
        fire e raw st (effective_through raw st) (keep_start e raw st)
          (strip (case sr_summary res of None \<Rightarrow> [] | Some s \<Rightarrow> s)) res"
      "he_summarizer e model (hook_middle e raw st) (summary st) (int (keep_start e raw st)) = Some res"
      "strip (case sr_summary res of None \<Rightarrow> [] | Some s \<Rightarrow> s) \<noteq> []" "\<not> sr_skipped res"
      "hook_middle e raw st \<noteq> []" "firings st < TIER_3_MAX_FIRINGS_PER_TASK" "\<not> fatal st"
proof -
  let ?pj = "hook_projection e st (hook_middle e raw st) (drop (keep_start e raw st) raw)"
  let ?est = "estimate e ?pj" and ?u = "no_updates (int (length (messages st)))"
  note kept0 = kept [of "[]"]
  have skip: thesis if "compaction_pre_model_hook e raw st = skip_with e ?pj ?est u evs" "u = ?u \<or> u = ?u\<lparr>u_fatal := True\<rparr>"
    "evs = [] \<or> (\<exists>r. evs = [Tier3Skipped r])" for u evs
    using that by (intro kept [of "[]" u "evs @ hard_floor e ?est" True]) (auto simp: skip_with_def no_updates_def)
  note defs = compaction_pre_model_hook_def hook_middle_def [symmetric]
  consider (below) "?est < trigger_tokens (he_window e)"
    | (fatal) "\<not> ?est < trigger_tokens (he_window e)" "fatal st"
    | (cap) "\<not> ?est < trigger_tokens (he_window e)" "\<not> fatal st" "firings st \<ge> TIER_3_MAX_FIRINGS_PER_TASK"
    | (flush) "\<not> ?est < trigger_tokens (he_window e)" "\<not> fatal st" "\<not> firings st \<ge> TIER_3_MAX_FIRINGS_PER_TASK"
        "should_fire_pre_tier3_flush st (he_config e) raw"
    | (summ) "\<not> ?est < trigger_tokens (he_window e)" "\<not> fatal st" "\<not> firings st \<ge> TIER_3_MAX_FIRINGS_PER_TASK"
        "\<not> should_fire_pre_tier3_flush st (he_config e) raw" by blast
  then show thesis
  proof cases
    case below
    then show thesis
      by (intro kept [of "[]" ?u "hard_floor e ?est" False]) (auto simp: defs Let_def no_updates_def)
  next
    case fatal
    then show thesis by (intro skip [of ?u "[]"]) (auto simp: defs Let_def)
  next
    case cap
    then show thesis by (intro skip [of ?u "[Tier3Skipped (lit ''cap_reached'')]"]) (auto simp: defs Let_def)
  next
    case flush
    then have "\<not> flush_fired st" by (simp add: should_fire_pre_tier3_flush_def)
    with flush show thesis
      by (intro kept [of "[flush_message]" "?u\<lparr>u_flush := True\<rparr>"
            "FlushFired (length raw) # hard_floor e (estimate e (?pj @ [flush_message]))" False])
        (auto simp: defs Let_def no_updates_def intro!: exI [of _ "[FlushFired (length raw)]"])
  next
    case summ
    then have h: "compaction_pre_model_hook e raw st
        = summarise e raw st (effective_through raw st) (keep_start e raw st) (hook_middle e raw st) ?pj"
      by (simp add: defs Let_def)
    define model where "model = (case json_get ''summarizer_model'' (json_section ''context_management'' (he_config e)) of
        Some (JStr m) \<Rightarrow> if m = [] then he_default_model e else m | _ \<Rightarrow> he_default_model e)"
    show thesis
    proof (cases "hook_middle e raw st = []")
      case True
      then show thesis by (intro skip [of ?u "[Tier3Skipped (lit ''empty_slice'')]"]) (auto simp: h summarise_def Let_def)
    next
      case ne: False
      show thesis
      proof (cases "he_summarizer e model (hook_middle e raw st) (summary st) (int (keep_start e raw st))")
        case None
        then show thesis using ne
          by (intro skip [of "?u\<lparr>u_fatal := True\<rparr>" "[Tier3Skipped (lit ''fatal'')]"])
            (auto simp: h summarise_def Let_def model_def [symmetric])
      next
        case (Some res)
        show thesis
        proof (cases "sr_skipped res \<or> strip (case sr_summary res of None \<Rightarrow> [] | Some s \<Rightarrow> s) = []")
          case True
          then have "\<exists>u r. (u = ?u \<or> u = ?u\<lparr>u_fatal := True\<rparr>) \<and>
              compaction_pre_model_hook e raw st = skip_with e ?pj ?est u [Tier3Skipped r]"
            using ne Some by (auto simp: h summarise_def Let_def model_def [symmetric])
          then show thesis using skip by blast
        next
          case False
          then show thesis using ne Some summ
            by (intro fired [of res model]) (auto simp: h summarise_def Let_def model_def [symmetric])
        qed
      qed
    qed
  qed
qed

section \<open>Properties of one turn\<close>

lemma answered_snoc: "\<not> is_tool m \<Longrightarrow> answered ids (xs @ [m]) = answered ids xs"
  by (induction ids xs rule: answered.induct) auto

lemma answered_same_fields:
  "list_all2 (\<lambda>y y'. role y' = role y \<and> tool_calls y' = tool_calls y \<and> tool_call_id y' = tool_call_id y) ys ys'
   \<Longrightarrow> answered ids ys' = answered ids ys"
  by (induction ys ys' arbitrary: ids rule: list_all2_induct) (auto simp: is_tool_def call_ids_def is_caller_def)

lemma hook_middle_paired:
  assumes "paired raw"
  shows "answered [] (hook_middle e raw st @ drop (keep_start e raw st) raw)"
    and "answered [] (drop (keep_start e raw st) raw)"
proof -
  have "answered [] (drop (effective_through raw st) raw)" "answered [] (drop (keep_start e raw st) raw)"
    using answered_drop assms effective_through_aligned keep_start_spec unfolding paired_def by blast+
  moreover have "list_all2 (\<lambda>y y'. role y' = role y \<and> tool_calls y' = tool_calls y \<and> tool_call_id y' = tool_call_id y)
      (drop (effective_through raw st) raw) (hook_middle e raw st @ drop (keep_start e raw st) raw)"
    using list_all2_same_append [OF _ stub_fields] slice_drop [of "effective_through raw st" "keep_start e raw st" raw]
      keep_start_spec by (metis (no_types, lifting) hook_middle_def)
  ultimately show "answered [] (hook_middle e raw st @ drop (keep_start e raw st) raw)"
    "answered [] (drop (keep_start e raw st) raw)" using answered_same_fields by auto
qed

text \<open>
  C17. If every tool message of the journal answers a call of the AI message before it, so
  does every tool message the pre-model hook sends to the provider, on every path: below
  the trigger, flush, every skip, and after a summary has replaced the middle.
\<close>

theorem projection_keeps_tool_pairs:
  assumes "paired raw"
  shows "paired (pr_messages (compaction_pre_model_hook e raw st))"
proof (cases rule: hook_cases [of e raw st])
  case (kept u extra evs sk)
  have "\<not> is_tool flush_message" by (simp add: is_tool_def flush_message_def plain_message_def)
  moreover have "answered [] (hook_projection e st (hook_middle e raw st) (drop (keep_start e raw st) raw))"
    using hook_middle_paired(1) [OF assms, of e st] answered_prefix [OF system_region_roles]
    by (simp add: hook_projection_def build_projection_def)
  ultimately show ?thesis using kept(1,2) by (auto simp: paired_def answered_snoc)
next
  case (fired model res)
  then show ?thesis
    using hook_middle_paired(2) [OF assms, of e st] answered_prefix [OF system_region_roles]
    by (simp add: fire_def build_projection_def paired_def Let_def)
qed


text \<open>
  The hook reports a hard floor (which ends the task) exactly when the estimate of
  the messages it returns, with the reserved tokens, is over the model's context window.
\<close>

theorem hard_floor_iff_over_window:
  "(\<exists>a b. HardFloor a b \<in> set (pr_events (compaction_pre_model_hook e raw st)))
   \<longleftrightarrow> estimate e (pr_messages (compaction_pre_model_hook e raw st)) > he_window e"
proof (cases rule: hook_cases [of e raw st])
  case (kept u extra evs sk)
  let ?ms = "hook_projection e st (hook_middle e raw st) (drop (keep_start e raw st) raw) @ extra"
  from kept(4) obtain evs' where evs: "evs = evs' @ hard_floor e (estimate e ?ms)"
    "\<And>a b. HardFloor a b \<notin> set evs'" by blast
  have "(\<exists>a b. HardFloor a b \<in> set (hard_floor e n)) \<longleftrightarrow> n > he_window e" for n
    by (simp add: hard_floor_def)
  then show ?thesis unfolding kept(1) evs(1) by (simp add: evs(2))
next
  case (fired model res)
  then show ?thesis by (simp add: fire_def Let_def hard_floor_def)
qed

section \<open>Properties of a whole task\<close>

text \<open>
  The turns of a task: a hook invocation with its updates, and the updates of the other nodes
  (the journal grows, findings are appended).
\<close>

inductive task_run :: "(message list \<Rightarrow> message list \<Rightarrow> message list) \<Rightarrow> run_state \<Rightarrow> bool"
  for add_messages where
  start: "firings st = 0 \<Longrightarrow> summarized_through st = 0 \<Longrightarrow> summary st = [] \<Longrightarrow> task_run add_messages st"
| hook: "task_run add_messages st \<Longrightarrow>
    task_run add_messages (apply_updates add_messages st (pr_updates (compaction_pre_model_hook e (messages st) st)))"
| node: "task_run add_messages st \<Longrightarrow>
    task_run add_messages (st\<lparr>messages := add_messages (messages st) ms, observations := observations st @ obs,
      commit_rationales := commit_rationales st @ rats, memory_opt_in := opt, plan := plan_replace_reducer (plan st) p\<rparr>)"

text \<open>
  C19. In every run of a task, for every way other nodes grow the journal, at most ten
  summaries are made, the watermark stays inside the journal, and a summary exists exactly
  when the watermark is above zero.
\<close>

theorem compaction_is_bounded:
  assumes "task_run add_messages st" "\<forall>ms new. length ms \<le> length (add_messages ms new)"
  shows "0 \<le> firings st \<and> firings st \<le> 10
    \<and> 0 \<le> summarized_through st \<and> summarized_through st \<le> int (length (messages st))
    \<and> (summary st = [] \<longleftrightarrow> summarized_through st = 0)"
  using assms(1)
proof induction
  case (node st ms obs rats opt p)
  then show ?case using assms(2) by (auto intro: order_trans)
next
  case (hook st e)
  have len: "int (length ms) \<le> int (length (add_messages ms new))" for ms new
    using assms(2) by simp
  show ?case
  proof (cases rule: hook_cases [of e "messages st" st])
    case (kept u extra evs sk)
    then have "u_through u = None" "u_summary u = None" "u_messages u = None" "u_firings u = None"
      by (metis (no_types, lifting) no_updates_def updates.select_convs(2,3,4,7) updates.update_convs(8,9))+
    with kept hook show ?thesis by (simp add: apply_updates_def)
  next
    case (fired model res)
    have eff: "effective_through (messages st) st \<ge> nat (summarized_through st)"
      using hook by (simp add: effective_through_def skip_tool_messages_spec Let_def)
    have lt: "effective_through (messages st) st < keep_start e (messages st) st"
      using fired(5) by (auto simp: hook_middle_def slice_def stub_recalled_outside_keep_window_def)
    then have "summarized_through st < int (keep_start e (messages st) st)"
      using eff hook by linarith
    moreover have "int (keep_start e (messages st) st) \<le> int (length (messages st))"
      using keep_start_spec by simp
    ultimately show ?thesis
      using fired hook len [of "messages st"]
      by (auto simp: apply_updates_def fire_def Let_def max_reducer_def summary_replace_reducer_def
          TIER_3_MAX_FIRINGS_PER_TASK_def max_def split: option.split list.split intro: order_trans)
  qed
qed (use assms(2) in auto)

definition merge_by_id :: "message list \<Rightarrow> message list \<Rightarrow> message list" where
  "merge_by_id ms rs =
     map (\<lambda>m. case find (\<lambda>r. msg_id r = msg_id m) rs of None \<Rightarrow> m | Some r \<Rightarrow> r) ms
     @ filter (\<lambda>r. msg_id r \<notin> msg_id ` set ms) rs"

definition demo_call :: message where
  "demo_call = (plain_message Ai [])\<lparr>msg_id := Some [1], tool_calls := [\<lparr>tc_id = Some [2], tc_name = [3], tc_args = []\<rparr>]\<rparr>"

definition demo_result :: message where
  "demo_result = (plain_message ToolRole [4])\<lparr>msg_id := Some [2], tool_call_id := [2],
     kwargs := [(''recalled'', JBool True), (''original_tool_call_id'', JStr [2])]\<rparr>"

definition demo_journal :: "message list" where
  "demo_journal = (plain_message Human [5])\<lparr>msg_id := Some [0]\<rparr> # demo_call # demo_result #
     concat (map (\<lambda>n. [demo_call\<lparr>msg_id := Some [n, 1]\<rparr>, demo_result\<lparr>msg_id := Some [n, 2]\<rparr>]) [1, 2, 3])"

definition demo_state :: run_state where
  "demo_state = \<lparr>messages = demo_journal, observations = [], commit_rationales = [], projected_observations = Some [],
     projected_rationales = Some [], memory_opt_in = False, summary = [], summarized_through = 0, flush_fired = False,
     last_count = 0, firings = 0, fatal = False, plan = []\<rparr>"

definition demo_env :: hook_env where
  "demo_env = \<lparr>he_config = JNull, he_window = 1, he_estimate = length,
     he_summarizer = (\<lambda>model ms prior n. Some \<lparr>sr_skipped = False, sr_reason = None, sr_summary = Some [6],
        sr_model = model, sr_tokens_in = 1, sr_tokens_out = 1, sr_cost = 0,
        sr_latency = 0\<rparr>),
     he_system = None, he_platform = None, he_reserved = 0, he_default_model = [7]\<rparr>"

lemma demo_window: "find_keep_window_start demo_journal KEEP_TOOL_USES = 3" "effective_through demo_journal demo_state = 0"
  by code_simp+

lemma demo_keep: "keep_start demo_env demo_journal demo_state = 3"
  by (simp add: keep_start_def demo_window Let_def) (simp add: slice_def demo_journal_def)

lemma demo_fires:
  "u_through (pr_updates (compaction_pre_model_hook demo_env demo_journal demo_state)) = Some 3"
proof -
  have "trigger_tokens 1 = 0" by (simp add: trigger_tokens_def float_mul_trunc_exact)
  moreover have "strip [6] = [6]" by (simp add: strip_def lstrip_def rstrip_def is_space_def py_spaces_def)
  moreover have "slice demo_journal 0 3 \<noteq> []" by (simp add: slice_def demo_journal_def)
  ultimately show ?thesis
    by (simp add: compaction_pre_model_hook_def demo_keep demo_window Let_def summarise_def fire_def
        stub_recalled_outside_keep_window_def)
      (simp add: demo_env_def demo_state_def should_fire_pre_tier3_flush_def json_section_def json_get_def
        TIER_3_MAX_FIRINGS_PER_TASK_def no_updates_def fire_def Let_def)
qed

theorem projection_keeps_tool_pairs_witness:
  "paired demo_journal \<and> paired (pr_messages (compaction_pre_model_hook demo_env demo_journal demo_state))
   \<and> u_through (pr_updates (compaction_pre_model_hook demo_env demo_journal demo_state)) = Some 3"
proof -
  have "paired demo_journal" by code_simp
  with projection_keeps_tool_pairs [OF this, of demo_env demo_state] demo_fires show ?thesis by simp
qed

lemma demo_run: "task_run merge_by_id (apply_updates merge_by_id demo_state
    (pr_updates (compaction_pre_model_hook demo_env demo_journal demo_state)))"
  using task_run.hook [OF task_run.start [of demo_state], of merge_by_id demo_env] by (simp add: demo_state_def)

theorem compaction_is_bounded_witness:
  "summarized_through (apply_updates merge_by_id demo_state
     (pr_updates (compaction_pre_model_hook demo_env demo_journal demo_state))) = 3
   \<and> summary (apply_updates merge_by_id demo_state
     (pr_updates (compaction_pre_model_hook demo_env demo_journal demo_state))) \<noteq> []"
proof -
  have "\<forall>ms new. length ms \<le> length (merge_by_id ms new)" by (simp add: merge_by_id_def)
  note compaction_is_bounded [OF demo_run this]
  moreover have "summarized_through (apply_updates merge_by_id demo_state
     (pr_updates (compaction_pre_model_hook demo_env demo_journal demo_state))) = 3"
    by (simp add: apply_updates_def demo_fires) (simp add: max_reducer_def demo_state_def)
  ultimately show ?thesis by simp
qed

section \<open>The journal rewrite\<close>

text \<open>The documented behaviour of \<open>add_messages\<close> on messages whose ids are in the list already.\<close>

definition replaces_by_id :: "(message list \<Rightarrow> message list \<Rightarrow> message list) \<Rightarrow> bool" where
  "replaces_by_id add_messages \<longleftrightarrow>
     (\<forall>ms rs. distinct (map msg_id ms) \<longrightarrow> None \<notin> msg_id ` set ms \<longrightarrow> msg_id ` set rs \<subseteq> msg_id ` set ms \<longrightarrow>
        add_messages ms rs = map (\<lambda>m. case find (\<lambda>r. msg_id r = msg_id m) rs of None \<Rightarrow> m | Some r \<Rightarrow> r) ms)"

lemma find_mapped:
  assumes "distinct (map k xs)" "set ys \<subseteq> set xs" "m \<in> set xs" "\<And>y. k (f y) = k y"
  shows "find (\<lambda>r. k r = k m) (map f ys) = (if m \<in> set ys then Some (f m) else None)"
  using assms(2)
proof (induction ys)
  case (Cons y ys)
  have "k y = k m \<longleftrightarrow> y = m" using distinct_map_eq [OF assms(1) _ assms(3), of y] Cons.prems by auto
  then show ?case using Cons assms(4) by auto
qed simp

lemma mem_slice:
  assumes "distinct (map k xs)" "p < length xs"
  shows "xs ! p \<in> set (take n (drop i xs)) \<longleftrightarrow> i \<le> p \<and> p < i + n"
proof
  have dist: "distinct xs" using assms(1) by (simp add: distinct_map)
  assume "xs ! p \<in> set (take n (drop i xs))"
  then obtain q where "q < n" "q < length xs - i" "xs ! p = drop i xs ! q"
    by (auto simp: in_set_conv_nth)
  then have "p = i + q" using dist assms(2) by (simp add: nth_eq_iff_index_eq)
  then show "i \<le> p \<and> p < i + n" using \<open>q < n\<close> by simp
next
  assume "i \<le> p \<and> p < i + n"
  then have "take n (drop i xs) ! (p - i) = xs ! p" "p - i < length (take n (drop i xs))"
    using assms(2) by auto
  then show "xs ! p \<in> set (take n (drop i xs))" by (metis nth_mem)
qed

lemma msg_id_recall_pointer [simp]: "msg_id (recall_pointer m) = msg_id m"
  by (simp add: recall_pointer_def)

text \<open>
  A hook invocation changes the durable journal only at recalled, not yet rewritten
  messages between the old and the new watermark, which become pointers, and only when a
  summary was made; length, order and tool pairing stay.
\<close>

theorem journal_rewrite_is_pointwise:
  assumes "replaces_by_id add_messages" "distinct (map msg_id (messages st))" "None \<notin> msg_id ` set (messages st)"
    and "u = pr_updates (compaction_pre_model_hook e (messages st) st)" "st' = apply_updates add_messages st u"
  shows "length (messages st') = length (messages st)
    \<and> (\<forall>p < length (messages st). messages st' ! p =
        (if u_through u \<noteq> None \<and> effective_through (messages st) st \<le> p \<and> p < keep_start e (messages st) st
            \<and> is_recalled (messages st ! p) \<and> \<not> kwarg_true ''content_offloaded'' (messages st ! p)
         then recall_pointer (messages st ! p) else messages st ! p))
    \<and> (list_all (\<lambda>m. role m = ToolRole \<longrightarrow> tool_calls m = []) (messages st) \<longrightarrow>
        (paired (messages st') \<longleftrightarrow> paired (messages st)))"
proof -
  let ?raw = "messages st"
  define R where "R m \<longleftrightarrow> is_recalled m \<and> \<not> kwarg_true ''content_offloaded'' m" for m
  define rs where "rs = shrink_summarized_recalls_to_pointers ?raw (int (effective_through ?raw st)) (int (keep_start e ?raw st))"
  define ys where "ys = filter R (slice ?raw (effective_through ?raw st) (keep_start e ?raw st))"
  let ?f = "\<lambda>m. if u_through u \<noteq> None \<and> m \<in> set ys then recall_pointer m else m"
  have sub: "set ys \<subseteq> set ?raw"
    using set_take_subset set_drop_subset by (fastforce simp: ys_def slice_def)
  have msgs: "messages st' = map ?f ?raw"
  proof (cases rule: hook_cases [of e ?raw st])
    case (kept u' extra evs sk)
    then have "u_through u = None" "u_messages u = None"
      using assms(4) by (metis (no_types, lifting) no_updates_def pass_result.select_convs(2) updates.select_convs(3,7) updates.update_convs(8,9))+
    then show ?thesis by (simp add: assms(5) apply_updates_def)
  next
    case (fired model res)
    have lt: "effective_through ?raw st < keep_start e ?raw st"
      using fired(5) by (auto simp: hook_middle_def slice_def stub_recalled_outside_keep_window_def)
    have "keep_start e ?raw st \<le> length ?raw" using keep_start_spec by simp
    then have rs: "rs = map recall_pointer ys"
      using lt by (simp add: rs_def ys_def R_def [abs_def] shrink_summarized_recalls_to_pointers_def slice_def Let_def)
    have u: "u_through u \<noteq> None" "u_messages u = (case rs of [] \<Rightarrow> None | rs \<Rightarrow> Some rs)"
      using fired(1) assms(4) by (simp_all add: fire_def Let_def rs_def)
    have "add_messages ?raw rs = map (\<lambda>m. case find (\<lambda>r. msg_id r = msg_id m) rs of None \<Rightarrow> m | Some r \<Rightarrow> r) ?raw"
    proof -
      have "msg_id ` set rs \<subseteq> msg_id ` set ?raw" using sub by (auto simp: rs)
      then show ?thesis using assms(1-3) unfolding replaces_by_id_def by blast
    qed
    also have "\<dots> = map ?f ?raw"
      using u(1) find_mapped [OF assms(2) sub, of _ recall_pointer] by (auto simp: rs)
    finally have "add_messages ?raw rs = map ?f ?raw" .
    moreover have "rs = [] \<Longrightarrow> map ?f ?raw = ?raw" by (auto simp: rs intro!: map_idI)
    ultimately show ?thesis using u(2) by (auto simp: assms(5) apply_updates_def split: list.split)
  qed
  have mem: "?raw ! p \<in> set ys \<longleftrightarrow> effective_through ?raw st \<le> p \<and> p < keep_start e ?raw st \<and> R (?raw ! p)"
    if "p < length ?raw" for p
    using mem_slice [OF assms(2) that] keep_start_spec [of ?raw st e] by (auto simp: ys_def slice_def)
  have "paired (map ?f ?raw) \<longleftrightarrow> paired ?raw" if "list_all (\<lambda>m. role m = ToolRole \<longrightarrow> tool_calls m = []) ?raw"
    unfolding paired_def using that sub
    by (intro answered_map) (auto simp: list_all_iff recall_pointer_def ys_def R_def is_recalled_def is_tool_def)
  then show ?thesis using msgs mem by (simp add: R_def)
qed

theorem journal_rewrite_is_pointwise_witness:
  "messages (apply_updates merge_by_id demo_state (pr_updates (compaction_pre_model_hook demo_env demo_journal demo_state))) ! 2
   = recall_pointer demo_result"
proof -
  have rep: "replaces_by_id merge_by_id"
    by (auto simp: replaces_by_id_def merge_by_id_def filter_empty_conv)
  have ids: "distinct (map msg_id (messages demo_state))" "None \<notin> msg_id ` set (messages demo_state)"
    "length (messages demo_state) = 9" "messages demo_state ! 2 = demo_result" "messages demo_state = demo_journal"
    by (simp_all add: demo_state_def demo_journal_def demo_call_def demo_result_def plain_message_def)
  have "is_recalled demo_result \<and> \<not> kwarg_true ''content_offloaded'' demo_result" by code_simp
  with journal_rewrite_is_pointwise [OF rep ids(1,2) refl refl, of demo_env] ids(3-5) demo_fires
  show ?thesis by (simp add: demo_window demo_keep)
qed

end
