(* ===== verification/RecallPointer.thy ===== *)
theory RecallPointer
  imports Ingestion Compaction
begin

text \<open>
  The recall tool, the tool node and the compaction hook together: the pointer that the hook
  leaves in place of a summarised recall names the id the tool node tagged the message with.
\<close>

lemma map_of_set_default:
  "map_of (set_default k v kvs) k' = (if k' = k \<and> map_of kvs k = None then Some v else map_of kvs k')"
  by (auto simp: set_default_def map_add_def split: option.split)

lemma tagged_kwargs:
  assumes "kwargs m = []"
  shows "kwarg ''recalled'' (tag_recall_message i m) = Some (JBool True)"
    and "kwarg ''original_tool_call_id'' (tag_recall_message i m) = Some (JStr i)"
    and "kwarg ''emitted_at'' (tag_recall_message i m) = None"
  using assms by (simp_all add: kwarg_def tag_recall_message_def map_of_set_default)

lemma kwarg_stamp: "k \<noteq> ''emitted_at'' \<Longrightarrow> kwarg k (stamp_emitted_at now_iso m) = kwarg k m"
  by (simp add: kwarg_def stamp_emitted_at_def update_conv)

text \<open>
  The tool node tags the output of recall_tool_result with the id of the recall call
  itself and never offloads it, so the pointer that compaction leaves in its place names
  an id under which nothing is stored: following it returns an error although it says the
  full content remains there.
\<close>

theorem recall_pointer_dangles:
  assumes "run_tools msgs = [Msg m]" "is_recall_output msgs (Msg m)" "kwargs m = []"
    and "scoped tn tk (tool_call_id m) None" "s3_list_keys (prefix_for tn tk (tool_call_id m) None) b = []"
    and "tool_node pr (Some s3_put) tn tk now_iso run_tools msgs b = (out, b', evs)"
  shows "b' = b \<and> (\<exists>m'. out = [Msg m'] \<and> content m' = content m \<and> is_recalled m'
    \<and> content (recall_pointer m') = Plain (reference_placeholder (tool_call_id m)))
    \<and> startswith ERROR_NO_HASH (s3_recall pr b' tn tk (tool_call_id m) None)"
proof -
  let ?m' = "stamp_emitted_at now_iso (tag_recall_message (tool_call_id m) m)"
  have "b' = b" "out = [Msg ?m']"
    using assms(1,2,6) by (simp_all add: tool_node_threads node_step_def tag_output_def stamp_output_def)
  moreover have "role ?m' = role m" "content ?m' = content m"
    by (simp_all add: stamp_emitted_at_def tag_recall_message_def)
  moreover have "is_tool m" using assms(2) by (simp add: is_recall_output_def)
  moreover have "kwarg ''recalled'' ?m' = Some (JBool True)" "kwarg ''original_tool_call_id'' ?m' = Some (JStr (tool_call_id m))"
    using tagged_kwargs [OF assms(3)] by (simp_all add: kwarg_stamp)
  ultimately show ?thesis
    using s3.recall_unknown_id [OF assms(4,5)]
    by (simp add: is_recalled_def is_tool_def kwarg_true_def json_truthy_def recall_pointer_def original_id_def s3_recall_def)
qed

definition recall_call :: message where
  "recall_call = (plain_message Ai [])\<lparr>tool_calls := [\<lparr>tc_id = Some (lit ''c1''), tc_name = RECALL_NAME,
     tc_args = [(''tool_call_id'', JStr (lit ''c0''))]\<rparr>]\<rparr>"

definition recall_output :: message where
  "recall_output = (plain_message ToolRole (lit ''full content''))\<lparr>tool_call_id := lit ''c1''\<rparr>"

theorem recall_pointer_dangles_witness:
  "startswith ERROR_NO_HASH (s3_recall (\<lambda>_. True)
     (fst (snd (tool_node (\<lambda>_. True) (Some s3_put) (lit ''t'') (lit ''x'') JNull (\<lambda>_. [Msg recall_output]) [recall_call] [])))
     (lit ''t'') (lit ''x'') (lit ''c1'') None)"
proof -
  obtain out b' evs where r: "tool_node (\<lambda>_. True) (Some s3_put) (lit ''t'') (lit ''x'') JNull
      (\<lambda>_. [Msg recall_output]) [recall_call] [] = (out, b', evs)" by (metis prod_cases3)
  have id: "tool_call_id recall_output = lit ''c1''" "kwargs recall_output = []"
    by (simp_all add: recall_output_def plain_message_def)
  have rec: "is_recall_output [recall_call] (Msg recall_output)"
    by (simp add: is_recall_output_def call_names_def is_caller_def is_tool_def recall_call_def recall_output_def
        plain_message_def List.map_filter_simps)
  have "scoped (lit ''t'') (lit ''x'') (tool_call_id recall_output) None" using demo_scoped by (simp only: id)
  from recall_pointer_dangles [OF refl rec id(2) this _ r] show ?thesis
    by (auto simp: r id s3_list_keys_def)
qed

end
