(* ===== verification/Tokens.thy ===== *)
theory Tokens
  imports Messages "HOL-Library.List_Lexorder" "HOL-Library.Multiset"
begin

text \<open>
  \<open>executor/compaction/tokens.py\<close>: \<open>json.dumps(..., sort_keys=True)\<close>, the allow-listed
  serialisation of a message list and the token estimate.  Texts are ordered by code points.
  \<open>None\<close>: Python raises (a value that is not JSON, a text that UTF-8 cannot encode, the
  recursion limit).
\<close>

section \<open>\<open>json.dumps\<close> with sorted keys\<close>

definition hex4 :: "nat \<Rightarrow> pystr" where
  "hex4 n = lit [CHR 0x5C, CHR ''u''] @ map (\<lambda>k. hex_digit (n div 16 ^ k mod 16)) [3, 2, 1, 0]"

definition json_escape :: "bool \<Rightarrow> nat \<Rightarrow> pystr" where
  "json_escape ascii c =
     (if c = 34 then [92, 34] else if c = 92 then [92, 92] else if c = 10 then lit [CHR 0x5C, CHR ''n'']
      else if c = 13 then lit [CHR 0x5C, CHR ''r''] else if c = 9 then lit [CHR 0x5C, CHR ''t'']
      else if c = 12 then lit [CHR 0x5C, CHR ''f''] else if c = 8 then lit [CHR 0x5C, CHR ''b'']
      else if c < 32 \<or> ascii \<and> 127 \<le> c \<and> c < 65536 then hex4 c
      else if ascii \<and> 65536 \<le> c
      then hex4 (55296 + (c - 65536) div 1024) @ hex4 (56320 + (c - 65536) mod 1024)
      else [c])"

definition json_quote :: "bool \<Rightarrow> pystr \<Rightarrow> pystr" where
  "json_quote ascii s = 34 # concat (map (json_escape ascii) s) @ [34]"

definition ITEM_SEP :: pystr where "ITEM_SEP = lit '', ''"

definition put_field :: "bool \<Rightarrow> string \<times> pystr \<Rightarrow> pystr" where
  "put_field ascii f = json_quote ascii (lit (fst f)) @ lit '': '' @ snd f"

fun dumps :: "bool \<Rightarrow> json \<Rightarrow> pystr option"
  and dumps_items :: "bool \<Rightarrow> json list \<Rightarrow> pystr list option"
  and dumps_fields :: "bool \<Rightarrow> (string \<times> json) list \<Rightarrow> (string \<times> pystr) list option" where
  "dumps ascii JNull = Some (lit ''null'')"
| "dumps ascii (JBool b) = Some (lit (if b then ''true'' else ''false''))"
| "dumps ascii (JNum i) = Some (dec i)"
| "dumps ascii (JStr s) = Some (json_quote ascii s)"
| "dumps ascii (JTime _) = None"
| "dumps ascii (JList js) = map_option (\<lambda>ts. lit ''['' @ join ITEM_SEP ts @ lit '']'') (dumps_items ascii js)"
| "dumps ascii (JObj kvs) =
     map_option (\<lambda>fs. lit ''{'' @ join ITEM_SEP (map (put_field ascii) (sort_key (\<lambda>f. lit (fst f)) fs)) @ lit ''}'')
       (dumps_fields ascii kvs)"
| "dumps_items ascii [] = Some []"
| "dumps_items ascii (j # js) =
     (case dumps ascii j of None \<Rightarrow> None | Some t \<Rightarrow> map_option ((#) t) (dumps_items ascii js))"
| "dumps_fields ascii [] = Some []"
| "dumps_fields ascii ((k, j) # kvs) =
     (case dumps ascii j of None \<Rightarrow> None | Some t \<Rightarrow> map_option ((#) (k, t)) (dumps_fields ascii kvs))"

section \<open>The serialisation of messages\<close>

definition role_name :: "role \<Rightarrow> string" where
  "role_name r = (case r of System \<Rightarrow> ''system'' | Human \<Rightarrow> ''human'' | Ai \<Rightarrow> ''ai'' | ToolRole \<Rightarrow> ''tool'')"

definition call_record :: "tool_call \<Rightarrow> json" where
  "call_record c = JObj [(''name'', JStr (tc_name c)), (''args'', JObj (tc_args c))]"

text \<open>The text of a message's content: \<open>None\<close> when the extraction raises.\<close>

type_synonym text_fn = "content \<Rightarrow> pystr option"

definition message_record :: "text_fn \<Rightarrow> message \<Rightarrow> json option" where
  "message_record text_of m =
     map_option (\<lambda>t. JObj ([(''type'', JStr (lit (role_name (role m)))), (''content'', JStr t)]
         @ (if is_caller m then [(''tool_calls'', JList (map call_record (tool_calls m)))] else [])
         @ (if is_tool m then [(''tool_call_id'', JStr (tool_call_id m))] else [])))
       (text_of (content m))"

definition serialize_items :: "text_fn \<Rightarrow> message list \<Rightarrow> pystr list option" where
  "serialize_items text_of ms = Option.bind (those (map (message_record text_of) ms)) (dumps_items False)"

definition serialize_for_token_count :: "text_fn \<Rightarrow> message list \<Rightarrow> pystr option" where
  "serialize_for_token_count text_of ms =
     Option.bind (those (map (message_record text_of) ms)) (\<lambda>rs. dumps False (JList rs))"

text \<open>
  \<open>tiktoken_len\<close> is the length of tiktoken's encoding, \<open>None\<close> when it is not installed or
  raises.  Every other provider counts a third of the bytes.
\<close>

definition encode_utf8 :: "pystr \<Rightarrow> nat list option" where
  "encode_utf8 s = (if list_all is_scalar s then Some (utf8 s) else None)"

definition estimate_tokens ::
  "text_fn \<Rightarrow> (pystr \<Rightarrow> nat option) \<Rightarrow> string \<Rightarrow> message list \<Rightarrow> nat option" where
  "estimate_tokens text_of tiktoken_len provider ms =
     (if ms = [] then Some 0
      else Option.bind (serialize_for_token_count text_of ms) (\<lambda>s.
        Option.bind (encode_utf8 s) (\<lambda>bytes.
          if provider = ''openai''
          then (case tiktoken_len s of Some n \<Rightarrow> Some n | None \<Rightarrow> Some (length bytes div 3))
          else Some (length bytes div 3))))"

section \<open>Lemmas\<close>

lemma those_append:
  "those (xs @ ys) = (case those xs of None \<Rightarrow> None | Some us \<Rightarrow> map_option (\<lambda>vs. us @ vs) (those ys))"
  by (cases "those ys"; induction xs) (auto split: option.splits)

lemma dumps_items_append:
  "dumps_items a (xs @ ys) = (case dumps_items a xs of None \<Rightarrow> None | Some us \<Rightarrow> map_option (\<lambda>vs. us @ vs) (dumps_items a ys))"
  by (cases "dumps_items a ys"; induction xs) (auto split: option.splits)

lemma dumps_items_length: "dumps_items a js = Some ts \<Longrightarrow> length ts = length js"
  by (induction js arbitrary: ts) (auto split: option.splits)

lemma those_length: "those xs = Some ys \<Longrightarrow> length ys = length xs"
  by (induction xs arbitrary: ys) (auto split: option.splits)

lemma utf8_lit_ascii: "list_all (\<lambda>c. of_char c < (128 :: nat)) s \<Longrightarrow> length (utf8 (lit s)) = length s"
  by (induction s) (auto simp: lit_def utf8_def utf8_char_def)

text \<open>
  The serialisation of a concatenation is the two serialisations with one comma and blank in
  place of the two inner brackets, so it has exactly as many bytes as the two together.
\<close>

lemma serialize_append:
  assumes "serialize_for_token_count text_of ms = Some s" "serialize_for_token_count text_of ns = Some t"
    and "ms \<noteq> []" "ns \<noteq> []"
  obtains s' t' where "s = lit ''['' @ s' @ lit '']''" "t = lit ''['' @ t' @ lit '']''"
    "serialize_for_token_count text_of (ms @ ns) = Some (lit ''['' @ (s' @ ITEM_SEP @ t') @ lit '']'')"
proof -
  from assms(1) obtain rs us where r: "those (map (message_record text_of) ms) = Some rs"
    "dumps_items False rs = Some us" "s = lit ''['' @ join ITEM_SEP us @ lit '']''"
    by (auto simp: serialize_for_token_count_def bind_eq_Some_conv)
  from assms(2) obtain rs' us' where r': "those (map (message_record text_of) ns) = Some rs'"
    "dumps_items False rs' = Some us'" "t = lit ''['' @ join ITEM_SEP us' @ lit '']''"
    by (auto simp: serialize_for_token_count_def bind_eq_Some_conv)
  have "us \<noteq> []" "us' \<noteq> []"
    using assms(3,4) those_length [OF r(1)] those_length [OF r'(1)] dumps_items_length [OF r(2)]
      dumps_items_length [OF r'(2)] by force+
  then show ?thesis
    using that [OF r(3) r'(3)] r r'
    by (simp add: serialize_for_token_count_def those_append dumps_items_append join_append)
qed

lemma length_utf8_sep:
  "length (utf8 (lit ''[''  @ (s @ ITEM_SEP @ t) @ lit '']'')) =
   length (utf8 (lit ''['' @ s @ lit '']'')) + length (utf8 (lit ''['' @ t @ lit '']''))"
  by (simp add: ITEM_SEP_def utf8_lit_ascii)

text \<open>The estimate of a concatenation is the sum of the estimates, up to one token of rounding.\<close>

theorem estimate_is_additive:
  assumes "provider \<noteq> ''openai''"
    and "estimate_tokens text_of tik provider ms = Some m" "estimate_tokens text_of tik provider ns = Some n"
  shows "\<exists>k. estimate_tokens text_of tik provider (ms @ ns) = Some k \<and> m + n \<le> k \<and> k \<le> m + n + 1"
proof (cases "ms = [] \<or> ns = []")
  case True
  then show ?thesis using assms(2,3) by (auto simp: estimate_tokens_def)
next
  case False
  with assms obtain s t where s: "serialize_for_token_count text_of ms = Some s"
      "list_all is_scalar s" "m = length (utf8 s) div 3"
    and t: "serialize_for_token_count text_of ns = Some t" "list_all is_scalar t" "n = length (utf8 t) div 3"
    by (auto simp: estimate_tokens_def encode_utf8_def bind_eq_Some_conv split: if_splits)
  from serialize_append [OF s(1) t(1)] False obtain s' t' where
    st: "s = lit ''['' @ s' @ lit '']''" "t = lit ''['' @ t' @ lit '']''"
    "serialize_for_token_count text_of (ms @ ns) = Some (lit ''['' @ (s' @ ITEM_SEP @ t') @ lit '']'')"
    by blast
  have "list_all is_scalar (lit ''['' @ (s' @ ITEM_SEP @ t') @ lit '']'')"
    using s(2) t(2) by (simp add: st ITEM_SEP_def lit_def is_scalar_def)
  then have "estimate_tokens text_of tik provider (ms @ ns) = Some ((length (utf8 s) + length (utf8 t)) div 3)"
    using assms(1) False by (simp add: estimate_tokens_def st(3) encode_utf8_def length_utf8_sep st(1,2) del: utf8_append append_assoc)
  moreover have "m + n \<le> (length (utf8 s) + length (utf8 t)) div 3"
    "(length (utf8 s) + length (utf8 t)) div 3 \<le> m + n + 1" unfolding s(3) t(3) by linarith+
  ultimately show ?thesis by blast
qed

section \<open>The estimate survives a checkpoint\<close>

text \<open>
  The same JSON value up to the order of object keys, and the same message up to that order and
  up to the fields that the serialisation does not list.
\<close>

inductive same_json :: "json \<Rightarrow> json \<Rightarrow> bool" where
  same: "same_json j j"
| items: "list_all2 same_json js js' \<Longrightarrow> same_json (JList js) (JList js')"
| fields: "list_all2 (rel_prod (=) same_json) kvs kvs1 \<Longrightarrow> mset kvs1 = mset kvs' \<Longrightarrow> distinct (map fst kvs')
    \<Longrightarrow> same_json (JObj kvs) (JObj kvs')"

definition same_call :: "tool_call \<Rightarrow> tool_call \<Rightarrow> bool" where
  "same_call c d \<longleftrightarrow> tc_name c = tc_name d \<and> same_json (JObj (tc_args c)) (JObj (tc_args d))"

definition same_message :: "message \<Rightarrow> message \<Rightarrow> bool" where
  "same_message m n \<longleftrightarrow> role m = role n \<and> content m = content n \<and> tool_call_id m = tool_call_id n
     \<and> list_all2 same_call (tool_calls m) (tool_calls n)"

lemma dumps_items_those: "dumps_items a js = those (map (dumps a) js)"
  by (induction js) (auto split: option.split)

lemma dumps_fields_those:
  "dumps_fields a kvs = those (map (\<lambda>(k, j). map_option (Pair k) (dumps a j)) kvs)"
  by (induction kvs) (auto split: option.split prod.split)

lemma those_None: "those xs = None \<longleftrightarrow> None \<in> set xs"
  by (induction xs) (auto split: option.splits)

lemma inj_lit: "inj lit"
  by (simp add: lit_def inj_on_def inj_map_eq_map [OF inj_of_char])

lemma sort_key_mset:
  assumes "mset fs = mset gs" "distinct (map fst gs)"
  shows "sort_key (\<lambda>f. lit (fst f)) fs = sort_key (\<lambda>f. lit (fst f)) gs"
proof (rule sort_key_inj_key_eq [OF _ _ sorted_sort_key])
  show "mset fs = mset (sort_key (\<lambda>f. lit (fst f)) gs)" using assms(1) by simp
  have "inj_on fst (set fs)" using assms by (metis distinct_map mset_eq_setD)
  then show "inj_on (\<lambda>f. lit (fst f)) (set fs)" using inj_lit by (auto simp: inj_on_def)
qed

lemma fields_keys:
  "map Some gs = map (\<lambda>(k, j). map_option (Pair k) (f j)) kvs \<Longrightarrow> map fst gs = map fst kvs"
proof (induction kvs arbitrary: gs)
  case (Cons p kvs)
  then show ?case by (cases p; cases "f (snd p)") auto
qed simp

lemma fields_cong:
  "list_all2 (rel_prod (=) (\<lambda>j j'. R j j' \<and> f j = f j')) kvs kvs' \<Longrightarrow>
   map (\<lambda>(k, j). map_option (Pair k) (f j)) kvs = map (\<lambda>(k, j). map_option (Pair k) (f j)) kvs'"
  by (induction kvs kvs' rule: list_all2_induct) auto

lemma dumps_fields_perm:
  assumes "mset kvs = mset kvs'" "distinct (map fst kvs')"
  shows "dumps a (JObj kvs) = dumps a (JObj kvs')"
proof -
  let ?d = "\<lambda>(k, j). map_option (Pair k) (dumps a j)"
  have m: "mset (map ?d kvs) = mset (map ?d kvs')" using assms(1) by simp
  show ?thesis
  proof (cases "those (map ?d kvs)")
    case None
    then have "those (map ?d kvs') = None" using m mset_eq_setD those_None by metis
    with None show ?thesis by (simp add: dumps_fields_those)
  next
    case (Some fs)
    then obtain gs where gs: "those (map ?d kvs') = Some gs" using m mset_eq_setD those_None by (metis option.exhaust)
    have "map Some fs = map ?d kvs" "map Some gs = map ?d kvs'" using Some gs by (simp_all add: those_Some)
    then have "image_mset Some (mset fs) = image_mset Some (mset gs)" by (metis m mset_map)
    then have "mset fs = mset gs" by (metis inj_Some multiset.inj_map_strong option.inject)
    moreover have "map fst gs = map fst kvs'"
      by (rule fields_keys [of gs "dumps a"]) (use gs in \<open>simp add: those_Some\<close>)
    ultimately have "sort_key (\<lambda>f. lit (fst f)) fs = sort_key (\<lambda>f. lit (fst f)) gs"
      using sort_key_mset assms(2) by metis
    then show ?thesis using Some gs by (simp add: dumps_fields_those)
  qed
qed

lemma dumps_same_json: "same_json j j' \<Longrightarrow> dumps a j = dumps a j'"
proof (induction rule: same_json.induct)
  case (items js js')
  then have "map (dumps a) js = map (dumps a) js'" by (auto simp: list_all2_conv_all_nth list_eq_iff_nth_eq)
  then show ?case by (simp add: dumps_items_those)
next
  case (fields kvs kvs1 kvs')
  have "dumps_fields a kvs = dumps_fields a kvs1"
    unfolding dumps_fields_those by (rule arg_cong [of _ _ those], rule fields_cong, rule fields(1))
  then have "dumps a (JObj kvs) = dumps a (JObj kvs1)" by (simp only: dumps.simps)
  also have "\<dots> = dumps a (JObj kvs')" using fields(2,3) by (rule dumps_fields_perm)
  finally show ?case .
qed simp

lemma same_object:
  "list_all2 same_json (map snd kvs) (map snd kvs') \<Longrightarrow> map fst kvs = map fst kvs' \<Longrightarrow>
   distinct (map fst kvs') \<Longrightarrow> same_json (JObj kvs) (JObj kvs')"
  by (rule same_json.fields [OF _ refl])
    (auto simp: list_all2_conv_all_nth rel_prod_sel list_eq_iff_nth_eq)

lemma same_call_record: "same_call c d \<Longrightarrow> same_json (call_record c) (call_record d)"
  by (auto simp: call_record_def same_call_def intro!: same_object same_json.same)

lemma same_message_record:
  assumes "same_message m n"
  shows "rel_option same_json (message_record text_of m) (message_record text_of n)"
proof -
  have calls: "list_all2 same_json (map call_record (tool_calls m)) (map call_record (tool_calls n))"
    using assms same_call_record by (auto simp: same_message_def list_all2_conv_all_nth)
  have "is_caller m = is_caller n" "is_tool m = is_tool n"
    using assms by (auto simp: same_message_def is_caller_def is_tool_def)
  then show ?thesis
    using assms calls
    by (cases "text_of (content n)")
      (auto simp: message_record_def same_message_def intro!: same_object same_json.same same_json.items)
qed

lemma those_rel: "list_all2 (rel_option R) xs ys \<Longrightarrow> rel_option (list_all2 R) (those xs) (those ys)"
  by (induction xs ys rule: list_all2_induct)
    (auto elim!: option.rel_cases simp: option.rel_map split: option.splits)

text \<open>
  The token estimate depends only on what a checkpoint preserves: two message lists
  with equal roles, contents, tool names, arguments up to the order of object keys, and
  tool call ids have the same estimate, for every provider.
\<close>

theorem estimate_survives_checkpoint:
  assumes "list_all2 same_message ms ns"
  shows "estimate_tokens text_of tik provider ms = estimate_tokens text_of tik provider ns"
proof -
  let ?r = "map (message_record text_of)"
  have "list_all2 (rel_option same_json) (?r ms) (?r ns)"
    using assms same_message_record by (auto simp: list_all2_conv_all_nth)
  then have "rel_option (list_all2 same_json) (those (?r ms)) (those (?r ns))"
    by (rule those_rel)
  then have "serialize_for_token_count text_of ms = serialize_for_token_count text_of ns"
    by (cases "those (?r ms)"; cases "those (?r ns)")
      (auto simp: serialize_for_token_count_def simp del: dumps.simps intro: dumps_same_json same_json.items)
  moreover have "ms = [] \<longleftrightarrow> ns = []" using assms by auto
  ultimately show ?thesis by (simp add: estimate_tokens_def)
qed

section \<open>Witnesses\<close>

definition plain_text :: text_fn where
  "plain_text c = (case c of Plain s \<Rightarrow> Some s | Blocks _ \<Rightarrow> None)"

lemma demo_estimate: "estimate_tokens plain_text (\<lambda>_. None) ''anthropic'' [plain_message Human [104, 105]] = Some 12"
  by (simp add: estimate_tokens_def serialize_for_token_count_def message_record_def plain_message_def plain_text_def
      is_caller_def is_tool_def role_name_def put_field_def json_quote_def json_escape_def ITEM_SEP_def lit_def
      encode_utf8_def is_scalar_def utf8_def utf8_char_def)

theorem estimate_is_additive_witness:
  "\<exists>k. estimate_tokens plain_text (\<lambda>_. None) ''anthropic'' ([plain_message Human [104, 105]] @ [plain_message Human [104, 105]])
     = Some k \<and> 24 \<le> k \<and> k \<le> 25"
  using estimate_is_additive [OF _ demo_estimate demo_estimate] by simp

theorem estimate_survives_checkpoint_witness:
  "estimate_tokens plain_text (\<lambda>_. None) ''anthropic''
     [(plain_message Ai [104])\<lparr>tool_calls := [\<lparr>tc_id = None, tc_name = [97], tc_args = [(''a'', JNum 1), (''b'', JNull)]\<rparr>]\<rparr>]
   = estimate_tokens plain_text (\<lambda>_. None) ''anthropic''
     [(plain_message Ai [104])\<lparr>msg_id := Some [49],
        tool_calls := [\<lparr>tc_id = Some [50], tc_name = [97], tc_args = [(''b'', JNull), (''a'', JNum 1)]\<rparr>]\<rparr>]"
proof (rule estimate_survives_checkpoint)
  have "same_json (JObj [(''a'', JNum 1), (''b'', JNull)]) (JObj [(''b'', JNull), (''a'', JNum 1)])"
    by (rule same_json.fields [of _ "[(''a'', JNum 1), (''b'', JNull)]"])
      (auto simp: rel_prod_sel intro: same_json.same)
  then show "list_all2 same_message
     [(plain_message Ai [104])\<lparr>tool_calls := [\<lparr>tc_id = None, tc_name = [97], tc_args = [(''a'', JNum 1), (''b'', JNull)]\<rparr>]\<rparr>]
     [(plain_message Ai [104])\<lparr>msg_id := Some [49],
        tool_calls := [\<lparr>tc_id = Some [50], tc_name = [97], tc_args = [(''b'', JNull), (''a'', JNum 1)]\<rparr>]\<rparr>]"
    by (simp add: same_message_def same_call_def plain_message_def)
qed

end
