(* ===== verification/Failures.thy ===== *)
theory Failures
  imports Complex_Main Text
begin

text \<open>
  \<open>executor/retry_classification.py\<close>, its copy in \<open>compaction/summarizer.py\<close>, and the
  rate-limit test and back-off of \<open>executor/graph.py\<close>: which exceptions are transient.

  An exception is its class, as far as the code tests it, its text, and its chain of causes:
  per exception of the chain (itself first) the \<open>status_code\<close> when that is an integer, and the
  \<open>retry-after\<close> header of its \<open>response\<close>.  Seconds are rationals.  \<open>str.lower\<close> is needed on ASCII
  letters only, as the texts searched for are ASCII and no other character becomes one of their
  letters in a place where they match.  The regular expressions' \<open>\b\<close> asks which characters
  beyond ASCII are word characters; that table is the argument \<open>uword\<close>.
\<close>

datatype exn_class = McpCall | Connection | BotoTimeout | OtherExn

record link =
  status_code :: "int option"
  retry_header :: "rat option option"

record exn =
  ex_class :: exn_class
  ex_text :: pystr
  ex_chain :: "link list"

definition RETRYABLE_STATUS_CODES :: "int list" where
  "RETRYABLE_STATUS_CODES = [429, 500, 502, 503, 504, 529]"

definition walk_exception_chain :: "exn \<Rightarrow> link list" where
  "walk_exception_chain e = take 5 (ex_chain e)"

definition extract_status_code :: "exn \<Rightarrow> int option" where
  "extract_status_code e =
     Option.bind (find (\<lambda>l. status_code l \<noteq> None) (walk_exception_chain e)) status_code"

text \<open>The first exception with a \<open>response\<close> decides; an absent or malformed header gives none.\<close>

definition get_retry_after :: "exn \<Rightarrow> rat option" where
  "get_retry_after e =
     Option.bind (Option.bind (find (\<lambda>l. retry_header l \<noteq> None) (walk_exception_chain e)) retry_header) id"

definition lower :: "pystr \<Rightarrow> pystr" where
  "lower s = map (\<lambda>c. if 65 \<le> c \<and> c \<le> 90 then c + 32 else c) s"

definition is_word :: "(nat \<Rightarrow> bool) \<Rightarrow> nat \<Rightarrow> bool" where
  "is_word uword c \<longleftrightarrow>
     (if c < 128 then 48 \<le> c \<and> c \<le> 57 \<or> 65 \<le> c \<and> c \<le> 90 \<or> 97 \<le> c \<and> c \<le> 122 \<or> c = 95 else uword c)"

text \<open>\<open>re.search(r'\bXYZ\b', s)\<close> where \<open>XYZ\<close> is one of the three-digit \<open>codes\<close>.\<close>

fun search_code :: "(nat \<Rightarrow> bool) \<Rightarrow> pystr list \<Rightarrow> bool \<Rightarrow> pystr \<Rightarrow> bool" where
  "search_code uword codes after_word [] = False"
| "search_code uword codes after_word (c # s) =
     (\<not> after_word \<and> take 3 (c # s) \<in> set codes
        \<and> (case drop 3 (c # s) of [] \<Rightarrow> True | d # _ \<Rightarrow> \<not> is_word uword d)
      \<or> search_code uword codes (is_word uword c) s)"

definition SERVER_CODES :: "pystr list" where
  "SERVER_CODES = map lit [''500'', ''502'', ''503'', ''504'']"

definition CLIENT_CODES :: "pystr list" where
  "CLIENT_CODES = map lit [''400'', ''401'', ''402'', ''403'', ''404'']"

definition mentions_rate_limit :: "pystr \<Rightarrow> bool" where
  "mentions_rate_limit s \<longleftrightarrow>
     contains_text (lit ''429'') s \<or> contains_text (lit ''rate limit'') s \<or> contains_text (lit ''rate exceeded'') s"

definition mentions_timeout :: "pystr \<Rightarrow> bool" where
  "mentions_timeout s \<longleftrightarrow> contains_text (lit ''read timeout'') s \<or> contains_text (lit ''connect timeout'') s"

definition mentions_bad_request :: "pystr \<Rightarrow> bool" where
  "mentions_bad_request s \<longleftrightarrow> contains_text (lit ''validation'') s \<or> contains_text (lit ''invalid'') s
     \<or> contains_text (lit ''unsupported'') s \<or> contains_text (lit ''pydantic'') s"

definition is_retryable_error :: "(nat \<Rightarrow> bool) \<Rightarrow> exn \<Rightarrow> bool" where
  "is_retryable_error uword e =
     (if ex_class e = McpCall then True
      else if ex_class e = Connection then True
      else if ex_class e = BotoTimeout then True
      else case extract_status_code e of
        Some status \<Rightarrow> status \<in> set RETRYABLE_STATUS_CODES
      | None \<Rightarrow>
          let s = lower (ex_text e) in
          if mentions_rate_limit s then True
          else if search_code uword SERVER_CODES False s then True
          else if mentions_timeout s then True
          else if mentions_bad_request s then False
          else if search_code uword CLIENT_CODES False s then False
          else False)"

text \<open>The summariser's own copy.\<close>

definition summarizer_is_retryable :: "(nat \<Rightarrow> bool) \<Rightarrow> exn \<Rightarrow> bool" where
  "summarizer_is_retryable uword e =
     (if ex_class e = Connection then True
      else case extract_status_code e of
        Some status \<Rightarrow> status \<in> set RETRYABLE_STATUS_CODES
      | None \<Rightarrow>
          let s = lower (ex_text e) in
          if mentions_rate_limit s then True
          else if search_code uword SERVER_CODES False s then True
          else if mentions_bad_request s then False
          else if search_code uword CLIENT_CODES False s then False
          else False)"

definition is_rate_limit_error :: "exn \<Rightarrow> bool" where
  "is_rate_limit_error e \<longleftrightarrow> extract_status_code e = Some 429 \<or> mentions_rate_limit (lower (ex_text e))"

text \<open>\<open>self._get_retry_after(e) or other\<close>: zero seconds are falsy.\<close>

definition backoff_or :: "rat \<Rightarrow> exn \<Rightarrow> rat" where
  "backoff_or other e = (case get_retry_after e of Some x \<Rightarrow> if x = 0 then other else x | None \<Rightarrow> other)"

section \<open>The two classifiers\<close>

text \<open>
  The copies have drifted apart: the summariser takes for permanent what the shared
  classifier retries when a botocore or MCP error, or a timeout text, arrives.
\<close>

definition only_shared_retries :: "(nat \<Rightarrow> bool) \<Rightarrow> exn \<Rightarrow> bool" where
  "only_shared_retries uword e \<longleftrightarrow>
     ex_class e \<in> {McpCall, BotoTimeout}
     \<or> extract_status_code e = None \<and> mentions_timeout (lower (ex_text e))"

text \<open>
  The shared retry classifier agrees with the summariser's copy except that it also
  retries MCP and botocore timeout errors, and errors without a status whose text says
  read timeout or connect timeout.
\<close>

theorem retry_classifiers_differ_exactly:
  "is_retryable_error uword e \<longleftrightarrow> summarizer_is_retryable uword e \<or> only_shared_retries uword e"
  by (cases "ex_class e"; cases "extract_status_code e")
    (simp_all add: is_retryable_error_def summarizer_is_retryable_def only_shared_retries_def Let_def)

end
