(* ===== verification/Summarizer.thy ===== *)
theory Summarizer
  imports Tokens Failures Compaction Repositories
begin

text \<open>
  \<open>executor/compaction/summarizer.py\<close>: one summary of a slice of the journal, by one call of
  the summariser model or, when the slice does not fit the model, by halving it recursively.
  The provider, the pricing lookup and the content extraction are arguments; the ledger is the
  table of \<open>Repositories\<close> behind the adapter of \<open>executor/graph.py\<close>, or any ledger that keeps
  the laws of the locale below.  Log lines are left out.  \<open>None\<close>: the function raises.
\<close>

section \<open>Prompts\<close>

text \<open>\<open>f(x)\<close> for the tool calls of a message, its arguments with sorted keys.\<close>

definition format_call :: "tool_call \<Rightarrow> pystr option" where
  "format_call c = map_option (\<lambda>args. tc_name c @ lit ''('' @ args @ lit '')'') (dumps True (JObj (tc_args c)))"

definition format_message :: "text_fn \<Rightarrow> nat \<Rightarrow> message \<Rightarrow> pystr list option" where
  "format_message text_of idx m =
     Option.bind (text_of (content m)) (\<lambda>c. case role m of
       System \<Rightarrow> Some [lit ''SYSTEM: '' @ c]
     | Human \<Rightarrow> Some [lit ''USER: '' @ c]
     | Ai \<Rightarrow>
         let header = lit ''ASSISTANT (step '' @ dec_nat idx @ lit ''): '' @ c in
         if tool_calls m = [] then Some [header]
         else map_option (\<lambda>parts. [header, lit ''  tool_calls: ['' @ join ITEM_SEP parts @ lit '']''])
                (those (map format_call (tool_calls m)))
     | ToolRole \<Rightarrow>
         Some [lit ''TOOL_RESULT (call_id='' @ tool_call_id m @ lit '', name=''
           @ (case msg_name m of None \<Rightarrow> [] | Some n \<Rightarrow> n) @ lit ''): '' @ c])"

fun format_lines :: "text_fn \<Rightarrow> nat \<Rightarrow> message list \<Rightarrow> pystr list option" where
  "format_lines text_of idx [] = Some []"
| "format_lines text_of idx (m # ms) =
     (case format_message text_of idx m of
        None \<Rightarrow> None
      | Some ls \<Rightarrow> map_option (\<lambda>rest. ls @ rest) (format_lines text_of (idx + 1) ms))"

definition format_messages_for_summary :: "text_fn \<Rightarrow> message list \<Rightarrow> pystr option" where
  "format_messages_for_summary text_of ms = map_option (join [NL]) (format_lines text_of 0 ms)"

definition FRAMING :: pystr where
  "FRAMING =
     lit ''Summarize the following agent tool-use history into one coherent'' @ [NL] @
     lit ''summary, following the rules in the system prompt. Remember: collapse'' @ [NL] @
     lit ''homogeneous tool_call batches (same tool name + patterned args) into a'' @ [NL] @
     lit ''count + pattern line; preserve one-off calls, decisions, user intent,'' @ [NL] @
     lit ''and facts the agent cannot cheaply re-derive.'' @ [NL, NL]"

definition with_prior :: "pystr \<Rightarrow> pystr \<Rightarrow> pystr" where
  "with_prior prior serialized =
     lit ''PRIOR SUMMARY (context from earlier compaction '' @ [8212] @ lit '' not part of the slice below):''
     @ [NL] @ prior @ [NL, NL] @ lit ''MESSAGES TO COMPRESS:'' @ [NL] @ serialized"

definition human_content :: "pystr \<Rightarrow> pystr \<Rightarrow> pystr" where
  "human_content prior serialized =
     (if prior \<noteq> [] then FRAMING @ with_prior prior serialized
      else FRAMING @ lit ''MESSAGES TO COMPRESS:'' @ [NL] @ serialized)"

section \<open>Provider answers\<close>

record response =
  rs_content :: content
  rs_metadata :: json
  rs_usage :: "json option"
  rs_latency :: int

definition response_metadata :: "response \<Rightarrow> json" where
  "response_metadata r =
     (case rs_usage r of
        Some u \<Rightarrow>
          if json_truthy u
          then (case rs_metadata r of JObj kvs \<Rightarrow> JObj (set_default ''usage_metadata'' u kvs) | j \<Rightarrow> j)
          else rs_metadata r
      | None \<Rightarrow> rs_metadata r)"

definition token_count :: "json \<Rightarrow> string \<Rightarrow> string \<Rightarrow> int option" where
  "token_count usage k k' =
     (case or_else (json_get k usage) (json_get k' usage) of
        None \<Rightarrow> Some 0
      | Some j \<Rightarrow> if json_truthy j then py_int j else Some 0)"

definition extract_tokens :: "json \<Rightarrow> (int \<times> int) option" where
  "extract_tokens meta =
     (let usage = (case or_else (json_get ''usage'' meta) (or_else (json_get ''token_usage'' meta)
            (json_get ''usage_metadata'' meta)) of Some j \<Rightarrow> if json_truthy j then j else JObj [] | None \<Rightarrow> JObj [])
      in case usage of
           JObj _ \<Rightarrow>
             (case (token_count usage ''input_tokens'' ''prompt_tokens'',
                    token_count usage ''output_tokens'' ''completion_tokens'') of
                (Some i, Some out) \<Rightarrow> Some (i, out) | _ \<Rightarrow> None)
         | _ \<Rightarrow> None)"

definition rollup_cost :: "int \<Rightarrow> int \<Rightarrow> int \<Rightarrow> int \<Rightarrow> int" where
  "rollup_cost tokens_in tokens_out input_rate output_rate =
     (tokens_in * input_rate + tokens_out * output_rate) div 1000000"

section \<open>One call with its retries\<close>

definition SUMMARIZER_MAX_RETRIES :: nat where "SUMMARIZER_MAX_RETRIES = 2"
definition SUMMARIZER_MAX_OUTPUT_TOKENS :: nat where "SUMMARIZER_MAX_OUTPUT_TOKENS = 1500"
definition SUMMARIZER_INPUT_HEADROOM_TOKENS :: nat where "SUMMARIZER_INPUT_HEADROOM_TOKENS = 12000"

text \<open>
  What does not change during one invocation.  \<open>se_invoke\<close> answers the prompt it is given, and
  may answer differently each time: it also sees the calls made before.  \<open>se_price\<close>: there is
  no lookup; it raises; or it gives the two rates.
\<close>

record summary_call =
  cl_operation :: string
  cl_slice :: "message list"
  cl_prior :: pystr
  cl_prompt :: "message list"

record sum_env =
  se_now :: time
  se_tenant :: string
  se_agent :: string
  se_task :: string
  se_checkpoint :: "string option"
  se_model :: pystr
  se_through :: "int option"
  se_window :: "nat option"
  se_prompt :: pystr
  se_text :: text_fn
  se_uword :: "nat \<Rightarrow> bool"
  se_init_ok :: bool
  se_invoke :: "summary_call list \<Rightarrow> message list \<Rightarrow> exn + response"
  se_price :: "(int \<times> int) option option"

text \<open>The calls made so far, the seconds slept, and the ledger.\<close>

record 'd sum_world =
  sw_calls :: "summary_call list"
  sw_slept :: "rat list"
  sw_ledger :: 'd

type_synonym 'd ledger_insert = "ledger_row \<Rightarrow> 'd \<Rightarrow> exn + 'd"

definition skipped_result :: "sum_env \<Rightarrow> string \<Rightarrow> sum_result" where
  "skipped_result e reason =
     \<lparr>sr_skipped = True, sr_reason = Some (lit reason), sr_summary = None, sr_model = se_model e,
      sr_tokens_in = 0, sr_tokens_out = 0, sr_cost = 0, sr_latency = 0\<rparr>"

text \<open>The ledger adapter: a call without a checkpoint id books under a placeholder.\<close>

definition effective_checkpoint :: "string option \<Rightarrow> int option \<Rightarrow> string" where
  "effective_checkpoint ck through =
     (case ck of
        Some c \<Rightarrow> if c \<noteq> [] then c
          else (case through of Some n \<Rightarrow> ''compaction:'' @ map char_of (dec n) | None \<Rightarrow> ''compaction:unknown'')
      | None \<Rightarrow> (case through of Some n \<Rightarrow> ''compaction:'' @ map char_of (dec n) | None \<Rightarrow> ''compaction:unknown''))"

definition summary_row :: "sum_env \<Rightarrow> string \<Rightarrow> int \<Rightarrow> int \<Rightarrow> int \<Rightarrow> ledger_row" where
  "summary_row e op cost tokens_in tokens_out =
     \<lparr>l_tenant = se_tenant e, l_agent = se_agent e, l_task = se_task e,
      l_checkpoint = effective_checkpoint (se_checkpoint e) (se_through e), l_cost = cost,
      l_created_at = se_now e, l_operation = op, l_model_id = Some (se_model e),
      l_tokens_in = tokens_in, l_tokens_out = tokens_out, l_summarized_through = se_through e\<rparr>"

text \<open>
  What Python raises on a value of the wrong type, and when the extraction of nested content
  runs into the recursion limit; neither text is one that the classifier looks for.
\<close>

definition type_error :: exn where
  "type_error = \<lparr>ex_class = OtherExn, ex_text = lit ''object has no attribute'', ex_chain = []\<rparr>"

definition recursion_error :: exn where
  "recursion_error = \<lparr>ex_class = OtherExn, ex_text = lit ''maximum recursion depth exceeded'', ex_chain = []\<rparr>"

definition call_cost :: "sum_env \<Rightarrow> int \<Rightarrow> int \<Rightarrow> int" where
  "call_cost e i out =
     (case se_price e of Some (Some (rate_in, rate_out)) \<Rightarrow> rollup_cost i out rate_in rate_out | _ \<Rightarrow> 0)"

text \<open>The body of the \<open>try\<close>.\<close>

definition book_answer :: "sum_env \<Rightarrow> 'd ledger_insert \<Rightarrow> string \<Rightarrow> response \<Rightarrow> 'd \<Rightarrow> (exn + sum_result) \<times> 'd" where
  "book_answer e book op r d =
     (case extract_tokens (response_metadata r) of
        None \<Rightarrow> (Inl type_error, d)
      | Some (i, out) \<Rightarrow>
          (case book (summary_row e op (call_cost e i out) i out) d of
             Inl ex \<Rightarrow> (Inl ex, d)
           | Inr d' \<Rightarrow>
               (case se_text e (rs_content r) of
                  None \<Rightarrow> (Inl recursion_error, d')
                | Some text \<Rightarrow>
                    (Inr \<lparr>sr_skipped = False, sr_reason = None, sr_summary = Some text, sr_model = se_model e,
                          sr_tokens_in = i, sr_tokens_out = out, sr_cost = call_cost e i out,
                          sr_latency = rs_latency r\<rparr>, d'))))"

definition attempt_once ::
  "sum_env \<Rightarrow> 'd ledger_insert \<Rightarrow> summary_call \<Rightarrow> 'd sum_world \<Rightarrow> (exn + sum_result) \<times> 'd sum_world" where
  "attempt_once e book c w =
     (let w' = w\<lparr>sw_calls := sw_calls w @ [c]\<rparr> in
      case se_invoke e (sw_calls w) (cl_prompt c) of
        Inl ex \<Rightarrow> (Inl ex, w')
      | Inr r \<Rightarrow>
          let (res, d') = book_answer e book (cl_operation c) r (sw_ledger w)
          in (res, w'\<lparr>sw_ledger := d'\<rparr>))"

fun attempt_loop ::
  "sum_env \<Rightarrow> 'd ledger_insert \<Rightarrow> summary_call \<Rightarrow> nat \<Rightarrow> nat \<Rightarrow> 'd sum_world \<Rightarrow> sum_result \<times> 'd sum_world" where
  "attempt_loop e book c attempt 0 w = (skipped_result e ''retryable'', w)"
| "attempt_loop e book c attempt (Suc left) w =
     (case attempt_once e book c w of
        (Inr res, w') \<Rightarrow> (res, w')
      | (Inl ex, w') \<Rightarrow>
          if \<not> summarizer_is_retryable (se_uword e) ex then (skipped_result e ''fatal'', w')
          else attempt_loop e book c (attempt + 1) left
                 (w'\<lparr>sw_slept := sw_slept w' @ [backoff_or (min 30 (2 ^ attempt)) ex]\<rparr>))"

definition summarize_single_call ::
  "sum_env \<Rightarrow> 'd ledger_insert \<Rightarrow> string \<Rightarrow> pystr \<Rightarrow> message list \<Rightarrow> 'd sum_world
   \<Rightarrow> (sum_result \<times> 'd sum_world) option" where
  "summarize_single_call e book op prior ms w =
     (case format_messages_for_summary (se_text e) ms of
        None \<Rightarrow> None
      | Some serialized \<Rightarrow>
          if \<not> se_init_ok e then None
          else Some (attempt_loop e book
                 \<lparr>cl_operation = op, cl_slice = ms, cl_prior = prior,
                  cl_prompt = [plain_message System (se_prompt e), plain_message Human (human_content prior serialized)]\<rparr>
                 0 (SUMMARIZER_MAX_RETRIES + 1) w))"

section \<open>Chunking\<close>

definition heuristic_token_count :: "pystr \<Rightarrow> nat option" where
  "heuristic_token_count s =
     (if s = [] then Some 0 else map_option (\<lambda>bs. max 1 (length bs div 3)) (encode_utf8 s))"

definition estimate_payload_tokens :: "sum_env \<Rightarrow> message list \<Rightarrow> pystr \<Rightarrow> nat option" where
  "estimate_payload_tokens e ms prior =
     Option.bind (format_messages_for_summary (se_text e) ms) (\<lambda>serialized.
       let human = (if prior \<noteq> [] then with_prior prior serialized else serialized) in
       Option.bind (heuristic_token_count (se_prompt e)) (\<lambda>a. map_option ((+) a) (heuristic_token_count human)))"

definition payload_fits :: "sum_env \<Rightarrow> message list \<Rightarrow> pystr \<Rightarrow> nat \<Rightarrow> bool option" where
  "payload_fits e ms prior window =
     map_option (\<lambda>n. n + SUMMARIZER_MAX_OUTPUT_TOKENS + SUMMARIZER_INPUT_HEADROOM_TOKENS \<le> window)
       (estimate_payload_tokens e ms prior)"

definition find_safe_split :: "message list \<Rightarrow> nat \<times> bool" where
  "find_safe_split middle =
     (let midpoint = length middle div 2 in
      case find (\<lambda>j. \<not> is_tool (middle ! j)) (rev [1..<midpoint + 1]) of
        Some j \<Rightarrow> (j, False)
      | None \<Rightarrow> (midpoint, True))"

lemma find_safe_split_progress:
  assumes "2 \<le> length ms"
  shows "0 < fst (find_safe_split ms)" "fst (find_safe_split ms) < length ms"
proof -
  have "0 < fst (find_safe_split ms) \<and> fst (find_safe_split ms) < length ms"
    using assms by (auto simp: find_safe_split_def Let_def split: option.split dest!: find_Some_props)
  then show "0 < fst (find_safe_split ms)" "fst (find_safe_split ms) < length ms" by auto
qed

definition zero_out_cost_on_skip :: "sum_result \<Rightarrow> sum_result" where
  "zero_out_cost_on_skip r =
     (if \<not> sr_skipped r then r
      else r\<lparr>sr_summary := None, sr_tokens_in := 0, sr_tokens_out := 0, sr_cost := 0, sr_latency := 0\<rparr>)"

definition chunk_text :: "sum_result \<Rightarrow> message" where
  "chunk_text r = plain_message Ai (case sr_summary r of None \<Rightarrow> [] | Some s \<Rightarrow> s)"

definition combine_results :: "sum_result \<Rightarrow> sum_result \<Rightarrow> sum_result \<Rightarrow> sum_result" where
  "combine_results l r f =
     f\<lparr>sr_tokens_in := sr_tokens_in l + sr_tokens_in r + sr_tokens_in f,
       sr_tokens_out := sr_tokens_out l + sr_tokens_out r + sr_tokens_out f,
       sr_cost := sr_cost l + sr_cost r + sr_cost f,
       sr_latency := sr_latency l + sr_latency r + sr_latency f\<rparr>"

definition CHUNK_OPERATION :: string where "CHUNK_OPERATION = ''compaction.tier3.chunk''"

function chunk_summarize ::
  "sum_env \<Rightarrow> 'd ledger_insert \<Rightarrow> nat \<Rightarrow> string \<Rightarrow> pystr \<Rightarrow> message list \<Rightarrow> 'd sum_world
   \<Rightarrow> (sum_result \<times> 'd sum_world) option"
  and summarize_chunk_half ::
  "sum_env \<Rightarrow> 'd ledger_insert \<Rightarrow> nat \<Rightarrow> message list \<Rightarrow> 'd sum_world \<Rightarrow> (sum_result \<times> 'd sum_world) option" where
  "chunk_summarize e book window op prior middle w =
     (if length middle < 2 then None
      else
        let split = fst (find_safe_split middle) in
        case summarize_chunk_half e book window (take split middle) w of
          None \<Rightarrow> None
        | Some (left, w1) \<Rightarrow>
            if sr_skipped left then Some (zero_out_cost_on_skip left, w1)
            else case summarize_chunk_half e book window (drop split middle) w1 of
              None \<Rightarrow> None
            | Some (right, w2) \<Rightarrow>
                if sr_skipped right then Some (zero_out_cost_on_skip right, w2)
                else case summarize_single_call e book op prior [chunk_text left, chunk_text right] w2 of
                  None \<Rightarrow> None
                | Some (final, w3) \<Rightarrow>
                    Some (if sr_skipped final then zero_out_cost_on_skip final
                          else combine_results left right final, w3))"
| "summarize_chunk_half e book window half w =
     (if half = [] then Some (skipped_result e ''empty_slice'', w)
      else if length half < 2
      then summarize_single_call e book CHUNK_OPERATION [] [half ! 0, half ! 0] w
      else case payload_fits e half [] window of
        None \<Rightarrow> None
      | Some True \<Rightarrow> summarize_single_call e book CHUNK_OPERATION [] half w
      | Some False \<Rightarrow> chunk_summarize e book window CHUNK_OPERATION [] half w)"
  by pat_completeness auto

termination
  by (relation "measure (\<lambda>x. case x of
        Inl (e, book, window, op, prior, middle, w) \<Rightarrow> 2 * length middle
      | Inr (e, book, window, half, w) \<Rightarrow> 2 * length half + 1)")
    (use find_safe_split_progress in \<open>auto simp: not_less, fastforce+\<close>)

definition summarize_slice ::
  "sum_env \<Rightarrow> 'd ledger_insert \<Rightarrow> pystr \<Rightarrow> message list \<Rightarrow> 'd sum_world \<Rightarrow> (sum_result \<times> 'd sum_world) option" where
  "summarize_slice e book prior ms w =
     (if length ms < 2 then Some (skipped_result e ''empty_slice'', w)
      else case (case se_window e of None \<Rightarrow> Some True | Some window \<Rightarrow> payload_fits e ms prior window) of
        None \<Rightarrow> None
      | Some True \<Rightarrow> summarize_single_call e book ''compaction.tier3'' prior ms w
      | Some False \<Rightarrow> chunk_summarize e book (the (se_window e)) ''compaction.tier3'' prior ms w)"

section \<open>Lemmas: calls\<close>

text \<open>What one call puts on the trace; \<open>first_call\<close> is the call itself.\<close>

definition first_call :: "sum_env \<Rightarrow> string \<Rightarrow> pystr \<Rightarrow> message list \<Rightarrow> pystr \<Rightarrow> summary_call" where
  "first_call e op prior ms serialized =
     \<lparr>cl_operation = op, cl_slice = ms, cl_prior = prior,
      cl_prompt = [plain_message System (se_prompt e), plain_message Human (human_content prior serialized)]\<rparr>"

lemma attempt_once_calls: "attempt_once e book c w = (x, w') \<Longrightarrow> sw_calls w' = sw_calls w @ [c]"
  by (auto simp: attempt_once_def Let_def split: sum.splits prod.splits)

lemma attempt_loop_calls:
  "attempt_loop e book c n left w = (r, w') \<Longrightarrow> \<exists>k \<le> left. sw_calls w' = sw_calls w @ replicate k c"
proof (induction e book c n left w arbitrary: r w' rule: attempt_loop.induct)
  case (2 e book c n left w)
  obtain x w1 where a: "attempt_once e book c w = (x, w1)" by (cases "attempt_once e book c w")
  have w1: "sw_calls w1 = sw_calls w @ [c]" using attempt_once_calls [OF a] .
  show ?case
  proof (cases "\<exists>ex. x = Inl ex \<and> summarizer_is_retryable (se_uword e) ex")
    case True
    then obtain ex where ex: "x = Inl ex" "summarizer_is_retryable (se_uword e) ex" by blast
    with 2(2) a have "attempt_loop e book c (n + 1) left
        (w1\<lparr>sw_slept := sw_slept w1 @ [backoff_or (min 30 (2 ^ n)) ex]\<rparr>) = (r, w')" by simp
    with 2(1) [OF a [symmetric] ex(1)] ex(2)
    obtain k where "k \<le> left" "sw_calls w' = sw_calls w1 @ replicate k c" by force
    then show ?thesis using w1 by (intro exI [of _ "Suc k"]) simp
  next
    case False
    with 2(2) a have "sw_calls w' = sw_calls w1" by (auto split: sum.splits if_splits)
    then show ?thesis using w1 by (intro exI [of _ 1]) simp
  qed
qed simp

lemma attempt_loop_some: "0 < left \<Longrightarrow> attempt_loop e book c n left w = (r, w') \<Longrightarrow> sw_calls w' \<noteq> sw_calls w"
proof -
  assume "0 < left" "attempt_loop e book c n left w = (r, w')"
  moreover have "length (sw_calls w) < length (sw_calls w')"
    if l: "attempt_loop e book c n (Suc m) w = (r, w')" for m
  proof -
    obtain x w1 where a: "attempt_once e book c w = (x, w1)" by (cases "attempt_once e book c w")
    have "length (sw_calls w1) \<le> length (sw_calls w')"
      using l a by (auto split: sum.splits if_splits dest!: attempt_loop_calls)
    then show ?thesis using attempt_once_calls [OF a] by simp
  qed
  ultimately show ?thesis by (cases left) auto
qed

lemma single_call_calls:
  assumes "summarize_single_call e book op prior ms w = Some (r, w')"
  obtains k serialized where "0 < k" "k \<le> 3" "sw_calls w' = sw_calls w @ replicate k (first_call e op prior ms serialized)"
proof -
  from assms obtain serialized where l: "attempt_loop e book (first_call e op prior ms serialized) 0 3 w = (r, w')"
    by (auto simp: summarize_single_call_def first_call_def SUMMARIZER_MAX_RETRIES_def eval_nat_numeral split: option.splits if_splits)
  then obtain k where "k \<le> 3" "sw_calls w' = sw_calls w @ replicate k (first_call e op prior ms serialized)"
    using attempt_loop_calls by blast
  moreover have "0 < k" using attempt_loop_some [OF _ l] calculation by (cases k) auto
  ultimately show ?thesis using that by blast
qed

text \<open>The calls of a run: chunk calls without a prior summary, and then the calls that end it.\<close>

definition chunk_calls :: "summary_call list \<Rightarrow> bool" where
  "chunk_calls cs \<longleftrightarrow> list_all (\<lambda>c. cl_operation c = CHUNK_OPERATION \<and> cl_prior c = []) cs"

definition covers :: "summary_call list \<Rightarrow> message list \<Rightarrow> bool" where
  "covers cs ms \<longleftrightarrow> set ms \<subseteq> (\<Union>c \<in> set cs. set (cl_slice c))"

definition run_of :: "nat \<Rightarrow> string \<Rightarrow> pystr \<Rightarrow> message list \<Rightarrow> sum_result \<Rightarrow> summary_call list \<Rightarrow> bool" where
  "run_of n op prior ms r cs \<longleftrightarrow> length cs \<le> n \<and>
     (\<exists>as bs. cs = as @ bs \<and> chunk_calls as
        \<and> list_all (\<lambda>c. cl_operation c = op \<and> cl_prior c = prior) bs
        \<and> (\<not> sr_skipped r \<longrightarrow> bs \<noteq> [] \<and> covers cs ms))"

lemma run_ofI:
  "length (as @ bs) \<le> n \<Longrightarrow> chunk_calls as \<Longrightarrow> list_all (\<lambda>c. cl_operation c = op \<and> cl_prior c = prior) bs \<Longrightarrow>
   (\<not> sr_skipped r \<Longrightarrow> bs \<noteq> [] \<and> covers (as @ bs) ms) \<Longrightarrow> run_of n op prior ms r (as @ bs)"
  unfolding run_of_def by blast

lemma run_of_chunk: "run_of n CHUNK_OPERATION [] ms r cs \<Longrightarrow> chunk_calls cs"
  by (auto simp: run_of_def chunk_calls_def)

lemma run_of_single:
  assumes "summarize_single_call e book op prior ms w = Some (r, w')"
  shows "\<exists>cs. sw_calls w' = sw_calls w @ cs \<and> run_of 3 op prior ms r cs"
proof -
  from assms obtain k serialized where k: "0 < k" "k \<le> 3"
    "sw_calls w' = sw_calls w @ replicate k (first_call e op prior ms serialized)"
    by (rule single_call_calls)
  have "run_of 3 op prior ms r ([] @ replicate k (first_call e op prior ms serialized))"
    by (rule run_ofI) (use k in \<open>auto simp: first_call_def covers_def chunk_calls_def list_all_iff\<close>)
  with k(3) show ?thesis by auto
qed

lemma run_of_half_mono: "run_of n op prior ms r cs \<Longrightarrow> n \<le> n' \<Longrightarrow> run_of n' op prior ms r cs"
  by (auto simp: run_of_def)

lemma sr_skipped_zero [simp]: "sr_skipped (zero_out_cost_on_skip r) = sr_skipped r"
  by (simp add: zero_out_cost_on_skip_def)

lemma sr_skipped_combine [simp]: "sr_skipped (combine_results l r f) = sr_skipped f"
  by (simp add: combine_results_def)

lemma sr_skipped_result [simp]: "sr_skipped (skipped_result e reason)"
  by (simp add: skipped_result_def)

lemma covers_append: "covers as ms \<Longrightarrow> covers bs ns \<Longrightarrow> covers (as @ bs) (ms @ ns)"
  by (auto simp: covers_def)

lemma covers_mono: "covers as ms \<Longrightarrow> covers (as @ bs) ms"
  by (auto simp: covers_def)

lemma run_of_skipped: "chunk_calls cs \<Longrightarrow> length cs \<le> n \<Longrightarrow> sr_skipped r \<Longrightarrow> run_of n op prior ms r cs"
  using run_ofI [of cs "[]" n op prior r ms] by simp

lemma run_of_concat:
  assumes "run_of a CHUNK_OPERATION [] ls l as" "run_of b CHUNK_OPERATION [] rs r bs" "run_of c op prior ms f cs"
    "\<not> sr_skipped l" "\<not> sr_skipped r" "sr_skipped f' = sr_skipped f"
  shows "run_of (a + b + c) op prior (ls @ rs) f' (as @ bs @ cs)"
proof -
  from assms(3) obtain us vs where cs: "cs = us @ vs" "chunk_calls us"
    "list_all (\<lambda>c. cl_operation c = op \<and> cl_prior c = prior) vs" "\<not> sr_skipped f \<longrightarrow> vs \<noteq> []"
    by (auto simp: run_of_def)
  have "chunk_calls (as @ bs @ us)"
    using run_of_chunk assms(1,2) cs(2) by (auto simp: chunk_calls_def)
  moreover have "covers (as @ bs @ cs) (ls @ rs)"
    using assms(1,2,4,5) covers_append covers_mono by (fastforce simp: run_of_def)
  moreover have "length (as @ bs @ cs) \<le> a + b + c" using assms(1-3) by (simp add: run_of_def)
  ultimately show ?thesis
    unfolding run_of_def using cs assms(6) by (intro conjI exI [of _ "as @ bs @ us"] exI [of _ vs]) auto
qed

text \<open>A step of the recursion, as a rule: how a chunked run is put together.\<close>

lemma chunk_summarize_cases:
  assumes "chunk_summarize e book window op prior ms w = Some (r, w')"
  obtains l rt f w1 w2 where "2 \<le> length ms"
    "summarize_chunk_half e book window (take (fst (find_safe_split ms)) ms) w = Some (l, w1)" "\<not> sr_skipped l"
    "summarize_chunk_half e book window (drop (fst (find_safe_split ms)) ms) w1 = Some (rt, w2)" "\<not> sr_skipped rt"
    "summarize_single_call e book op prior [chunk_text l, chunk_text rt] w2 = Some (f, w')"
    "r = (if sr_skipped f then zero_out_cost_on_skip f else combine_results l rt f)"
  | l where "2 \<le> length ms"
    "summarize_chunk_half e book window (take (fst (find_safe_split ms)) ms) w = Some (l, w')" "sr_skipped l"
    "r = zero_out_cost_on_skip l"
  | l rt w1 where "2 \<le> length ms"
    "summarize_chunk_half e book window (take (fst (find_safe_split ms)) ms) w = Some (l, w1)" "\<not> sr_skipped l"
    "summarize_chunk_half e book window (drop (fst (find_safe_split ms)) ms) w1 = Some (rt, w')" "sr_skipped rt"
    "r = zero_out_cost_on_skip rt"
  using assms
  by (subst (asm) chunk_summarize.simps)
    (auto simp: Let_def simp del: chunk_summarize.simps summarize_chunk_half.simps
      split: if_splits option.splits prod.splits)

lemma chunk_half_cases:
  assumes "summarize_chunk_half e book window half w = Some (r, w')"
  obtains "half = []" "r = skipped_result e ''empty_slice''" "w' = w"
  | m where "half = [m]" "summarize_single_call e book CHUNK_OPERATION [] [m, m] w = Some (r, w')"
  | "2 \<le> length half" "summarize_single_call e book CHUNK_OPERATION [] half w = Some (r, w')"
  | "2 \<le> length half" "chunk_summarize e book window CHUNK_OPERATION [] half w = Some (r, w')"
proof -
  consider "half = []" | m where "half = [m]" | "2 \<le> length half"
    by (cases half rule: remdups_adj.cases) auto
  then show ?thesis
  proof cases
    case 3
    then have "half \<noteq> []" "\<not> length half < 2" by auto
    with assms have "(case payload_fits e half [] window of None \<Rightarrow> None
      | Some True \<Rightarrow> summarize_single_call e book CHUNK_OPERATION [] half w
      | Some False \<Rightarrow> chunk_summarize e book window CHUNK_OPERATION [] half w) = Some (r, w')"
      by (subst (asm) summarize_chunk_half.simps) (simp only: if_False)
    then show ?thesis using that(3,4) 3 by (auto split: option.splits bool.splits)
  qed (use assms that(1,2) in \<open>auto simp: summarize_chunk_half.simps\<close>)
qed

declare chunk_summarize.simps [simp del] summarize_chunk_half.simps [simp del]

lemma run_of_halves:
  assumes "\<And>half w r w'. length half < length ms \<Longrightarrow> summarize_chunk_half e book window half w = Some (r, w') \<Longrightarrow>
      \<exists>cs. sw_calls w' = sw_calls w @ cs \<and> run_of (6 * length half - 3) CHUNK_OPERATION [] half r cs"
    and "chunk_summarize e book window op prior ms w = Some (r, w')"
  shows "\<exists>cs. sw_calls w' = sw_calls w @ cs \<and> run_of (6 * length ms - 3) op prior ms r cs"
proof -
  let ?s = "fst (find_safe_split ms)"
  have s: "0 < ?s" "?s < length ms" "length (take ?s ms) < length ms" "length (drop ?s ms) < length ms"
    if "2 \<le> length ms" using find_safe_split_progress [OF that] by auto
  from assms(2) show ?thesis
  proof (cases rule: chunk_summarize_cases)
    case (1 l rt f w1 w2)
    from assms(1) [OF s(3) [OF 1(1)] 1(2)] s [OF 1(1)] obtain as where
      as: "sw_calls w1 = sw_calls w @ as" "run_of (6 * ?s - 3) CHUNK_OPERATION [] (take ?s ms) l as" by auto
    from assms(1) [OF s(4) [OF 1(1)] 1(4)] s [OF 1(1)] obtain bs where
      bs: "sw_calls w2 = sw_calls w1 @ bs" "run_of (6 * (length ms - ?s) - 3) CHUNK_OPERATION [] (drop ?s ms) rt bs" by auto
    from run_of_single [OF 1(6)] obtain cs where
      cs: "sw_calls w' = sw_calls w2 @ cs" "run_of 3 op prior [chunk_text l, chunk_text rt] f cs" by blast
    have "run_of ((6 * ?s - 3) + (6 * (length ms - ?s) - 3) + 3) op prior (take ?s ms @ drop ?s ms) r (as @ bs @ cs)"
      using as(2) bs(2) cs(2) 1(3,5) by (rule run_of_concat) (simp add: 1(7))
    moreover have "(6 * ?s - 3) + (6 * (length ms - ?s) - 3) + 3 = 6 * length ms - 3" using s [OF 1(1)] by simp
    ultimately have "run_of (6 * length ms - 3) op prior ms r (as @ bs @ cs)" by (simp only: append_take_drop_id)
    then show ?thesis using as(1) bs(1) cs(1) by auto
  next
    case (2 l)
    from assms(1) [OF s(3) [OF 2(1)] 2(2)] s [OF 2(1)] obtain as where
      "sw_calls w' = sw_calls w @ as" "run_of (6 * ?s - 3) CHUNK_OPERATION [] (take ?s ms) l as" by auto
    moreover from this(2) have "chunk_calls as" "length as \<le> 6 * length ms - 3"
      using s [OF 2(1)] run_of_chunk by (auto simp: run_of_def)
    ultimately show ?thesis using 2(3,4) run_of_skipped by auto
  next
    case (3 l rt w1)
    from assms(1) [OF s(3) [OF 3(1)] 3(2)] s [OF 3(1)] obtain as where
      as: "sw_calls w1 = sw_calls w @ as" "run_of (6 * ?s - 3) CHUNK_OPERATION [] (take ?s ms) l as" by auto
    from assms(1) [OF s(4) [OF 3(1)] 3(4)] s [OF 3(1)] obtain bs where
      bs: "sw_calls w' = sw_calls w1 @ bs" "run_of (6 * (length ms - ?s) - 3) CHUNK_OPERATION [] (drop ?s ms) rt bs" by auto
    have "chunk_calls (as @ bs)" using as(2) bs(2) run_of_chunk by (auto simp: chunk_calls_def)
    moreover have "length (as @ bs) \<le> 6 * length ms - 3"
      using as(2) bs(2) s [OF 3(1)] by (auto simp: run_of_def)
    ultimately show ?thesis using as(1) bs(1) 3(5,6) run_of_skipped by auto
  qed
qed

lemma chunk_half_runs:
  "summarize_chunk_half e book window half w = Some (r, w') \<Longrightarrow>
     \<exists>cs. sw_calls w' = sw_calls w @ cs \<and> run_of (6 * length half - 3) CHUNK_OPERATION [] half r cs"
proof (induction "length half" arbitrary: half w r w' rule: less_induct)
  case less
  from less(2) show ?case
  proof (cases rule: chunk_half_cases)
    case 1
    then show ?thesis using run_of_skipped [of "[]"] by (auto simp: chunk_calls_def)
  next
    case (2 m)
    from run_of_single [OF 2(2)] show ?thesis by (auto simp: run_of_def covers_def 2(1))
  next
    case 3
    from 3(1) have "3 \<le> 6 * length half - 3" by simp
    with run_of_single [OF 3(2)] show ?thesis using run_of_half_mono by blast
  next
    case 4
    from run_of_halves [OF less(1) 4(2)] show ?thesis by blast
  qed
qed

lemma chunk_runs:
  "chunk_summarize e book window op prior ms w = Some (r, w') \<Longrightarrow>
   \<exists>cs. sw_calls w' = sw_calls w @ cs \<and> run_of (6 * length ms - 3) op prior ms r cs"
  by (rule run_of_halves [OF chunk_half_runs])

lemma summarize_slice_cases:
  assumes "summarize_slice e book prior ms w = Some (r, w')"
  obtains "length ms < 2" "r = skipped_result e ''empty_slice''" "w' = w"
  | "2 \<le> length ms" "summarize_single_call e book ''compaction.tier3'' prior ms w = Some (r, w')"
  | window where "2 \<le> length ms" "se_window e = Some window" "payload_fits e ms prior window = Some False"
    "chunk_summarize e book window ''compaction.tier3'' prior ms w = Some (r, w')"
  using assms by (auto simp: summarize_slice_def not_less split: if_splits option.splits bool.splits)

text \<open>
  What can be summarised: every text can be extracted and encoded, every argument is JSON, and
  the model can be set up.
\<close>

definition readable :: "sum_env \<Rightarrow> message \<Rightarrow> bool" where
  "readable e m \<longleftrightarrow>
     (case format_message (se_text e) 0 m of None \<Rightarrow> False | Some ls \<Rightarrow> list_all (list_all is_scalar) ls)"

definition summarizable :: "sum_env \<Rightarrow> message list \<Rightarrow> bool" where
  "summarizable e ms \<longleftrightarrow> se_init_ok e \<and> list_all is_scalar (se_prompt e) \<and> list_all (readable e) ms"

lemma dec_nat_scalar: "list_all is_scalar (dec_nat n)"
proof (induction n rule: dec_nat.induct)
  case (1 n)
  have "n mod 10 < 10" by simp
  then have "is_scalar (48 + n mod 10)" unfolding is_scalar_def by linarith
  with 1 show ?case by (cases "n < 10") (simp_all add: dec_nat.simps [of n])
qed

lemma list_all_lit: "list_all (\<lambda>c. of_char c < (128 :: nat)) s \<Longrightarrow> list_all is_scalar (lit s)"
  by (induction s) (auto simp: lit_def is_scalar_def)

lemma format_message_idx:
  "readable e m \<Longrightarrow> \<exists>ls. format_message (se_text e) idx m = Some ls \<and> list_all (list_all is_scalar) ls"
proof (cases "se_text e (content m)")
  case (Some c)
  assume "readable e m"
  then show ?thesis
    by (cases "role m"; cases "tool_calls m = []"; cases "those (map format_call (tool_calls m))")
      (simp_all add: readable_def format_message_def Some Let_def dec_nat_scalar)
qed (simp add: readable_def format_message_def)

lemma format_lines_readable:
  "list_all (readable e) ms \<Longrightarrow> \<exists>ls. format_lines (se_text e) idx ms = Some ls \<and> list_all (list_all is_scalar) ls"
proof (induction ms arbitrary: idx)
  case (Cons m ms)
  then show ?case using format_message_idx [of e m idx] by fastforce
qed simp

lemma join_scalar: "list_all is_scalar sep \<Longrightarrow> list_all (list_all is_scalar) xs \<Longrightarrow> list_all is_scalar (join sep xs)"
  by (induction sep xs rule: join.induct) auto

lemma format_messages_readable:
  "list_all (readable e) ms \<Longrightarrow> \<exists>t. format_messages_for_summary (se_text e) ms = Some t \<and> list_all is_scalar t"
  using format_lines_readable [of e ms 0] join_scalar [of "[NL]"]
  by (auto simp: format_messages_for_summary_def NL_def is_scalar_def)

lemma payload_fits_some:
  assumes "summarizable e ms" "list_all is_scalar prior"
  shows "\<exists>b. payload_fits e ms prior window = Some b"
proof -
  obtain t where "format_messages_for_summary (se_text e) ms = Some t" "list_all is_scalar t"
    using assms(1) format_messages_readable by (auto simp: summarizable_def)
  moreover have "list_all is_scalar (with_prior prior t)"
    using assms(2) calculation(2) by (auto simp: with_prior_def list_all_lit NL_def is_scalar_def)
  ultimately show ?thesis
    using assms by (auto simp: payload_fits_def estimate_payload_tokens_def heuristic_token_count_def encode_utf8_def
        summarizable_def Let_def)
qed

lemma single_call_some: "summarizable e ms \<Longrightarrow> \<exists>r w'. summarize_single_call e book op prior ms w = Some (r, w')"
  using format_messages_readable [of e ms] by (auto simp: summarize_single_call_def summarizable_def)

definition reads_plain :: "sum_env \<Rightarrow> bool" where
  "reads_plain e \<longleftrightarrow> (\<forall>s. se_text e (Plain s) = Some s)"

lemma concat_call_some:
  assumes "reads_plain e" "se_init_ok e"
  shows "\<exists>r w'. summarize_single_call e book op prior [chunk_text l, chunk_text r'] w = Some (r, w')"
  using assms by (auto simp: summarize_single_call_def format_messages_for_summary_def format_message_def reads_plain_def
      chunk_text_def plain_message_def Let_def)

lemma summarizable_sub: "summarizable e ms \<Longrightarrow> set ns \<subseteq> set ms \<Longrightarrow> summarizable e ns"
  by (auto simp: summarizable_def list_all_iff)

lemma chunk_total_step:
  assumes half: "\<And>half w. length half < length ms \<Longrightarrow> set half \<subseteq> set ms \<Longrightarrow>
      \<exists>r w'. summarize_chunk_half e book window half w = Some (r, w')"
    and "2 \<le> length ms" "reads_plain e" "se_init_ok e"
  shows "\<exists>r w'. chunk_summarize e book window op prior ms w = Some (r, w')"
proof -
  let ?s = "fst (find_safe_split ms)"
  have s: "length (take ?s ms) < length ms" "length (drop ?s ms) < length ms"
    using find_safe_split_progress [OF assms(2)] by auto
  obtain l w1 where l: "summarize_chunk_half e book window (take ?s ms) w = Some (l, w1)"
    using half [OF s(1)] set_take_subset by meson
  obtain r w2 where r: "summarize_chunk_half e book window (drop ?s ms) w1 = Some (r, w2)"
    using half [OF s(2)] set_drop_subset by meson
  obtain f w3 where "summarize_single_call e book op prior [chunk_text l, chunk_text r] w2 = Some (f, w3)"
    using concat_call_some assms(3,4) by meson
  then show ?thesis
    using assms(2) l r by (subst chunk_summarize.simps) (simp add: Let_def not_less)
qed

lemma chunk_half_total:
  assumes "summarizable e half" "reads_plain e"
  shows "\<exists>r w'. summarize_chunk_half e book window half w = Some (r, w')"
  using assms(1)
proof (induction "length half" arbitrary: half w rule: less_induct)
  case less
  have init: "se_init_ok e" using less(2) by (simp add: summarizable_def)
  have smaller: "\<exists>r w'. summarize_chunk_half e book window h w = Some (r, w')"
    if "length h < length half" "set h \<subseteq> set half" for h w
    using less summarizable_sub that by blast
  consider "half = []" | m where "half = [m]" | "2 \<le> length half" by (cases half rule: remdups_adj.cases) auto
  then show ?case
  proof cases
    case 3
    then have "half \<noteq> []" "\<not> length half < 2" by auto
    moreover obtain b where "payload_fits e half [] window = Some b"
      using payload_fits_some [OF less(2)] by fastforce
    moreover have "\<exists>r w'. summarize_single_call e book CHUNK_OPERATION [] half w = Some (r, w')"
      using single_call_some less(2) .
    moreover have "\<exists>r w'. chunk_summarize e book window CHUNK_OPERATION [] half w = Some (r, w')"
      using chunk_total_step smaller 3 assms(2) init by blast
    ultimately show ?thesis by (cases b) (simp_all add: summarize_chunk_half.simps)
  next
    case (2 m)
    then have "summarizable e [m, m]" using summarizable_sub less(2) by fastforce
    from single_call_some [OF this] 2 show ?thesis by (simp add: summarize_chunk_half.simps)
  qed (simp add: summarize_chunk_half.simps)
qed

section \<open>Properties\<close>

text \<open>
  C20. The recursive chunk summariser returns for every slice whose texts can be encoded,
  whatever the provider answers or raises, and makes at most 6n-3 model calls for n
  messages, retries included.
\<close>

theorem summarizer_terminates:
  assumes "summarizable e ms" "reads_plain e" "list_all is_scalar prior"
  shows "\<exists>r w' cs. summarize_slice e book prior ms w = Some (r, w') \<and> sw_calls w' = sw_calls w @ cs
    \<and> length cs \<le> 6 * length ms - 3"
proof -
  obtain r w' where s: "summarize_slice e book prior ms w = Some (r, w')"
  proof (cases "length ms < 2")
    case False
    obtain b where b: "(case se_window e of None \<Rightarrow> Some True | Some window \<Rightarrow> payload_fits e ms prior window) = Some b"
      using payload_fits_some [OF assms(1,3)] by (cases "se_window e") auto
    have "\<exists>r w'. summarize_single_call e book ''compaction.tier3'' prior ms w = Some (r, w')"
      using single_call_some assms(1) .
    moreover have "\<exists>r w'. chunk_summarize e book window ''compaction.tier3'' prior ms w = Some (r, w')" for window
      using chunk_total_step [of ms e book window] chunk_half_total summarizable_sub assms(1,2) False
      by (metis not_less summarizable_def)
    ultimately show ?thesis using that False b by (cases b) (auto simp: summarize_slice_def)
  qed (use that in \<open>simp add: summarize_slice_def\<close>)
  from s show ?thesis
  proof (cases rule: summarize_slice_cases)
    case 1
    then show ?thesis using s by simp
  next
    case 2
    from run_of_single [OF 2(2)] obtain cs where "sw_calls w' = sw_calls w @ cs" "length cs \<le> 3"
      by (auto simp: run_of_def)
    moreover have "3 \<le> 6 * length ms - 3" using 2(1) by simp
    ultimately show ?thesis using s order_trans by blast
  next
    case (3 window)
    from chunk_runs [OF 3(4)] show ?thesis using s by (auto simp: run_of_def)
  qed
qed

text \<open>
  When a summary is produced, every message of the slice was in the slice of some
  model call, the chunk calls came first and saw no prior summary, and the calls that end
  the run carry the prior summary and the operation compaction.tier3.
\<close>

theorem summary_covers_slice:
  assumes "summarize_slice e book prior ms w = Some (r, w')" "\<not> sr_skipped r"
  shows "\<exists>as bs. sw_calls w' = sw_calls w @ as @ bs \<and> bs \<noteq> [] \<and> covers (as @ bs) ms
    \<and> list_all (\<lambda>c. cl_operation c = CHUNK_OPERATION \<and> cl_prior c = []) as
    \<and> list_all (\<lambda>c. cl_operation c = ''compaction.tier3'' \<and> cl_prior c = prior) bs"
  using assms(1)
proof (cases rule: summarize_slice_cases)
  case 1
  then show ?thesis using assms(2) by simp
next
  case 2
  from run_of_single [OF 2(2)] show ?thesis using assms(2) by (auto simp: run_of_def chunk_calls_def)
next
  case (3 window)
  from chunk_runs [OF 3(4)] show ?thesis using assms(2) by (auto simp: run_of_def chunk_calls_def)
qed

end
