(* ===== verification/SummaryCost.thy ===== *)
theory SummaryCost
  imports Summarizer
begin

text \<open>
  What the summariser books.  The locale states what it expects of its ledger; its facts hold
  for the adapter of \<open>executor/graph.py\<close> over \<open>agent_cost_ledger\<close>.  On that ledger a chunked
  summary cannot succeed: the table refuses the rows of the chunks.
\<close>

section \<open>The ledger interface\<close>

text \<open>Booking a row raises the spending of its task by at most its cost, and of no other task.\<close>

locale cost_ledger =
  fixes book :: "'d ledger_insert" and spent :: "string \<Rightarrow> 'd \<Rightarrow> int"
  assumes books: "book row d = Inr d' \<Longrightarrow> 0 \<le> l_cost row \<Longrightarrow>
      spent (l_task row) d \<le> spent (l_task row) d' \<and> spent (l_task row) d' \<le> spent (l_task row) d + l_cost row"
    and books_own: "book row d = Inr d' \<Longrightarrow> t \<noteq> l_task row \<Longrightarrow> spent t d' = spent t d"

text \<open>Rates and counts are not negative, and the text of every answer can be extracted.\<close>

definition fair :: "sum_env \<Rightarrow> bool" where
  "fair e \<longleftrightarrow> (\<forall>c. se_text e c \<noteq> None)
     \<and> (\<forall>h p r i out. se_invoke e h p = Inr r \<longrightarrow> extract_tokens (response_metadata r) = Some (i, out) \<longrightarrow>
          0 \<le> call_cost e i out)"

lemma summary_row_fields [simp]:
  "l_task (summary_row e op c i out) = se_task e" "l_cost (summary_row e op c i out) = c"
  "l_operation (summary_row e op c i out) = op" "l_tenant (summary_row e op c i out) = se_tenant e"
  "l_summarized_through (summary_row e op c i out) = se_through e"
  by (simp_all add: summary_row_def)

text \<open>One call either leaves the ledger alone and is skipped, or books exactly its own row.\<close>

definition booked :: "sum_env \<Rightarrow> 'd ledger_insert \<Rightarrow> string \<Rightarrow> sum_result \<Rightarrow> 'd \<Rightarrow> 'd \<Rightarrow> bool" where
  "booked e book op r d d' \<longleftrightarrow>
     (if sr_skipped r then d' = d \<and> sr_cost r = 0
      else 0 \<le> sr_cost r
        \<and> book (summary_row e op (sr_cost r) (sr_tokens_in r) (sr_tokens_out r)) d = Inr d')"

lemma book_answer_booked:
  assumes "book_answer e book op r d = (x, d')" "se_text e (rs_content r) \<noteq> None"
    and "\<And>i out. extract_tokens (response_metadata r) = Some (i, out) \<Longrightarrow> 0 \<le> call_cost e i out"
  shows "(case x of Inl ex \<Rightarrow> d' = d | Inr s \<Rightarrow> \<not> sr_skipped s \<and> booked e book op s d d')"
  using assms by (auto simp: book_answer_def booked_def split: option.splits sum.splits)

lemma attempt_once_booked:
  assumes "attempt_once e book c w = (x, w')" "fair e"
  shows "(case x of Inl ex \<Rightarrow> sw_ledger w' = sw_ledger w
    | Inr s \<Rightarrow> \<not> sr_skipped s \<and> booked e book (cl_operation c) s (sw_ledger w) (sw_ledger w'))"
proof (cases "se_invoke e (sw_calls w) (cl_prompt c)")
  case (Inl ex)
  with assms(1) show ?thesis by (auto simp: attempt_once_def Let_def)
next
  case (Inr r)
  obtain y d' where b: "book_answer e book (cl_operation c) r (sw_ledger w) = (y, d')"
    by (cases "book_answer e book (cl_operation c) r (sw_ledger w)")
  have w': "x = y" "sw_ledger w' = d'" using assms(1) Inr b by (auto simp: attempt_once_def Let_def)
  have "0 \<le> call_cost e i out" if "extract_tokens (response_metadata r) = Some (i, out)" for i out
    using assms(2) Inr that unfolding fair_def by blast
  moreover have "se_text e (rs_content r) \<noteq> None" using assms(2) by (simp add: fair_def)
  ultimately show ?thesis using book_answer_booked [OF b] w' by (simp split: sum.splits)
qed

lemma attempt_loop_booked:
  "attempt_loop e book c n left w = (r, w') \<Longrightarrow> fair e \<Longrightarrow>
   booked e book (cl_operation c) r (sw_ledger w) (sw_ledger w')"
proof (induction e book c n left w arbitrary: r w' rule: attempt_loop.induct)
  case (1 e book c n w)
  then show ?case by (auto simp: booked_def skipped_result_def)
next
  case (2 e book c n left w)
  obtain x w1 where a: "attempt_once e book c w = (x, w1)" by (cases "attempt_once e book c w")
  note once = attempt_once_booked [OF a 2(3)]
  show ?case
  proof (cases x)
    case (Inr s)
    then show ?thesis using 2(2) a once by simp
  next
    case (Inl ex)
    show ?thesis
    proof (cases "summarizer_is_retryable (se_uword e) ex")
      case True
      then have "attempt_loop e book c (n + 1) left
        (w1\<lparr>sw_slept := sw_slept w1 @ [backoff_or (min 30 (2 ^ n)) ex]\<rparr>) = (r, w')" using 2(2) a Inl by simp
      from 2(1) [OF a [symmetric] Inl _ this 2(3)] True once Inl show ?thesis by simp
    qed (use 2(2) a Inl once in \<open>auto simp: booked_def skipped_result_def\<close>)
  qed
qed

lemma single_call_loop:
  assumes "summarize_single_call e book op prior ms w = Some (r, w')"
  obtains serialized where
    "attempt_loop e book (first_call e op prior ms serialized) 0 (Suc SUMMARIZER_MAX_RETRIES) w = (r, w')"
  using assms by (auto simp: summarize_single_call_def first_call_def simp del: attempt_loop.simps
      split: option.splits if_splits)

lemma single_call_booked:
  assumes "summarize_single_call e book op prior ms w = Some (r, w')" "fair e"
  shows "booked e book op r (sw_ledger w) (sw_ledger w')"
proof -
  from assms(1) obtain serialized n where "attempt_loop e book (first_call e op prior ms serialized) 0 n w = (r, w')"
    by (rule single_call_loop)
  moreover have "cl_operation (first_call e op prior ms serialized) = op" by (simp add: first_call_def)
  ultimately show ?thesis using attempt_loop_booked assms(2) by metis
qed

context cost_ledger begin

definition spends_for :: "sum_env \<Rightarrow> sum_result \<Rightarrow> 'd \<Rightarrow> 'd \<Rightarrow> bool" where
  "spends_for e r d d' \<longleftrightarrow> spent (se_task e) d \<le> spent (se_task e) d'
     \<and> (\<not> sr_skipped r \<longrightarrow> spent (se_task e) d' \<le> spent (se_task e) d + sr_cost r)
     \<and> (\<forall>t. t \<noteq> se_task e \<longrightarrow> spent t d' = spent t d)"

lemma spends_for_single:
  assumes "summarize_single_call e book op prior ms w = Some (r, w')" "fair e"
  shows "spends_for e r (sw_ledger w) (sw_ledger w')"
proof (cases "sr_skipped r")
  case True
  then show ?thesis using single_call_booked [OF assms] by (simp add: booked_def spends_for_def)
next
  case False
  then have r: "0 \<le> sr_cost r" "book (summary_row e op (sr_cost r) (sr_tokens_in r) (sr_tokens_out r)) (sw_ledger w) = Inr (sw_ledger w')"
    using single_call_booked [OF assms] by (simp_all add: booked_def)
  then show ?thesis using r(1) books [OF r(2)] books_own [OF r(2)] by (simp add: spends_for_def)
qed

lemma spends_for_chunk_step:
  assumes half: "\<And>half w r w'. length half < length ms \<Longrightarrow> summarize_chunk_half e book window half w = Some (r, w') \<Longrightarrow>
      spends_for e r (sw_ledger w) (sw_ledger w')"
    and "chunk_summarize e book window op prior ms w = Some (r, w')" "fair e"
  shows "spends_for e r (sw_ledger w) (sw_ledger w')"
proof -
  let ?s = "fst (find_safe_split ms)"
  have s: "length (take ?s ms) < length ms" "length (drop ?s ms) < length ms" if "2 \<le> length ms"
    using find_safe_split_progress [OF that] by auto
  from assms(2) show ?thesis
  proof (cases rule: chunk_summarize_cases)
    case (1 l rt f w1 w2)
    have "spends_for e l (sw_ledger w) (sw_ledger w1)" "spends_for e rt (sw_ledger w1) (sw_ledger w2)"
      "spends_for e f (sw_ledger w2) (sw_ledger w')"
      using half [OF s(1) [OF 1(1)] 1(2)] half [OF s(2) [OF 1(1)] 1(4)] spends_for_single [OF 1(6) assms(3)] .
    then show ?thesis using 1(3,5,7) by (auto simp: spends_for_def combine_results_def)
  next
    case (2 l)
    with half [OF s(1) [OF 2(1)] 2(2)] show ?thesis by (simp add: spends_for_def)
  next
    case (3 l rt w1)
    with half [OF s(1) [OF 3(1)] 3(2)] half [OF s(2) [OF 3(1)] 3(4)] show ?thesis by (auto simp: spends_for_def)
  qed
qed

lemma spends_for_half:
  "summarize_chunk_half e book window half w = Some (r, w') \<Longrightarrow> fair e \<Longrightarrow> spends_for e r (sw_ledger w) (sw_ledger w')"
proof (induction "length half" arbitrary: half w r w' rule: less_induct)
  case less
  from less(2) show ?case
  proof (cases rule: chunk_half_cases)
    case 4
    show ?thesis
      by (rule spends_for_chunk_step [OF _ 4(2) less(3)]) (rule less(1), assumption+, rule less(3))
  next
    case 1
    then show ?thesis by (simp add: spends_for_def)
  qed (use spends_for_single less(3) in blast)+
qed

lemma slice_spends_what_it_reports:
  assumes "summarize_slice e book prior ms w = Some (r, w')" "fair e"
  shows "spends_for e r (sw_ledger w) (sw_ledger w')"
  using assms(1)
proof (cases rule: summarize_slice_cases)
  case 2
  then show ?thesis using spends_for_single assms(2) by blast
next
  case (3 window)
  show ?thesis
    by (rule spends_for_chunk_step [OF _ 3(4) assms(2)]) (rule spends_for_half, assumption, rule assms(2))
qed (simp add: spends_for_def)

end

section \<open>The ledger of the worker\<close>

text \<open>\<open>viol\<close> is the exception that asyncpg makes of a refused row.\<close>

definition pool_insert :: "(db_error \<Rightarrow> exn) \<Rightarrow> db ledger_insert" where
  "pool_insert viol row d = (case insert_cost_row row d of Inl x \<Rightarrow> Inl (viol x) | Inr d' \<Rightarrow> Inr d')"

definition operation_refused :: "(db_error \<Rightarrow> exn) \<Rightarrow> exn" where
  "operation_refused viol = viol (CheckViolation ''agent_cost_ledger_operation_check'')"

interpretation pool: cost_ledger "pool_insert viol" "\<lambda>t d. sum_task_cost d t" for viol
  by unfold_locales
    (auto simp: pool_insert_def insert_cost_row_def sum_task_cost_def split: sum.splits if_splits)

lemma pool_insert_chunk: "pool_insert viol (summary_row e CHUNK_OPERATION c i out) d = Inl (operation_refused viol)"
  by (simp add: pool_insert_def insert_cost_row_def operation_refused_def CHUNK_OPERATION_def ledger_operations_def)

text \<open>Every call to the model returns and counts its tokens.\<close>

definition answering :: "sum_env \<Rightarrow> bool" where
  "answering e \<longleftrightarrow> (\<forall>h p. \<exists>r. se_invoke e h p = Inr r \<and> extract_tokens (response_metadata r) \<noteq> None)"

definition refused :: "sum_env \<Rightarrow> (db_error \<Rightarrow> exn) \<Rightarrow> sum_result \<Rightarrow> bool" where
  "refused e viol r \<longleftrightarrow> sr_skipped r
     \<and> (answering e \<and> \<not> summarizer_is_retryable (se_uword e) (operation_refused viol) \<longrightarrow> sr_reason r = Some (lit ''fatal''))"

lemma refused_zero [simp]: "refused e viol (zero_out_cost_on_skip r) = refused e viol r"
  by (simp add: refused_def zero_out_cost_on_skip_def)

lemma refused_single:
  assumes "summarize_single_call e (pool_insert viol) CHUNK_OPERATION prior ms w = Some (r, w')" "fair e"
  shows "refused e viol r \<and> sw_ledger w' = sw_ledger w"
proof -
  have skip: "sr_skipped r" "sw_ledger w' = sw_ledger w"
    using single_call_booked [OF assms] by (auto simp: booked_def pool_insert_chunk split: if_splits)
  from assms(1) obtain serialized n where
    l: "attempt_loop e (pool_insert viol) (first_call e CHUNK_OPERATION prior ms serialized) 0 (Suc n) w = (r, w')"
    by (rule single_call_loop)
  have "sr_reason r = Some (lit ''fatal'')"
    if ans: "answering e" and fatal: "\<not> summarizer_is_retryable (se_uword e) (operation_refused viol)"
  proof -
    let ?c = "first_call e CHUNK_OPERATION prior ms serialized"
    obtain rs where rs: "se_invoke e (sw_calls w) (cl_prompt ?c) = Inr rs" "extract_tokens (response_metadata rs) \<noteq> None"
      using ans unfolding answering_def by blast
    then obtain i out where io: "extract_tokens (response_metadata rs) = Some (i, out)" by auto
    have op: "cl_operation ?c = CHUNK_OPERATION" by (simp add: first_call_def)
    have "fst (attempt_once e (pool_insert viol) ?c w) = Inl (operation_refused viol)"
      by (simp add: attempt_once_def Let_def rs(1) book_answer_def io op pool_insert_chunk)
    then obtain w1 where "attempt_once e (pool_insert viol) ?c w = (Inl (operation_refused viol), w1)"
      by (metis prod.collapse)
    then show ?thesis using l fatal by (auto simp: skipped_result_def)
  qed
  with skip show ?thesis by (simp add: refused_def)
qed

lemma chunk_refused_step:
  assumes "\<And>half w r w'. half \<noteq> [] \<Longrightarrow> length half < length ms \<Longrightarrow>
      summarize_chunk_half e (pool_insert viol) window half w = Some (r, w') \<Longrightarrow> refused e viol r \<and> sw_ledger w' = sw_ledger w"
    and "chunk_summarize e (pool_insert viol) window op prior ms w = Some (r, w')"
  shows "refused e viol r \<and> sw_ledger w' = sw_ledger w"
proof -
  let ?s = "fst (find_safe_split ms)"
  have s: "take ?s ms \<noteq> []" "length (take ?s ms) < length ms" if "2 \<le> length ms"
    using find_safe_split_progress [OF that] that by auto
  from assms(2) show ?thesis
  proof (cases rule: chunk_summarize_cases)
    case (1 l rt f w1 w2)
    with assms(1) [OF s [OF 1(1)] 1(2)] show ?thesis by (simp add: refused_def)
  next
    case (2 l)
    with assms(1) [OF s [OF 2(1)] 2(2)] show ?thesis by simp
  next
    case (3 l rt w1)
    with assms(1) [OF s [OF 3(1)] 3(2)] show ?thesis by (simp add: refused_def)
  qed
qed

lemma chunk_half_refused:
  "summarize_chunk_half e (pool_insert viol) window half w = Some (r, w') \<Longrightarrow> half \<noteq> [] \<Longrightarrow> fair e \<Longrightarrow>
   refused e viol r \<and> sw_ledger w' = sw_ledger w"
proof (induction "length half" arbitrary: half w r w' rule: less_induct)
  case less
  from less(2) show ?case
  proof (cases rule: chunk_half_cases)
    case 4
    show ?thesis by (rule chunk_refused_step [OF _ 4(2)]) (rule less(1), assumption+, rule less(4))
  next
    case 1
    then show ?thesis using less(3) by simp
  qed (use refused_single less(4) in blast)+
qed

lemma chunk_refused:
  assumes "chunk_summarize e (pool_insert viol) window op prior ms w = Some (r, w')" "fair e"
  shows "refused e viol r \<and> sw_ledger w' = sw_ledger w"
  by (rule chunk_refused_step [OF _ assms(1)]) (rule chunk_half_refused, assumption+, rule assms(2))

lemma slice_booked:
  assumes "summarize_slice e (pool_insert viol) prior ms w = Some (r, w')" "fair e"
  shows "booked e (pool_insert viol) ''compaction.tier3'' r (sw_ledger w) (sw_ledger w')
    \<or> sr_skipped r \<and> sw_ledger w' = sw_ledger w"
  using assms(1)
proof (cases rule: summarize_slice_cases)
  case 2
  then show ?thesis using single_call_booked assms(2) by blast
next
  case (3 window)
  from chunk_refused [OF 3(4) assms(2)] show ?thesis by (simp add: refused_def)
qed simp

section \<open>Properties\<close>

text \<open>
  Over the real cost ledger a skipped summary books nothing, a summary that succeeds
  books one row with exactly the cost it reports (or finds that row there already), and
  when a resumed worker summarises for the same task, checkpoint and watermark again the
  ledger does not change.
\<close>

theorem summary_books_once:
  assumes "summarize_slice e (pool_insert viol) prior ms w = Some (r, w')" "fair e"
    and "summarize_slice e2 (pool_insert viol2) prior2 ms2 w2 = Some (r2, w2')" "fair e2"
    and "sw_ledger w2 = sw_ledger w'" "se_through e \<noteq> None"
    and "(se_tenant e2, se_task e2, se_checkpoint e2, se_through e2) = (se_tenant e, se_task e, se_checkpoint e, se_through e)"
  shows "(if sr_skipped r then sw_ledger w' = sw_ledger w
      else \<exists>row. (l_operation row, l_task row, l_cost row) = (''compaction.tier3'', se_task e, sr_cost r)
        \<and> insert_cost_row row (sw_ledger w) = Inr (sw_ledger w') \<and> sw_ledger w2' = sw_ledger w2)"
proof (cases "sr_skipped r")
  case True
  then show ?thesis using slice_booked [OF assms(1,2)] by (auto simp: booked_def)
next
  case False
  let ?row = "summary_row e ''compaction.tier3'' (sr_cost r) (sr_tokens_in r) (sr_tokens_out r)"
  let ?row2 = "summary_row e2 ''compaction.tier3'' (sr_cost r2) (sr_tokens_in r2) (sr_tokens_out r2)"
  have row: "insert_cost_row ?row (sw_ledger w) = Inr (sw_ledger w')"
    using False slice_booked [OF assms(1,2)] by (auto simp: booked_def pool_insert_def split: sum.splits)
  have "sw_ledger w2' = sw_ledger w2"
  proof (cases "sr_skipped r2")
    case True
    then show ?thesis using slice_booked [OF assms(3,4)] by (auto simp: booked_def)
  next
    case False
    then have "insert_cost_row ?row2 (sw_ledger w') = Inr (sw_ledger w2')"
      using slice_booked [OF assms(3,4)] assms(5) by (auto simp: booked_def pool_insert_def split: sum.splits)
    moreover have "tier3_conflict ?row ?row2" "l_operation ?row2 \<in> set ledger_operations"
      using assms(6,7) by (simp_all add: tier3_conflict_def summary_row_def ledger_operations_def)
    ultimately show ?thesis
      using insert_cost_row_replay [OF _ _ row] assms(5,6) by simp
  qed
  moreover have "(l_operation ?row, l_task ?row, l_cost ?row) = (''compaction.tier3'', se_task e, sr_cost r)" by simp
  ultimately show ?thesis using False row by (simp only: if_False) blast
qed

text \<open>The summariser that the agent node hands to the compaction hook.\<close>

definition summarizer_of ::
  "sum_env \<Rightarrow> 'd ledger_insert \<Rightarrow> 'd sum_world \<Rightarrow> pystr \<Rightarrow> message list \<Rightarrow> pystr \<Rightarrow> int \<Rightarrow> sum_result option" where
  "summarizer_of e book w model ms prior n =
     map_option fst (summarize_slice (e\<lparr>se_model := model, se_through := Some n\<rparr>) book prior ms w)"

text \<open>The pass gets as far as asking for a summary.\<close>

definition consults :: "hook_env \<Rightarrow> message list \<Rightarrow> run_state \<Rightarrow> bool" where
  "consults e raw st \<longleftrightarrow>
     trigger_tokens (he_window e) \<le> estimate e (hook_projection e st (hook_middle e raw st) (drop (keep_start e raw st) raw))
     \<and> \<not> fatal st \<and> firings st < TIER_3_MAX_FIRINGS_PER_TASK \<and> \<not> should_fire_pre_tier3_flush st (he_config e) raw"

lemma payload_fits_env [simp]: "payload_fits (e\<lparr>se_model := m, se_through := t\<rparr>) = payload_fits e"
  by (intro ext) (simp add: payload_fits_def estimate_payload_tokens_def)

lemma fair_env [simp]: "fair (e\<lparr>se_model := m, se_through := t\<rparr>) = fair e"
  by (simp add: fair_def call_cost_def)

lemma answering_env [simp]: "answering (e\<lparr>se_model := m, se_through := t\<rparr>) = answering e"
  by (simp add: answering_def)

lemma oversized_refused:
  assumes "fair e" "se_window e = Some window" "payload_fits e ms prior window = Some False" "2 \<le> length ms"
    and "summarizer_of e (pool_insert viol) w model ms prior n = Some r"
  shows "refused e viol r"
proof -
  let ?e = "e\<lparr>se_model := model, se_through := Some n\<rparr>"
  from assms obtain w' where "chunk_summarize ?e (pool_insert viol) window ''compaction.tier3'' prior ms w = Some (r, w')"
    by (auto simp: summarizer_of_def summarize_slice_def not_less)
  then have "refused ?e viol r" using chunk_refused assms(1) by (metis fair_env)
  then show ?thesis by (simp add: refused_def)
qed

lemma consults_summarise:
  "consults e raw st \<Longrightarrow> compaction_pre_model_hook e raw st =
     summarise e raw st (effective_through raw st) (keep_start e raw st) (hook_middle e raw st)
       (hook_projection e st (hook_middle e raw st) (drop (keep_start e raw st) raw))"
  by (simp add: consults_def compaction_pre_model_hook_def hook_middle_def [symmetric] Let_def)

lemma fatal_is_final: "fatal st \<Longrightarrow> u_summary (pr_updates (compaction_pre_model_hook e raw st)) = None"
  by (simp add: compaction_pre_model_hook_def skip_with_def no_updates_def Let_def)

lemma summarise_fatal:
  assumes "ms \<noteq> []" "\<And>model. case he_summarizer e model ms (summary st) (int kws) of None \<Rightarrow> True
      | Some r \<Rightarrow> sr_skipped r \<and> sr_reason r = Some (lit ''fatal'')"
  shows "u_summary (pr_updates (summarise e raw st through kws ms pj)) = None"
    and "u_fatal (pr_updates (summarise e raw st through kws ms pj))"
proof -
  define model where "model = (case json_get ''summarizer_model'' (json_section ''context_management'' (he_config e)) of
      Some (JStr m) \<Rightarrow> if m = [] then he_default_model e else m | _ \<Rightarrow> he_default_model e)"
  have "summarise e raw st through kws ms pj = skip_with e pj (estimate e pj)
      ((no_updates (int (length (messages st))))\<lparr>u_fatal := True\<rparr>) [Tier3Skipped (lit ''fatal'')]"
    using assms(1) assms(2) [of model]
    by (cases "he_summarizer e model ms (summary st) (int kws)")
      (simp_all add: summarise_def Let_def model_def [symmetric] lit_def)
  then show "u_summary (pr_updates (summarise e raw st through kws ms pj)) = None"
    "u_fatal (pr_updates (summarise e raw st through kws ms pj))"
    by (simp_all add: skip_with_def no_updates_def)
qed

text \<open>
  C21. When the middle does not fit the summariser model, the rows of the chunk calls
  violate the CHECK constraint of agent_cost_ledger, which the summariser takes for a
  fatal error: no summary is made although the model answered, the task is marked fatal,
  and no later pass makes one.
\<close>

theorem oversized_middle_disables_compaction:
  assumes "he_summarizer he = summarizer_of e (pool_insert viol) w" "fair e" "answering e"
    and "\<not> summarizer_is_retryable (se_uword e) (operation_refused viol)"
    and "se_window e = Some window" "payload_fits e (hook_middle he raw st) (summary st) window = Some False"
    and "2 \<le> length (hook_middle he raw st)" "consults he raw st"
  shows "u_summary (pr_updates (compaction_pre_model_hook he raw st)) = None
    \<and> fatal (apply_updates add_messages st (pr_updates (compaction_pre_model_hook he raw st)))
    \<and> (\<forall>he2 raw2 st2. fatal st2 \<longrightarrow> u_summary (pr_updates (compaction_pre_model_hook he2 raw2 st2)) = None)"
proof -
  let ?p = "compaction_pre_model_hook he raw st"
  have "hook_middle he raw st \<noteq> []" using assms(7) by auto
  moreover have "case he_summarizer he model (hook_middle he raw st) (summary st) (int (keep_start he raw st)) of None \<Rightarrow> True
      | Some r \<Rightarrow> sr_skipped r \<and> sr_reason r = Some (lit ''fatal'')" for model
    using oversized_refused [OF assms(2,5,6,7)] assms(1,3,4) by (auto simp: refused_def split: option.split)
  ultimately have "u_summary (pr_updates ?p) = None" "u_fatal (pr_updates ?p)"
    unfolding consults_summarise [OF assms(8)] by (rule summarise_fatal)+
  then show ?thesis using fatal_is_final by (simp add: apply_updates_def any_reducer_def)
qed

section \<open>Witnesses\<close>

definition demo_answer :: response where
  "demo_answer = \<lparr>rs_content = Plain [115],
     rs_metadata = JObj [(''usage'', JObj [(''input_tokens'', JNum 7), (''output_tokens'', JNum 2)])],
     rs_usage = None, rs_latency = 5\<rparr>"

definition demo_sum_env :: sum_env where
  "demo_sum_env = \<lparr>se_now = 10, se_tenant = ''t'', se_agent = ''a'', se_task = ''x'', se_checkpoint = Some ''c'',
     se_model = [109], se_through = Some 3, se_window = Some 0, se_prompt = [80],
     se_text = (\<lambda>c. case c of Plain s \<Rightarrow> Some s | Blocks _ \<Rightarrow> Some []), se_uword = (\<lambda>_. False), se_init_ok = True,
     se_invoke = (\<lambda>_ _. Inr demo_answer), se_price = Some (Some (1000000, 1000000))\<rparr>"

definition demo_large_env :: sum_env where
  "demo_large_env = demo_sum_env\<lparr>se_window := None\<rparr>"

definition demo_messages :: "message list" where
  "demo_messages = [plain_message Human [104], plain_message Human [105]]"

definition demo_world :: "db sum_world" where
  "demo_world = \<lparr>sw_calls = [], sw_slept = [],
     sw_ledger = empty_db\<rparr>"

definition demo_violation :: "db_error \<Rightarrow> exn" where
  "demo_violation _ = \<lparr>ex_class = OtherExn, ex_text = lit ''violates check constraint'', ex_chain = []\<rparr>"

lemma demo_tokens: "extract_tokens (response_metadata demo_answer) = Some (7, 2)"
  by (simp add: extract_tokens_def response_metadata_def demo_answer_def or_else_def json_get_def json_truthy_def
      token_count_def py_int_def Let_def)

lemma demo_fair [simp]: "fair demo_sum_env" "fair demo_large_env"
  by (auto simp: fair_def demo_sum_env_def demo_large_env_def demo_tokens call_cost_def rollup_cost_def split: content.split)

lemma demo_success:
  assumes "sw_ledger w = empty_db"
  obtains w' r where "summarize_slice demo_large_env (pool_insert demo_violation) [] demo_messages w = Some (r, w')"
    "\<not> sr_skipped r" "sr_cost r = 9"
proof -
  have row: "pool_insert demo_violation (summary_row demo_large_env op c i out) empty_db \<noteq> Inl x"
    if "op = ''compaction.tier3''" for op c i out x
    using that by (simp add: pool_insert_def insert_cost_row_def ledger_operations_def)
  have price: "call_cost demo_large_env 7 2 = 9"
    by (simp add: call_cost_def demo_large_env_def demo_sum_env_def rollup_cost_def)
  have content: "se_text demo_large_env (rs_content demo_answer) = Some [115]"
    by (simp add: demo_large_env_def demo_sum_env_def demo_answer_def)
  have invoke: "se_invoke demo_large_env h p = Inr demo_answer" "se_init_ok demo_large_env" "se_window demo_large_env = None" for h p
    by (simp_all add: demo_large_env_def demo_sum_env_def)
  obtain serialized where fmt: "format_messages_for_summary (se_text demo_large_env) demo_messages = Some serialized"
    by (auto simp: format_messages_for_summary_def demo_messages_def format_message_def plain_message_def
        demo_large_env_def demo_sum_env_def)
  obtain d' where d': "pool_insert demo_violation (summary_row demo_large_env ''compaction.tier3'' 9 7 2) empty_db = Inr d'"
    using row [OF refl] by (metis sum.exhaust)
  have "\<not> length demo_messages < 2" by (simp add: demo_messages_def)
  then show ?thesis
    using that assms by (simp add: summarize_slice_def summarize_single_call_def fmt invoke attempt_once_def Let_def
        book_answer_def demo_tokens price d' content)
qed

lemma demo_summarizable: "summarizable demo_large_env demo_messages" "reads_plain demo_large_env"
  by (simp_all add: summarizable_def demo_large_env_def demo_sum_env_def demo_messages_def readable_def reads_plain_def
      format_message_def plain_message_def is_scalar_def lit_def)

theorem summarizer_terminates_witness:
  "\<exists>r w' cs. summarize_slice demo_large_env (pool_insert demo_violation) [] demo_messages demo_world = Some (r, w')
     \<and> sw_calls w' = sw_calls demo_world @ cs \<and> length cs \<le> 6 * length demo_messages - 3"
  by (rule summarizer_terminates [OF demo_summarizable]) simp

theorem summary_covers_slice_witness:
  "\<exists>r w' as bs. summarize_slice demo_large_env (pool_insert demo_violation) [] demo_messages demo_world = Some (r, w')
     \<and> sw_calls w' = as @ bs \<and> covers (as @ bs) demo_messages"
proof -
  obtain w' r where s: "summarize_slice demo_large_env (pool_insert demo_violation) [] demo_messages demo_world = Some (r, w')"
    "\<not> sr_skipped r" by (rule demo_success [of demo_world]) (auto simp: demo_world_def)
  have "sw_calls demo_world = []" by (simp add: demo_world_def)
  with s summary_covers_slice [OF s] show ?thesis by force
qed

lemma demo_total: "\<exists>r w'. summarize_slice demo_large_env book [] demo_messages w = Some (r, w')"
  using single_call_some [OF demo_summarizable(1)]
  by (simp add: summarize_slice_def demo_messages_def demo_large_env_def)

theorem summary_books_once_witness:
  "\<exists>r w' r2 w2'. summarize_slice demo_large_env (pool_insert demo_violation) [] demo_messages demo_world = Some (r, w')
     \<and> summarize_slice demo_large_env (pool_insert demo_violation) [] demo_messages w' = Some (r2, w2')
     \<and> sr_cost r = 9 \<and> sw_ledger w2' = sw_ledger w'"
proof -
  obtain w' r where s: "summarize_slice demo_large_env (pool_insert demo_violation) [] demo_messages demo_world = Some (r, w')"
    "\<not> sr_skipped r" "sr_cost r = 9" by (rule demo_success [of demo_world]) (auto simp: demo_world_def)
  obtain r2 w2' where s2: "summarize_slice demo_large_env (pool_insert demo_violation) [] demo_messages w' = Some (r2, w2')"
    using demo_total [of "pool_insert demo_violation" w'] by blast
  have "se_through demo_large_env \<noteq> None" by (simp add: demo_large_env_def demo_sum_env_def)
  from summary_books_once [OF s(1) demo_fair(2) s2 demo_fair(2) refl this refl] s s2 show ?thesis by auto
qed

definition demo_hook :: hook_env where
  "demo_hook = demo_env\<lparr>he_summarizer := summarizer_of demo_sum_env (pool_insert demo_violation) demo_world\<rparr>"

lemma demo_hook_keep: "keep_start demo_hook demo_journal demo_state = 3"
  by (simp add: keep_start_def demo_window Let_def) (simp add: slice_def demo_journal_def)

lemma demo_middle: "hook_middle demo_hook demo_journal demo_state = stub_recalled_outside_keep_window (take 3 demo_journal)"
  by (simp add: hook_middle_def demo_window demo_hook_keep slice_def)

lemma demo_oversized:
  "payload_fits demo_sum_env (hook_middle demo_hook demo_journal demo_state) (summary demo_state) 0 = Some False"
proof -
  have "summarizable demo_sum_env (stub_recalled_outside_keep_window (take 3 demo_journal))"
    by (simp add: stub_recalled_outside_keep_window_def demo_journal_def summarizable_def readable_def format_message_def demo_sum_env_def demo_call_def demo_result_def
        plain_message_def is_recalled_def is_tool_def stub_content_def format_call_def lit_def is_scalar_def ITEM_SEP_def
        kwarg_true_def kwarg_def json_truthy_def original_id_def QUOTE_def Let_def dec_nat.simps)
  then have "summarizable demo_sum_env (hook_middle demo_hook demo_journal demo_state)" by (simp only: demo_middle)
  moreover have "list_all is_scalar (summary demo_state)" by (simp add: demo_state_def)
  ultimately obtain b where "payload_fits demo_sum_env (hook_middle demo_hook demo_journal demo_state) (summary demo_state) 0 = Some b"
    using payload_fits_some by blast
  then show ?thesis by (auto simp: payload_fits_def SUMMARIZER_MAX_OUTPUT_TOKENS_def)
qed

lemma demo_consults: "consults demo_hook demo_journal demo_state"
proof -
  have "trigger_tokens 1 = 0" by (simp add: trigger_tokens_def float_mul_trunc_exact)
  then show ?thesis
    by (simp add: consults_def demo_hook_def demo_env_def demo_state_def should_fire_pre_tier3_flush_def json_section_def
        json_get_def TIER_3_MAX_FIRINGS_PER_TASK_def)
qed

theorem oversized_middle_disables_compaction_witness:
  "fatal (apply_updates merge_by_id demo_state (pr_updates (compaction_pre_model_hook demo_hook demo_journal demo_state)))"
proof -
  have "length (stub_recalled_outside_keep_window (take 3 demo_journal)) = 3"
    by (simp add: stub_recalled_outside_keep_window_def demo_journal_def)
  then have "2 \<le> length (hook_middle demo_hook demo_journal demo_state)" by (simp only: demo_middle)
  moreover have "payload_fits demo_sum_env (hook_middle demo_hook demo_journal demo_state) (summary demo_state) 0 = Some False"
    by (rule demo_oversized)
  moreover have "consults demo_hook demo_journal demo_state"
    by (rule demo_consults)
  moreover have "answering demo_sum_env" by (simp add: answering_def demo_sum_env_def demo_tokens)
  moreover have "\<not> summarizer_is_retryable (se_uword demo_sum_env) (operation_refused demo_violation)"
    by code_simp
  moreover have "he_summarizer demo_hook = summarizer_of demo_sum_env (pool_insert demo_violation) demo_world"
    by (simp add: demo_hook_def)
  moreover have "se_window demo_sum_env = Some 0" by (simp add: demo_sum_env_def)
  ultimately show ?thesis using oversized_middle_disables_compaction [OF _ demo_fair(1)] by simp
qed

end
