(* ===== verification/Usage.thy ===== *)
theory Usage
  imports Prelude "HOL-Library.Multiset"
begin

text \<open>
  \<open>executor/usage.py\<close> and \<open>executor/supervisor/cost.py\<close>: the usage of one language-model reply
  and the additive merge of usages.  A usage is a Python dict from counter names to integers,
  a map here.  \<open>usage_metadata\<close> is LangChain's typed dict; a missing key is \<open>None\<close>.
\<close>

type_synonym usage = "string \<Rightarrow> int option"

record usage_metadata =
  um_input :: "int option"
  um_output :: "int option"
  um_total :: "int option"
  um_details :: "(int option \<times> int option) option"
  um_cache_creation :: "int option"
  um_cache_read :: "int option"

text \<open>\<open>a or b or 0\<close> on two optional integers.\<close>

definition or_zero :: "int option \<Rightarrow> int option \<Rightarrow> int" where
  "or_zero a b = (if a \<noteq> None \<and> a \<noteq> Some 0 then the a else case b of Some y \<Rightarrow> y | None \<Rightarrow> 0)"

definition put_nonzero :: "string \<Rightarrow> int \<Rightarrow> usage \<Rightarrow> usage" where
  "put_nonzero k v u = (if v \<noteq> 0 then u(k \<mapsto> v) else u)"

definition usage_from_message :: "usage_metadata option \<Rightarrow> usage" where
  "usage_from_message m =
     (case m of
        None \<Rightarrow> Map.empty
      | Some um \<Rightarrow>
          let cache_creation = or_zero (Option.bind (um_details um) fst) (um_cache_creation um);
              cache_read = or_zero (Option.bind (um_details um) snd) (um_cache_read um)
          in put_nonzero ''cache_read_input_tokens'' cache_read
               (put_nonzero ''cache_creation_input_tokens'' cache_creation
                 (put_nonzero ''output_tokens'' (or_zero (um_output um) None)
                   (put_nonzero ''input_tokens'' (or_zero (um_input um) None) Map.empty))))"

definition merge_usage :: "usage \<Rightarrow> usage \<Rightarrow> usage" where
  "merge_usage a b = (\<lambda>k. case b k of None \<Rightarrow> a k | Some v \<Rightarrow> Some ((case a k of None \<Rightarrow> 0 | Some x \<Rightarrow> x) + v))"

definition usage_from_messages :: "usage_metadata option list \<Rightarrow> usage" where
  "usage_from_messages ms = foldl (\<lambda>acc m. merge_usage acc (usage_from_message m)) Map.empty ms"

text \<open>
  \<open>UsageAccumulatingModel\<close>: a model whose calls also add their usage.  A call that raises adds
  nothing.
\<close>

definition accumulating_ainvoke ::
  "('q \<Rightarrow> 'e + 'r \<times> usage_metadata option) \<Rightarrow> usage \<Rightarrow> 'q \<Rightarrow> ('e + 'r \<times> usage_metadata option) \<times> usage" where
  "accumulating_ainvoke inner acc q =
     (case inner q of
        Inl e \<Rightarrow> (Inl e, acc)
      | Inr (r, um) \<Rightarrow> (Inr (r, um), merge_usage acc (usage_from_message um)))"

section \<open>Merging is a commutative monoid\<close>

lemma merge_usage_empty [simp]: "merge_usage Map.empty u = u" "merge_usage u Map.empty = u"
  by (auto simp: merge_usage_def split: option.splits)

lemma merge_usage_commute: "merge_usage a b = merge_usage b a"
  by (auto simp: merge_usage_def split: option.splits)

lemma merge_usage_assoc: "merge_usage (merge_usage a b) c = merge_usage a (merge_usage b c)"
  by (auto simp: merge_usage_def split: option.splits)

interpretation spend: comm_monoid merge_usage Map.empty
  by unfold_locales (auto simp: merge_usage_assoc intro: merge_usage_commute)

lemma fold_merge_shift: "foldl merge_usage a us = merge_usage a (foldl merge_usage Map.empty us)"
  by (induction us arbitrary: a) (simp, metis foldl_Cons merge_usage_assoc merge_usage_empty(1))

lemma fold_merge_append:
  "foldl merge_usage Map.empty (us @ vs)
     = merge_usage (foldl merge_usage Map.empty us) (foldl merge_usage Map.empty vs)"
  by (simp add: fold_merge_shift [of "foldl merge_usage Map.empty us"])

lemma fold_merge_mset:
  assumes "mset us = mset vs"
  shows "foldl merge_usage a us = foldl merge_usage a vs"
proof -
  have "fold (\<lambda>u acc. merge_usage acc u) us = fold (\<lambda>u acc. merge_usage acc u) vs"
    using assms by (intro fold_multiset_equiv)
      (auto simp: fun_eq_iff merge_usage_assoc, metis merge_usage_commute)
  then show ?thesis by (simp add: foldl_conv_fold)
qed

lemma usage_from_messages_simps [simp]:
  "usage_from_messages [] = Map.empty"
  "usage_from_messages (ms @ [m]) = merge_usage (usage_from_messages ms) (usage_from_message m)"
  by (simp_all add: usage_from_messages_def)

lemma usage_from_messages_conv:
  "usage_from_messages ms = foldl merge_usage Map.empty (map usage_from_message ms)"
  by (simp add: usage_from_messages_def foldl_map)

lemma usage_from_messages_append:
  "usage_from_messages (ms @ ns) = merge_usage (usage_from_messages ms) (usage_from_messages ns)"
  by (simp add: usage_from_messages_conv) (rule fold_merge_shift)

lemma usage_of_no_metadata [simp]: "usage_from_message None = Map.empty"
  by (simp add: usage_from_message_def)

text \<open>The counter under a key of a merge is the sum of the counters, absent ones counting zero.\<close>

definition counter :: "usage \<Rightarrow> string \<Rightarrow> int" where
  "counter u k = (case u k of None \<Rightarrow> 0 | Some v \<Rightarrow> v)"

lemma counter_merge [simp]: "counter (merge_usage a b) k = counter a k + counter b k"
  by (auto simp: counter_def merge_usage_def split: option.splits)

lemma counter_empty [simp]: "counter Map.empty k = 0"
  by (simp add: counter_def)

end
