(* ===== verification/Subagent.thy ===== *)
theory Subagent
  imports Usage Messages Failures
begin

text \<open>
  \<open>executor/subagents/fanout.py\<close>: one focused sub-agent run in process.  The compiled subgraph
  is a loop over the nodes \<open>agent\<close>, \<open>tools\<close> and \<open>finalize\<close>, one LangGraph super-step each, under
  LangGraph's recursion limit and the timeout of \<open>asyncio.wait_for\<close>.

  The language model, the tools, the names of exception classes and the deadline are the
  environment \<open>sub_env\<close>; a model call is identified by its turn and attempt, a tool call by its
  turn and position.  The channel \<open>sub_messages\<close> appends (the ids of new messages are fresh) and
  keeps with each message its \<open>usage_metadata\<close>.  Left out: the compiled graph's checkpoints, the
  \<open>status\<close> of a tool message and the heartbeat, which the task-event sink drops.
\<close>

definition MAX_SUBAGENT_DEPTH :: int where "MAX_SUBAGENT_DEPTH = 2"

definition SUBAGENT_MAX_ATTEMPTS :: nat where "SUBAGENT_MAX_ATTEMPTS = 3"

definition DEFAULT_TIMEOUT_SECONDS :: int where "DEFAULT_TIMEOUT_SECONDS = 4 * 60 * 60"

definition INTERRUPT_BEARING_TOOL_NAMES :: "pystr list" where
  "INTERRUPT_BEARING_TOOL_NAMES = [lit ''request_human_input'']"

definition PARENT_STATE_TOOL_NAMES :: "pystr list" where
  "PARENT_STATE_TOOL_NAMES = [lit ''plan_write'', lit ''note_finding'', lit ''remember_this_run'']"

datatype reason = RCeiling | RTimeout | RError | RDepth

record subagent_ceiling =
  max_turns :: int
  max_tokens :: int

record subagent_result =
  sa_ok :: bool
  sa_summary :: pystr
  sa_reason :: "reason option"
  sa_usage :: usage

definition sa_success :: "pystr \<Rightarrow> usage \<Rightarrow> subagent_result" where
  "sa_success summary u = \<lparr>sa_ok = True, sa_summary = summary, sa_reason = None, sa_usage = u\<rparr>"

definition sa_failure :: "reason \<Rightarrow> pystr \<Rightarrow> usage \<Rightarrow> subagent_result" where
  "sa_failure r detail u = \<lparr>sa_ok = False, sa_summary = detail, sa_reason = Some r, sa_usage = u\<rparr>"

text \<open>A tool: its name and, per turn and position, what calling it on arguments does.\<close>

record tool =
  t_name :: pystr
  t_run :: "int \<Rightarrow> nat \<Rightarrow> (string \<times> json) list \<Rightarrow> pystr + pystr"

definition filter_headless_tools :: "tool list \<Rightarrow> tool list" where
  "filter_headless_tools ts =
     filter (\<lambda>t. t_name t \<notin> set (INTERRUPT_BEARING_TOOL_NAMES @ PARENT_STATE_TOOL_NAMES)) ts"

record sub_msg =
  sm_message :: message
  sm_usage :: "usage_metadata option"

record sub_state =
  sub_messages :: "sub_msg list"
  turn_count :: int
  tokens_used :: int
  sub_usage :: usage
  stopped_reason :: "reason option"

record sub_env =
  sg_model :: "int \<Rightarrow> nat \<Rightarrow> message list \<Rightarrow> exn + (message \<times> usage_metadata option)"
  sg_tools :: "tool list"
  sg_ceiling :: subagent_ceiling
  sg_deadline :: "nat option"
  sg_uword :: "nat \<Rightarrow> bool"
  sg_printable :: "nat \<Rightarrow> bool"
  sg_exn_name :: "exn \<Rightarrow> pystr"
  sg_bad_message :: exn
  sg_recursion_error :: exn

definition message_tokens :: "usage_metadata option \<Rightarrow> int" where
  "message_tokens m =
     (case m of
        None \<Rightarrow> 0
      | Some um \<Rightarrow>
          (case um_total um of
             Some t \<Rightarrow> t
           | None \<Rightarrow> or_zero (um_input um) None + or_zero (um_output um) None))"

text \<open>LangGraph's \<open>RetryPolicy\<close>: attempt \<open>n\<close> is the last when \<open>k = 0\<close> attempts are left.\<close>

fun with_retry :: "('e \<Rightarrow> bool) \<Rightarrow> nat \<Rightarrow> nat \<Rightarrow> (nat \<Rightarrow> 'e + 'a) \<Rightarrow> 'e + 'a" where
  "with_retry retry_on 0 n f = f n"
| "with_retry retry_on (Suc k) n f =
     (case f n of
        Inl ex \<Rightarrow> if retry_on ex then with_retry retry_on k (Suc n) f else Inl ex
      | Inr x \<Rightarrow> Inr x)"

definition max_int :: "int \<Rightarrow> int \<Rightarrow> int" where
  "max_int a b = max a b"

definition sub_agent_node :: "sub_env \<Rightarrow> sub_state \<Rightarrow> exn + sub_state" where
  "sub_agent_node e s =
     (if max_turns (sg_ceiling e) \<le> turn_count s \<or> max_tokens (sg_ceiling e) \<le> tokens_used s
      then Inr (s\<lparr>stopped_reason := Some RCeiling\<rparr>)
      else case with_retry (is_retryable_error (sg_uword e)) (SUBAGENT_MAX_ATTEMPTS - 1) 0
                  (\<lambda>n. sg_model e (turn_count s) n (map sm_message (sub_messages s))) of
             Inl ex \<Rightarrow> Inl ex
           | Inr (m, um) \<Rightarrow>
               Inr (s\<lparr>sub_messages := sub_messages s @ [\<lparr>sm_message = m, sm_usage = um\<rparr>],
                      turn_count := max_int (turn_count s) (turn_count s + 1),
                      tokens_used := max_int (tokens_used s) (tokens_used s + message_tokens um),
                      sub_usage := merge_usage (sub_usage s) (usage_from_message um)\<rparr>))"

definition tool_message :: "pystr \<Rightarrow> pystr \<Rightarrow> sub_msg" where
  "tool_message text call_id =
     \<lparr>sm_message = (plain_message ToolRole text)\<lparr>tool_call_id := call_id\<rparr>, sm_usage = None\<rparr>"

text \<open>\<open>tools_by_name\<close> is a dict comprehension: of two tools of one name the later wins.\<close>

definition tool_answer :: "sub_env \<Rightarrow> int \<Rightarrow> nat \<Rightarrow> tool_call \<Rightarrow> pystr" where
  "tool_answer e turn i c =
     (case find (\<lambda>t. t_name t = tc_name c) (rev (filter_headless_tools (sg_tools e))) of
        None \<Rightarrow> lit ''error: tool '' @ repr (sg_printable e) (tc_name c) @ lit '' not available''
      | Some t \<Rightarrow>
          (case t_run t turn i (tc_args c) of
             Inl ex \<Rightarrow> lit ''error: '' @ ex
           | Inr res \<Rightarrow> res))"

text \<open>A tool message needs the id of its call; a call without one makes the constructor raise.\<close>

fun tool_outputs :: "sub_env \<Rightarrow> int \<Rightarrow> nat \<Rightarrow> tool_call list \<Rightarrow> exn + sub_msg list" where
  "tool_outputs e turn i [] = Inr []"
| "tool_outputs e turn i (c # cs) =
     (case tc_id c of
        None \<Rightarrow> Inl (sg_bad_message e)
      | Some cid \<Rightarrow>
          (case tool_outputs e turn (Suc i) cs of
             Inl ex \<Rightarrow> Inl ex
           | Inr out \<Rightarrow> Inr (tool_message (tool_answer e turn i c) cid # out)))"

definition sub_tool_node :: "sub_env \<Rightarrow> sub_state \<Rightarrow> exn + sub_state" where
  "sub_tool_node e s =
     (case tool_outputs e (turn_count s) 0 (tool_calls (sm_message (last (sub_messages s)))) of
        Inl ex \<Rightarrow> Inl ex
      | Inr out \<Rightarrow> Inr (s\<lparr>sub_messages := sub_messages s @ out\<rparr>))"

datatype sub_node = AgentNode | ToolsNode | FinalizeNode

definition sub_route :: "sub_state \<Rightarrow> sub_node" where
  "sub_route s =
     (if stopped_reason s \<noteq> None then FinalizeNode
      else if sub_messages s \<noteq> [] \<and> is_caller (sm_message (last (sub_messages s))) then ToolsNode
      else FinalizeNode)"

definition sub_finalize :: "sub_state \<Rightarrow> pystr \<times> reason option \<times> usage" where
  "sub_finalize s =
     (case stopped_reason s of
        Some r \<Rightarrow> ([], Some r, sub_usage s)
      | None \<Rightarrow>
          (case find (\<lambda>m. role m = Ai \<and> tool_calls m = []) (rev (map sm_message (sub_messages s))) of
             Some m \<Rightarrow> flatten_text (content m)
           | None \<Rightarrow> [],
           None, sub_usage s))"

text \<open>The compiled subgraph, with the super-steps left and those left before the deadline.\<close>

datatype sub_end = Finished sub_state | Crashed exn sub_state | OutOfSteps sub_state | OutOfTime sub_state

definition pass_time :: "nat option \<Rightarrow> nat option" where
  "pass_time d = map_option (\<lambda>k. k - 1) d"

fun sub_run :: "sub_env \<Rightarrow> nat \<Rightarrow> nat option \<Rightarrow> sub_node \<Rightarrow> sub_state \<Rightarrow> sub_end" where
  "sub_run e 0 d n s = OutOfSteps s"
| "sub_run e (Suc k) d n s =
     (if d = Some 0 then OutOfTime s
      else case n of
             AgentNode \<Rightarrow>
               (case sub_agent_node e s of
                  Inl ex \<Rightarrow> Crashed ex s
                | Inr s' \<Rightarrow> sub_run e k (pass_time d) (sub_route s') s')
           | ToolsNode \<Rightarrow>
               (case sub_tool_node e s of
                  Inl ex \<Rightarrow> Crashed ex s
                | Inr s' \<Rightarrow> sub_run e k (pass_time d) AgentNode s')
           | FinalizeNode \<Rightarrow> Finished s)"

definition recursion_limit :: "subagent_ceiling \<Rightarrow> nat" where
  "recursion_limit c = nat (max 25 (max_turns c * 2 + 5))"

definition sub_seed :: "pystr \<Rightarrow> sub_state" where
  "sub_seed prompt =
     \<lparr>sub_messages = [\<lparr>sm_message = plain_message Human prompt, sm_usage = None\<rparr>],
      turn_count = 0, tokens_used = 0, sub_usage = Map.empty, stopped_reason = None\<rparr>"

definition sub_outcome :: "sub_env \<Rightarrow> pystr \<Rightarrow> sub_end" where
  "sub_outcome e prompt = sub_run e (recursion_limit (sg_ceiling e)) (sg_deadline e) AgentNode (sub_seed prompt)"

definition error_detail :: "sub_env \<Rightarrow> exn \<Rightarrow> pystr" where
  "error_detail e ex = take 500 (sg_exn_name e ex @ lit '': '' @ ex_text ex)"

definition run_subagent :: "sub_env \<Rightarrow> int \<Rightarrow> pystr \<Rightarrow> subagent_result" where
  "run_subagent e depth prompt =
     (if MAX_SUBAGENT_DEPTH < depth
      then sa_failure RDepth
             (lit ''depth '' @ dec depth @ lit '' exceeds MAX_SUBAGENT_DEPTH='' @ dec MAX_SUBAGENT_DEPTH) Map.empty
      else case sub_outcome e prompt of
             OutOfTime _ \<Rightarrow>
               sa_failure RTimeout
                 (lit ''sub-agent exceeded its '' @ dec DEFAULT_TIMEOUT_SECONDS @ lit ''s research timeout'') Map.empty
           | Crashed ex _ \<Rightarrow> sa_failure RError (error_detail e ex) Map.empty
           | OutOfSteps _ \<Rightarrow> sa_failure RError (error_detail e (sg_recursion_error e)) Map.empty
           | Finished s \<Rightarrow>
               (case sub_finalize s of (summary, r, u) \<Rightarrow>
                  if r = Some RCeiling then sa_failure RCeiling [] u else sa_success summary u))"


section \<open>Invariants of the loop\<close>

fun end_state :: "sub_end \<Rightarrow> sub_state" where
  "end_state (Finished s) = s"
| "end_state (Crashed ex s) = s"
| "end_state (OutOfSteps s) = s"
| "end_state (OutOfTime s) = s"

text \<open>What the two working nodes keep, every end of the loop has.\<close>

lemma sub_run_invariant:
  assumes "P n s"
    and agent: "\<And>s s'. P AgentNode s \<Longrightarrow> sub_agent_node e s = Inr s' \<Longrightarrow> P (sub_route s') s'"
    and tools: "\<And>s s'. P ToolsNode s \<Longrightarrow> sub_tool_node e s = Inr s' \<Longrightarrow> P AgentNode s'"
  shows "\<exists>n'. P n' (end_state (sub_run e k d n s)) \<and> (\<forall>t. sub_run e k d n s = Finished t \<longrightarrow> n' = FinalizeNode)"
  using assms(1)
proof (induction k arbitrary: d n s)
  case (Suc k)
  show ?case
  proof (cases n)
    case AgentNode
    then show ?thesis using Suc.prems Suc.IH agent by (auto split: sum.split)
  next
    case ToolsNode
    then show ?thesis using Suc.prems Suc.IH tools by (auto split: sum.split)
  next
    case FinalizeNode
    then show ?thesis using Suc.prems by auto
  qed
qed auto

lemma agent_node_cases:
  assumes "sub_agent_node e s = Inr s'"
  obtains (stop) "s' = s\<lparr>stopped_reason := Some RCeiling\<rparr>"
      "max_turns (sg_ceiling e) \<le> turn_count s \<or> max_tokens (sg_ceiling e) \<le> tokens_used s"
  | (reply) m um n where "sg_model e (turn_count s) n (map sm_message (sub_messages s)) = Inr (m, um)"
      "turn_count s < max_turns (sg_ceiling e)" "tokens_used s < max_tokens (sg_ceiling e)"
      "s' = s\<lparr>sub_messages := sub_messages s @ [\<lparr>sm_message = m, sm_usage = um\<rparr>],
              turn_count := turn_count s + 1,
              tokens_used := max (tokens_used s) (tokens_used s + message_tokens um),
              sub_usage := merge_usage (sub_usage s) (usage_from_message um)\<rparr>"
proof (cases "max_turns (sg_ceiling e) \<le> turn_count s \<or> max_tokens (sg_ceiling e) \<le> tokens_used s")
  case True
  with assms show ?thesis by (intro stop) (auto simp: sub_agent_node_def)
next
  case False
  let ?f = "\<lambda>n. sg_model e (turn_count s) n (map sm_message (sub_messages s))"
  have retry: "\<exists>n. ?f n = Inr x" if "with_retry r k n0 ?f = Inr x" for r k n0 x
    using that by (induction k arbitrary: n0) (auto split: sum.splits if_splits)
  let ?w = "with_retry (is_retryable_error (sg_uword e)) (SUBAGENT_MAX_ATTEMPTS - 1) 0 ?f"
  have node: "sub_agent_node e s = (case ?w of Inl ex \<Rightarrow> Inl ex
      | Inr (m, um) \<Rightarrow> Inr (s\<lparr>sub_messages := sub_messages s @ [\<lparr>sm_message = m, sm_usage = um\<rparr>],
              turn_count := turn_count s + 1,
              tokens_used := max (tokens_used s) (tokens_used s + message_tokens um),
              sub_usage := merge_usage (sub_usage s) (usage_from_message um)\<rparr>))"
    using False by (cases ?w) (auto simp: sub_agent_node_def max_int_def)
  then obtain x where x: "?w = Inr x" using assms by (cases ?w) auto
  obtain m um where mu: "x = (m, um)" by fastforce
  from retry [OF x] obtain n where "?f n = Inr (m, um)" unfolding mu by blast
  moreover from assms have "s' = s\<lparr>sub_messages := sub_messages s @ [\<lparr>sm_message = m, sm_usage = um\<rparr>],
              turn_count := turn_count s + 1,
              tokens_used := max (tokens_used s) (tokens_used s + message_tokens um),
              sub_usage := merge_usage (sub_usage s) (usage_from_message um)\<rparr>"
    unfolding node x mu by simp
  ultimately show ?thesis using False by (intro reply [of n m um]) auto
qed

lemma tool_node_cases:
  assumes "sub_tool_node e s = Inr s'"
  obtains out where "tool_outputs e (turn_count s) 0 (tool_calls (sm_message (last (sub_messages s)))) = Inr out"
    "s' = s\<lparr>sub_messages := sub_messages s @ out\<rparr>"
proof (cases "tool_outputs e (turn_count s) 0 (tool_calls (sm_message (last (sub_messages s))))")
  case (Inr out)
  with assms show ?thesis by (intro that [of out]) (simp_all add: sub_tool_node_def)
qed (use assms in \<open>simp add: sub_tool_node_def\<close>)

section \<open>The recursion limit\<close>

text \<open>Each turn is two super-steps, so the limit leaves three spare ones.\<close>

lemma enough_steps:
  assumes "2 * nat (max_turns (sg_ceiling e) - turn_count s) + 2 \<le> k"
  shows "sub_run e k d AgentNode s \<noteq> OutOfSteps t"
  using assms
proof (induction k arbitrary: d s rule: less_induct)
  case (less k)
  then have "2 \<le> k" by linarith
  then obtain j where k: "k = Suc (Suc j)" using that [of "k - 2"] by linarith
  show ?case
  proof (cases "sub_agent_node e s")
    case (Inl ex)
    then show ?thesis by (simp add: k)
  next
    case (Inr s')
    then show ?thesis
    proof (cases rule: agent_node_cases)
      case stop
      then have "sub_route s' = FinalizeNode" by (simp add: sub_route_def)
      with Inr show ?thesis by (simp add: k)
    next
      case (reply m um n)
      then have turn: "turn_count s' = turn_count s + 1" by simp
      have "sub_run e j d' AgentNode s'' \<noteq> OutOfSteps t" if "sub_tool_node e s' = Inr s''" for s'' d'
      proof -
        from that have "turn_count s'' = turn_count s + 1" by (cases rule: tool_node_cases) (simp add: turn)
        with less.prems reply(2) k show ?thesis by (intro less.IH) auto
      qed
      moreover have "sub_route s' \<noteq> AgentNode" by (simp add: sub_route_def)
      ultimately show ?thesis using Inr by (auto simp: k split: sum.split sub_node.split)
    qed
  qed
qed

text \<open>
  C26. A sub-agent never runs into the recursion limit: for every behaviour of the model
  and the tools its turn ceiling stops the loop within the limit that run_subagent sets.
\<close>

theorem subagent_always_ends: "sub_outcome e prompt \<noteq> OutOfSteps s"
  unfolding sub_outcome_def
proof (rule enough_steps)
  have "2 * nat n + 2 \<le> nat (max 25 (n * 2 + 5))" for n :: int by linarith
  then show "2 * nat (max_turns (sg_ceiling e) - turn_count (sub_seed prompt)) + 2
      \<le> recursion_limit (sg_ceiling e)"
    by (simp add: sub_seed_def recursion_limit_def)
qed

section \<open>Spending\<close>

definition transcript_usage :: "sub_state \<Rightarrow> usage" where
  "transcript_usage s = usage_from_messages (map sm_usage (sub_messages s))"

lemma tool_outputs_usage:
  "tool_outputs e turn i cs = Inr out \<Longrightarrow> usage_from_messages (map sm_usage out) = Map.empty"
proof (induction e turn i cs arbitrary: out rule: tool_outputs.induct)
  case (2 e turn i c cs)
  then show ?case
    using usage_from_messages_append [of "[None]"]
    by (auto simp: tool_message_def usage_from_messages_def split: option.splits sum.splits)
qed simp

lemma seed_usage: "transcript_usage (sub_seed prompt) = sub_usage (sub_seed prompt)"
  by (simp add: transcript_usage_def sub_seed_def usage_from_messages_def)

lemma outcome_usage: "sub_usage (end_state (sub_outcome e prompt)) = transcript_usage (end_state (sub_outcome e prompt))"
proof -
  let ?P = "\<lambda>(n :: sub_node) s. sub_usage s = transcript_usage s"
  have "\<exists>n'. ?P n' (end_state (sub_outcome e prompt))
      \<and> (\<forall>t. sub_outcome e prompt = Finished t \<longrightarrow> n' = FinalizeNode)"
    unfolding sub_outcome_def
  proof (rule sub_run_invariant)
    fix s s'
    assume "?P AgentNode s" "sub_agent_node e s = Inr s'"
    from this(2,1) show "?P (sub_route s') s'"
      by (cases rule: agent_node_cases) (auto simp: transcript_usage_def)
  next
    fix s s'
    assume "?P ToolsNode s" "sub_tool_node e s = Inr s'"
    from this(2,1) show "?P AgentNode s'"
      by (cases rule: tool_node_cases) (auto simp: transcript_usage_def usage_from_messages_append dest: tool_outputs_usage)
  qed (simp add: seed_usage)
  then show ?thesis by simp
qed

text \<open>
  The usage a sub-agent reports is the sum over its replies when the loop finished, and empty
  when it timed out, crashed or was refused for its depth.
\<close>

theorem subagent_bills_finished_runs_only:
  "sa_usage (run_subagent e depth prompt) =
     (if depth \<le> MAX_SUBAGENT_DEPTH \<and> sub_outcome e prompt = Finished (end_state (sub_outcome e prompt))
      then transcript_usage (end_state (sub_outcome e prompt)) else Map.empty)"
  using outcome_usage [of e prompt]
  by (cases "sub_outcome e prompt")
    (auto simp: run_subagent_def sa_failure_def sa_success_def sub_finalize_def split: option.splits)


text \<open>
  A run that is cut by the deadline after a paid reply: the reply's tokens are in the
  sub-checkpoint, and the result says nothing of them.
\<close>

definition paid_reply :: "message \<times> usage_metadata option" where
  "paid_reply = (plain_message Ai [104, 105],
     Some \<lparr>um_input = Some 900, um_output = Some 40, um_total = Some 940, um_details = None,
           um_cache_creation = None, um_cache_read = None\<rparr>)"

definition slow_env :: sub_env where
  "slow_env = \<lparr>sg_model = \<lambda>_ _ _. Inr paid_reply, sg_tools = [], sg_ceiling = \<lparr>max_turns = 4, max_tokens = 5000\<rparr>,
     sg_deadline = Some 1, sg_uword = \<lambda>_. False, sg_printable = \<lambda>_. True, sg_exn_name = \<lambda>_. [],
     sg_bad_message = \<lparr>ex_class = OtherExn, ex_text = [], ex_chain = []\<rparr>,
     sg_recursion_error = \<lparr>ex_class = OtherExn, ex_text = [], ex_chain = []\<rparr>\<rparr>"

definition slow_state :: "pystr \<Rightarrow> sub_state" where
  "slow_state p = (sub_seed p)\<lparr>
     sub_messages := sub_messages (sub_seed p) @ [\<lparr>sm_message = fst paid_reply, sm_usage = snd paid_reply\<rparr>],
     turn_count := 1, tokens_used := 940, sub_usage := usage_from_message (snd paid_reply)\<rparr>"

lemma slow_step: "sub_agent_node slow_env (sub_seed p) = Inr (slow_state p)"
  by (simp add: sub_agent_node_def slow_env_def slow_state_def sub_seed_def SUBAGENT_MAX_ATTEMPTS_def
      numeral_2_eq_2 paid_reply_def max_int_def message_tokens_def)

lemma slow_outcome: "sub_outcome slow_env p = OutOfTime (slow_state p)"
proof -
  have "sub_run slow_env (Suc (Suc k)) (Some 1) AgentNode (sub_seed p) = OutOfTime (slow_state p)" for k
    by (simp add: slow_step pass_time_def)
  moreover have "recursion_limit (sg_ceiling slow_env) = Suc (Suc 23)" "sg_deadline slow_env = Some 1"
    by (simp_all add: recursion_limit_def slow_env_def)
  ultimately show ?thesis by (simp only: sub_outcome_def)
qed

section \<open>Ceilings and transcripts\<close>

definition reply_count :: "sub_msg list \<Rightarrow> int" where
  "reply_count ms = int (length (filter (\<lambda>m. role (sm_message m) = Ai) ms))"

definition reply_tokens :: "sub_msg list \<Rightarrow> int" where
  "reply_tokens ms = sum_list (map (\<lambda>m. max 0 (message_tokens (sm_usage m))) ms)"

definition under_ceiling :: "subagent_ceiling \<Rightarrow> sub_msg list \<Rightarrow> bool" where
  "under_ceiling c ms \<longleftrightarrow> reply_count ms < max_turns c \<and> reply_tokens ms < max_tokens c"

definition replies_are_ai :: "sub_env \<Rightarrow> bool" where
  "replies_are_ai e \<longleftrightarrow> (\<forall>t n ms m um. sg_model e t n ms = Inr (m, um) \<longrightarrow> role m = Ai)"

text \<open>\<open>answered\<close>: each tool-calling reply is followed by one tool message per call, in order.\<close>

definition answers :: "message list \<Rightarrow> tool_call list \<Rightarrow> bool" where
  "answers ms cs \<longleftrightarrow> map (\<lambda>m. (role m, Some (tool_call_id m))) ms = map (\<lambda>c. (ToolRole, tc_id c)) cs"

function answered :: "message list \<Rightarrow> bool" where
  "answered [] = True"
| "answered (m # ms) =
     (let k = (if is_caller m then length (tool_calls m) else 0)
      in answers (take k ms) (if is_caller m then tool_calls m else []) \<and> answered (drop k ms))"
  by pat_completeness auto
termination by (relation "measure length") auto

lemma answers_Nil [simp]: "answers [] []"
  by (simp add: answers_def)

lemma answers_length: "answers ms cs \<Longrightarrow> length ms = length cs"
  unfolding answers_def by (metis length_map)

lemma transcript_append: "answered xs \<Longrightarrow> answered ys \<Longrightarrow> answered (xs @ ys)"
proof (induction xs rule: answered.induct)
  case (2 m ms)
  let ?cs = "if is_caller m then tool_calls m else []" let ?k = "if is_caller m then length (tool_calls m) else 0"
  from "2.prems" have a: "answers (take ?k ms) ?cs" "answered (drop ?k ms)" by (simp_all add: Let_def split: if_splits)
  then have "?k \<le> length ms" using answers_length [OF a(1)] by (auto split: if_splits)
  with a "2.IH" [OF refl a(2)] "2.prems" show ?case by (simp add: Let_def)
qed simp

lemma answered_reply: "answers out (tool_calls m) \<Longrightarrow> is_caller m \<Longrightarrow> answered (m # out @ [])"
  by (simp add: Let_def answers_length)

lemma tool_outputs_answer:
  "tool_outputs e turn i cs = Inr out \<Longrightarrow> answers (map sm_message out) cs \<and> reply_count out = 0 \<and> reply_tokens out = 0"
proof (induction e turn i cs arbitrary: out rule: tool_outputs.induct)
  case (2 e turn i c cs)
  then show ?case
    by (fastforce simp: answers_def reply_count_def reply_tokens_def tool_message_def plain_message_def
        message_tokens_def split: option.splits sum.splits)
qed (simp add: answers_def reply_count_def reply_tokens_def)


definition requests_under_ceiling :: "subagent_ceiling \<Rightarrow> sub_msg list \<Rightarrow> bool" where
  "requests_under_ceiling c ms \<longleftrightarrow>
     (\<forall>pre m post. ms = pre @ m # post \<longrightarrow> role (sm_message m) = Ai \<longrightarrow> under_ceiling c pre)"

definition sub_inv :: "sub_env \<Rightarrow> sub_node \<Rightarrow> sub_state \<Rightarrow> bool" where
  "sub_inv e n s \<longleftrightarrow>
     sub_messages s \<noteq> []
     \<and> turn_count s = reply_count (sub_messages s) \<and> tokens_used s = reply_tokens (sub_messages s)
     \<and> requests_under_ceiling (sg_ceiling e) (sub_messages s)
     \<and> (stopped_reason s = None \<or> n = FinalizeNode \<and> stopped_reason s = Some RCeiling)
     \<and> (n = FinalizeNode \<longrightarrow> stopped_reason s = None \<longrightarrow>
          role (sm_message (last (sub_messages s))) = Ai \<and> tool_calls (sm_message (last (sub_messages s))) = [])
     \<and> (n = ToolsNode \<longrightarrow> is_caller (sm_message (last (sub_messages s)))
          \<and> answered (map sm_message (butlast (sub_messages s))))
     \<and> (n \<noteq> ToolsNode \<longrightarrow> answered (map sm_message (sub_messages s)))"

lemma requests_append:
  "requests_under_ceiling c ms \<Longrightarrow> (\<And>m. m \<in> set out \<Longrightarrow> role (sm_message m) \<noteq> Ai)
   \<Longrightarrow> requests_under_ceiling c (ms @ out)"
  by (auto simp: requests_under_ceiling_def append_eq_append_conv2 Cons_eq_append_conv append_eq_Cons_conv)

lemma requests_snoc:
  "requests_under_ceiling c ms \<Longrightarrow> under_ceiling c ms \<Longrightarrow> requests_under_ceiling c (ms @ [m])"
  by (auto simp: requests_under_ceiling_def append_eq_append_conv2 Cons_eq_append_conv append_eq_Cons_conv)

lemma reply_count_append [simp]: "reply_count (xs @ ys) = reply_count xs + reply_count ys"
  by (simp add: reply_count_def)

lemma reply_tokens_append [simp]: "reply_tokens (xs @ ys) = reply_tokens xs + reply_tokens ys"
  by (simp add: reply_tokens_def)

lemma no_replies: "reply_count out = 0 \<Longrightarrow> m \<in> set out \<Longrightarrow> role (sm_message m) \<noteq> Ai"
  by (auto simp: reply_count_def filter_empty_conv)

lemma seed_inv: "sub_inv e AgentNode (sub_seed prompt)"
  by (auto simp: sub_inv_def sub_seed_def reply_count_def reply_tokens_def message_tokens_def plain_message_def
      requests_under_ceiling_def Cons_eq_append_conv is_caller_def)

lemma agent_inv:
  assumes "sub_inv e AgentNode s" "sub_agent_node e s = Inr s'" "replies_are_ai e"
  shows "sub_inv e (sub_route s') s'"
  using assms(2)
proof (cases rule: agent_node_cases)
  case stop
  then show ?thesis using assms(1) by (simp add: sub_inv_def sub_route_def)
next
  case (reply m um n)
  have m: "role m = Ai" using assms(3) reply(1) unfolding replies_are_ai_def by blast
  have "answered (map sm_message (sub_messages s) @ [m])" if "tool_calls m = []"
    using assms(1) that by (intro transcript_append) (auto simp: sub_inv_def is_caller_def)
  moreover have "requests_under_ceiling (sg_ceiling e) (sub_messages s @ [\<lparr>sm_message = m, sm_usage = um\<rparr>])"
    using assms(1) reply(2,3) by (intro requests_snoc) (auto simp: sub_inv_def under_ceiling_def)
  ultimately show ?thesis using assms(1) m reply(4)
    by (auto simp: sub_inv_def sub_route_def is_caller_def reply_count_def reply_tokens_def max_def)
qed

lemma tools_inv:
  assumes "sub_inv e ToolsNode s" "sub_tool_node e s = Inr s'"
  shows "sub_inv e AgentNode s'"
  using assms(2)
proof (cases rule: tool_node_cases)
  case (1 out)
  let ?m = "sm_message (last (sub_messages s))"
  from tool_outputs_answer [OF 1(1)]
  have out: "answers (map sm_message out) (tool_calls ?m)" "reply_count out = 0" "reply_tokens out = 0" by auto
  have split: "map sm_message (sub_messages s) = map sm_message (butlast (sub_messages s)) @ [?m]"
    using assms(1) append_butlast_last_id [of "sub_messages s"]
    by (metis list.simps(8,9) map_append sub_inv_def)
  have "answered (map sm_message (butlast (sub_messages s)) @ (?m # map sm_message out @ []))"
    using assms(1) out(1) by (intro transcript_append answered_reply) (auto simp: sub_inv_def)
  then have "answered (map sm_message (sub_messages s @ out))" by (simp only: map_append split) simp
  then show ?thesis using assms(1) out 1(2) no_replies [OF out(2)]
    by (auto simp: sub_inv_def intro: requests_append)
qed

lemma outcome_inv:
  assumes "replies_are_ai e"
  shows "\<exists>n. sub_inv e n (end_state (sub_outcome e prompt))
    \<and> (\<forall>t. sub_outcome e prompt = Finished t \<longrightarrow> n = FinalizeNode)"
  unfolding sub_outcome_def
  by (rule sub_run_invariant) (auto intro: seed_inv agent_inv tools_inv assms)

text \<open>
  Every reply in a sub-agent's transcript was asked for while both the number of
  replies and their tokens were under the ceiling, at whatever point the run ended.
\<close>

theorem subagent_stays_under_ceiling:
  assumes "replies_are_ai e"
  shows "requests_under_ceiling (sg_ceiling e) (sub_messages (end_state (sub_outcome e prompt)))"
  using outcome_inv [OF assms] by (auto simp: sub_inv_def)

text \<open>
  A sub-agent reported as successful finished its loop, every tool call of its
  transcript is answered in order, its last message is a reply without tool calls, and the
  summary is the text of that reply.
\<close>

theorem subagent_success_is_last_reply:
  assumes "replies_are_ai e" "sa_ok (run_subagent e depth prompt)"
  shows "\<exists>s m. sub_outcome e prompt = Finished s \<and> answered (map sm_message (sub_messages s))
    \<and> m = sm_message (last (sub_messages s)) \<and> role m = Ai \<and> tool_calls m = []
    \<and> sa_summary (run_subagent e depth prompt) = flatten_text (content m)"
proof -
  from assms(2) obtain s where s: "sub_outcome e prompt = Finished s" "\<not> MAX_SUBAGENT_DEPTH < depth"
    by (cases "sub_outcome e prompt") (auto simp: run_subagent_def sa_failure_def split: if_splits)
  from outcome_inv [OF assms(1), of prompt] s(1) have inv: "sub_inv e FinalizeNode s" by auto
  have "\<not> sa_ok (run_subagent e depth prompt)" if "stopped_reason s = Some RCeiling"
    using s that by (simp add: run_subagent_def sub_finalize_def sa_failure_def)
  moreover have "stopped_reason s = None \<or> stopped_reason s = Some RCeiling"
    using inv unfolding sub_inv_def by (elim conjE) blast
  ultimately have clean: "stopped_reason s = None" using assms(2) by metis
  let ?m = "sm_message (last (sub_messages s))"
  have m: "role ?m = Ai" "tool_calls ?m = []" "sub_messages s \<noteq> []"
    using inv clean by (simp_all add: sub_inv_def)
  have "rev (map sm_message (xs @ [x])) = sm_message x # rev (map sm_message xs)" for xs x by simp
  from this [of "butlast (sub_messages s)" "last (sub_messages s)"]
  have "rev (map sm_message (sub_messages s)) = ?m # rev (map sm_message (butlast (sub_messages s)))"
    using m(3) by simp
  then have "sub_finalize s = (flatten_text (content ?m), None, sub_usage s)"
    using m clean by (simp add: sub_finalize_def)
  with s have "sa_summary (run_subagent e depth prompt) = flatten_text (content ?m)"
    unfolding run_subagent_def by (simp add: sa_success_def)
  moreover have "answered (map sm_message (sub_messages s))" using inv by (simp add: sub_inv_def)
  ultimately show ?thesis using s m by blast
qed


section \<open>Concrete runs\<close>

definition quick_env :: sub_env where
  "quick_env = slow_env\<lparr>sg_deadline := None\<rparr>"

lemma quick_outcome: "sub_outcome quick_env p = Finished (slow_state p)"
proof -
  have "sub_agent_node quick_env (sub_seed p) = sub_agent_node slow_env (sub_seed p)"
    by (simp add: sub_agent_node_def quick_env_def)
  moreover have "sub_route (slow_state p) = FinalizeNode"
    by (simp add: sub_route_def slow_state_def sub_seed_def paid_reply_def is_caller_def plain_message_def)
  ultimately have "sub_run quick_env (Suc (Suc k)) None AgentNode (sub_seed p) = Finished (slow_state p)" for k
    by (simp add: slow_step pass_time_def)
  moreover have "recursion_limit (sg_ceiling quick_env) = Suc (Suc 23)" "sg_deadline quick_env = None"
    by (simp_all add: recursion_limit_def quick_env_def slow_env_def)
  ultimately show ?thesis by (simp only: sub_outcome_def)
qed

lemma quick_replies: "replies_are_ai quick_env"
  by (simp add: replies_are_ai_def quick_env_def slow_env_def paid_reply_def plain_message_def)

lemma quick_result: "run_subagent quick_env 1 p = sa_success [104, 105] (usage_from_message (snd paid_reply))"
  by (simp add: run_subagent_def quick_outcome MAX_SUBAGENT_DEPTH_def sub_finalize_def slow_state_def sub_seed_def
      paid_reply_def plain_message_def)

text \<open>The deadline of \<open>slow_env\<close> falls after the same reply; its 900 input tokens are not reported.\<close>

lemma timeout_forgets_spend:
  "transcript_usage (slow_state []) ''input_tokens'' = Some 900
   \<and> run_subagent slow_env 1 [] = sa_failure RTimeout (lit ''sub-agent exceeded its 14400s research timeout'') Map.empty"
proof -
  have "dec DEFAULT_TIMEOUT_SECONDS = lit ''14400''"
    by (simp add: DEFAULT_TIMEOUT_SECONDS_def dec_def dec_nat.simps lit_def of_char_def)
  then have "lit ''sub-agent exceeded its '' @ dec DEFAULT_TIMEOUT_SECONDS @ lit ''s research timeout''
      = lit (''sub-agent exceeded its '' @ ''14400'' @ ''s research timeout'')"
    by (simp only: lit_def map_append)
  then have "lit ''sub-agent exceeded its '' @ dec DEFAULT_TIMEOUT_SECONDS @ lit ''s research timeout''
      = lit ''sub-agent exceeded its 14400s research timeout''"
    by simp
  moreover have "transcript_usage (slow_state []) ''input_tokens'' = Some 900"
    by (simp add: transcript_usage_def slow_state_def sub_seed_def paid_reply_def usage_from_messages_def
        usage_from_message_def put_nonzero_def or_zero_def merge_usage_def)
  ultimately show ?thesis by (simp add: run_subagent_def slow_outcome MAX_SUBAGENT_DEPTH_def)
qed

lemma subagent_stays_under_ceiling_witness:
  "requests_under_ceiling (sg_ceiling quick_env) (sub_messages (slow_state [])) \<and> length (sub_messages (slow_state [])) = 2"
  using subagent_stays_under_ceiling [OF quick_replies, of "[]"]
  by (simp add: quick_outcome) (simp add: slow_state_def sub_seed_def)

lemma subagent_success_is_last_reply_witness:
  "sa_ok (run_subagent quick_env 1 [])
   \<and> (\<exists>s m. sub_outcome quick_env [] = Finished s \<and> m = sm_message (last (sub_messages s))
        \<and> sa_summary (run_subagent quick_env 1 []) = flatten_text (content m))"
  using subagent_success_is_last_reply [OF quick_replies, of 1 "[]"]
  by (simp add: quick_result sa_success_def) metis

end
