(* ===== verification/Citations.thy ===== *)
theory Citations
  imports Failures Usage
begin

text \<open>
  \<open>executor/supervisor/citations.py\<close>: the deterministic binding of the writer's \<open>[finding_id]\<close>
  references to findings, the verification pass, and the rendering with numbered sources.

  The pattern of a reference is a bracketed run of word characters, dots, hyphens and colons;
  \<open>scan\<close> is the left-to-right search for it.  \<open>uword\<close> is the table of word characters beyond
  ASCII, \<open>loads\<close> is \<open>json.loads\<close> (\<open>None\<close>: it raises), \<open>ask\<close> is the verification model on the
  prompt made of a sentence and a quote.
\<close>

record finding =
  f_id :: pystr
  f_claim :: pystr
  f_url :: pystr
  f_quote :: pystr

datatype citation = Resolved pystr pystr pystr pystr | Unresolved pystr

record verify_flag =
  fl_id :: pystr
  fl_supported :: "bool option"
  fl_error :: bool
  fl_verify_error :: bool

section \<open>Resolving\<close>

text \<open>The index is a dict comprehension, so of two findings of one id the later is found.\<close>

definition finding_index :: "finding list \<Rightarrow> (pystr \<times> finding) list" where
  "finding_index fs = map (\<lambda>f. (f_id f, f)) (rev (filter (\<lambda>f. f_id f \<noteq> []) fs))"

definition resolve :: "pystr \<Rightarrow> finding list \<Rightarrow> citation" where
  "resolve fid fs =
     (case map_of (finding_index fs) fid of
        None \<Rightarrow> Unresolved fid
      | Some f \<Rightarrow> Resolved fid (f_url f) (f_quote f) (f_claim f))"

section \<open>References in the report\<close>

definition is_id_char :: "(nat \<Rightarrow> bool) \<Rightarrow> nat \<Rightarrow> bool" where
  "is_id_char uword c \<longleftrightarrow> is_word uword c \<or> c = 46 \<or> c = 45 \<or> c = 58"

datatype segment = Prose nat | Cite pystr

function scan :: "(nat \<Rightarrow> bool) \<Rightarrow> pystr \<Rightarrow> segment list" where
  "scan uword [] = []"
| "scan uword (c # s) =
     (let w = takeWhile (is_id_char uword) s; r = dropWhile (is_id_char uword) s
      in if c = 91 \<and> w \<noteq> [] \<and> take 1 r = [93]
         then Cite w # scan uword (drop (length w + 1) s) else Prose c # scan uword s)"
  by pat_completeness auto
termination by (relation "measure (\<lambda>(u, s). length s)") auto

definition uniq :: "'a list \<Rightarrow> 'a list" where
  "uniq xs = foldl (\<lambda>seen x. if x \<in> set seen then seen else seen @ [x]) [] xs"

definition cites :: "segment list \<Rightarrow> pystr list" where
  "cites segs = List.map_filter (\<lambda>g. case g of Prose c \<Rightarrow> None | Cite w \<Rightarrow> Some w) segs"

definition extract_citations :: "(nat \<Rightarrow> bool) \<Rightarrow> pystr \<Rightarrow> pystr list" where
  "extract_citations uword report = uniq (cites (scan uword report))"

text \<open>
  \<open>re.split\<close> at runs of white space after a full stop, exclamation or question mark; \<open>prev\<close> says
  that the character before is one of these, \<open>cur\<close> is the piece so far, reversed.
\<close>

definition ends_sentence :: "nat \<Rightarrow> bool" where
  "ends_sentence c \<longleftrightarrow> c = 46 \<or> c = 33 \<or> c = 63"

function split_sentences :: "bool \<Rightarrow> pystr \<Rightarrow> pystr \<Rightarrow> pystr list" where
  "split_sentences prev cur [] = [rev cur]"
| "split_sentences prev cur (c # s) =
     (if prev \<and> is_space c then rev cur # split_sentences False [] (dropWhile is_space s)
      else split_sentences (ends_sentence c) (c # cur) s)"
  by pat_completeness auto
termination by (relation "measure (\<lambda>(p, cur, s). length s)") (auto simp: le_imp_less_Suc length_dropWhile_le)

definition sentence_for_citation :: "pystr \<Rightarrow> pystr \<Rightarrow> pystr" where
  "sentence_for_citation report fid =
     (case find (contains_text ([91] @ fid @ [93])) (split_sentences False [] report) of
        Some sentence \<Rightarrow> strip sentence
      | None \<Rightarrow> strip report)"

section \<open>Verification\<close>

definition find_char :: "nat \<Rightarrow> pystr \<Rightarrow> nat option" where
  "find_char c s = (if c \<in> set s then Some (length (takeWhile (\<lambda>x. x \<noteq> c) s)) else None)"

definition rfind_char :: "nat \<Rightarrow> pystr \<Rightarrow> nat option" where
  "rfind_char c s = (if c \<in> set s then Some (length s - 1 - length (takeWhile (\<lambda>x. x \<noteq> c) (rev s))) else None)"

text \<open>\<open>text[start : end + 1]\<close> from the first opening to the last closing brace, if in that order.\<close>

definition braced :: "pystr \<Rightarrow> pystr option" where
  "braced s =
     (case (find_char 123 s, rfind_char 125 s) of
        (Some a, Some b) \<Rightarrow> if a < b then Some (take (b + 1 - a) (drop a s)) else None
      | _ \<Rightarrow> None)"

definition parse_supported :: "(pystr \<Rightarrow> json option) \<Rightarrow> content \<Rightarrow> bool" where
  "parse_supported loads c =
     (let text = strip (flatten_text c);
          judge = (\<lambda>j. case j of
             JObj kvs \<Rightarrow> (case map_of kvs ''supported'' of Some v \<Rightarrow> json_truthy v | None \<Rightarrow> True)
           | _ \<Rightarrow> True)
      in case loads text of
           Some j \<Rightarrow> judge j
         | None \<Rightarrow>
             (case braced text of
                None \<Rightarrow> True
              | Some t \<Rightarrow> (case loads t of Some j \<Rightarrow> judge j | None \<Rightarrow> True)))"

text \<open>
  One call per distinct known id, each catching its own exception; \<open>asyncio.gather\<close> keeps the
  order of the ids, and the usage of the calls is summed.
\<close>

definition verify_one ::
  "(pystr \<Rightarrow> json option) \<Rightarrow> (pystr \<Rightarrow> pystr \<Rightarrow> exn + content \<times> usage_metadata option)
   \<Rightarrow> pystr \<Rightarrow> finding list \<Rightarrow> pystr \<Rightarrow> verify_flag \<times> usage" where
  "verify_one loads ask report fs fid =
     (case map_of (finding_index fs) fid of
        None \<Rightarrow> (\<lparr>fl_id = fid, fl_supported = None, fl_error = True, fl_verify_error = False\<rparr>, Map.empty)
      | Some f \<Rightarrow>
          (case accumulating_ainvoke (\<lambda>(s, q). ask s q) Map.empty (sentence_for_citation report fid, f_quote f) of
             (Inl ex, u) \<Rightarrow>
               (\<lparr>fl_id = fid, fl_supported = Some True, fl_error = False, fl_verify_error = True\<rparr>, u)
           | (Inr (c, um), u) \<Rightarrow>
               (\<lparr>fl_id = fid, fl_supported = Some (parse_supported loads c), fl_error = False,
                 fl_verify_error = False\<rparr>, u)))"

definition verify ::
  "(nat \<Rightarrow> bool) \<Rightarrow> (pystr \<Rightarrow> json option) \<Rightarrow> (pystr \<Rightarrow> pystr \<Rightarrow> exn + content \<times> usage_metadata option)
   \<Rightarrow> pystr \<Rightarrow> finding list \<Rightarrow> verify_flag list \<times> usage" where
  "verify uword loads ask report fs =
     (let rs = map (verify_one loads ask report fs) (extract_citations uword report)
      in (map fst rs, foldl merge_usage Map.empty (map snd rs)))"

section \<open>Rendering\<close>

definition BROKEN_MARKER :: pystr where "BROKEN_MARKER = lit ''?''"

definition UNSUPPORTED_MARKER :: pystr where "UNSUPPORTED_MARKER = [9888]"

definition SOURCES_HEADING :: pystr where "SOURCES_HEADING = lit ''## Sources''"

fun citation_id :: "citation \<Rightarrow> pystr" where
  "citation_id (Resolved i u q c) = i"
| "citation_id (Unresolved i) = i"

fun is_unresolvable :: "citation option \<Rightarrow> bool" where
  "is_unresolvable None = True"
| "is_unresolvable (Some (Unresolved i)) = True"
| "is_unresolvable (Some (Resolved i u q c)) = (u = [])"

definition by_id :: "('a \<Rightarrow> pystr) \<Rightarrow> 'a list \<Rightarrow> pystr \<Rightarrow> 'a option" where
  "by_id key xs = map_of (rev (map (\<lambda>x. (key x, x)) xs))"

definition number_by_id :: "citation list \<Rightarrow> pystr list \<Rightarrow> (pystr \<times> nat) list" where
  "number_by_id cs cited =
     (let good = filter (\<lambda>fid. \<not> is_unresolvable (by_id citation_id cs fid)) cited
      in zip good [1..<length good + 1])"

definition marker :: "(pystr \<times> nat) list \<Rightarrow> pystr \<Rightarrow> pystr" where
  "marker numbers fid =
     [91] @ (case map_of numbers fid of Some n \<Rightarrow> dec_nat n | None \<Rightarrow> BROKEN_MARKER) @ [93]"

definition rendered_body :: "(nat \<Rightarrow> bool) \<Rightarrow> (pystr \<times> nat) list \<Rightarrow> pystr \<Rightarrow> pystr" where
  "rendered_body uword numbers report =
     concat (map (\<lambda>g. case g of Prose c \<Rightarrow> [c] | Cite w \<Rightarrow> marker numbers w) (scan uword report))"

definition is_flagged :: "verify_flag option \<Rightarrow> bool" where
  "is_flagged fl = (case fl of None \<Rightarrow> False | Some f \<Rightarrow> fl_supported f = Some False \<or> fl_error f)"

definition source_line :: "citation list \<Rightarrow> verify_flag list \<Rightarrow> pystr \<times> nat \<Rightarrow> pystr" where
  "source_line cs flags p =
     (let (url, claim) = (case by_id citation_id cs (fst p) of
            Some (Resolved i u q c) \<Rightarrow> (u, strip c) | _ \<Rightarrow> ([], []));
          line = [91] @ dec_nat (snd p) @ lit ''] '' @ (if claim \<noteq> [] then claim @ [32, 8212, 32] else []) @ url
      in if is_flagged (by_id fl_id flags (fst p)) then line @ [32] @ UNSUPPORTED_MARKER else line)"

definition source_lines :: "citation list \<Rightarrow> verify_flag list \<Rightarrow> pystr list \<Rightarrow> pystr list" where
  "source_lines cs flags cited =
     map (source_line cs flags) (number_by_id cs cited)
     @ (if \<exists>fid \<in> set cited. is_unresolvable (by_id citation_id cs fid)
        then [[91] @ BROKEN_MARKER @ lit ''] (source unavailable)''] else [])"

definition render_report ::
  "(nat \<Rightarrow> bool) \<Rightarrow> pystr \<Rightarrow> citation list \<Rightarrow> verify_flag list \<Rightarrow> pystr" where
  "render_report uword report cs flags =
     (let cited = extract_citations uword report;
          body = rendered_body uword (number_by_id cs cited) report;
          lines = source_lines cs flags cited
      in if lines = [] then body
         else rstrip body @ [NL, NL] @ SOURCES_HEADING @ [NL] @ join [NL] lines)"


section \<open>Decimal numerals\<close>

definition undec :: "pystr \<Rightarrow> nat" where
  "undec s = foldl (\<lambda>a d. a * 10 + (d - 48)) 0 s"

lemma undec_dec [simp]: "undec (dec_nat n) = n"
proof (induction n rule: dec_nat.induct)
  case (1 n)
  then show ?case by (subst dec_nat.simps) (auto simp: undec_def)
qed

lemma dec_nat_inject [simp]: "dec_nat m = dec_nat n \<longleftrightarrow> m = n"
  by (metis undec_dec)

section \<open>First occurrences\<close>

lemma uniq_simps [simp]:
  "uniq [] = []" "uniq (xs @ [x]) = (if x \<in> set (uniq xs) then uniq xs else uniq xs @ [x])"
  by (simp_all add: uniq_def)

lemma set_uniq [simp]: "set (uniq xs) = set xs"
  by (induction xs rule: rev_induct) auto

lemma distinct_uniq [simp]: "distinct (uniq xs)"
  by (induction xs rule: rev_induct) auto

lemma uniq_filter: "uniq (filter P xs) = filter P (uniq xs)"
  by (induction xs rule: rev_induct) auto

lemma uniq_map_inj: "inj_on f (set xs) \<Longrightarrow> uniq (map f xs) = map f (uniq xs)"
  by (induction xs rule: rev_induct) (auto simp: inj_on_def)

section \<open>Scanning\<close>

lemma id_char_brackets [simp]: "\<not> is_id_char uword 91" "\<not> is_id_char uword 93" "\<not> is_id_char uword 63"
  by (simp_all add: is_id_char_def is_word_def)

lemma id_char_digits: "d \<in> {48..57} \<Longrightarrow> is_id_char uword d"
  by (auto simp: is_id_char_def is_word_def)

lemma scan_prose: "c \<noteq> 91 \<Longrightarrow> scan uword (c # s) = Prose c # scan uword s"
  by (simp add: Let_def)

declare scan.simps(2) [simp del]

lemma scan_prose_run: "91 \<notin> set w \<Longrightarrow> scan uword (w @ r) = map Prose w @ scan uword r"
  by (induction w) (auto simp: scan_prose)

lemma scan_reference:
  assumes "w \<noteq> []" "list_all (is_id_char uword) w"
  shows "scan uword (91 # w @ 93 # r) = Cite w # scan uword r"
proof -
  have "\<forall>c \<in> set w. is_id_char uword c" using assms(2) by (simp add: list_all_iff)
  then have "takeWhile (is_id_char uword) (w @ 93 # r) = w" "dropWhile (is_id_char uword) (w @ 93 # r) = 93 # r"
    by (simp_all add: takeWhile_append2 dropWhile_append2)
  then show ?thesis using assms(1) by (simp add: scan.simps(2) Let_def)
qed

lemma cites_simps [simp]:
  "cites [] = []" "cites (Prose c # g) = cites g" "cites (Cite w # g) = w # cites g"
  by (simp_all add: cites_def List.map_filter_simps)

definition render_segments :: "(pystr \<times> nat) list \<Rightarrow> segment list \<Rightarrow> pystr" where
  "render_segments numbers segs =
     concat (map (\<lambda>g. case g of Prose c \<Rightarrow> [c] | Cite w \<Rightarrow> marker numbers w) segs)"

lemma render_segments_simps [simp]:
  "render_segments numbers [] = []"
  "render_segments numbers (Prose c # g) = c # render_segments numbers g"
  "render_segments numbers (Cite w # g) = marker numbers w @ render_segments numbers g"
  "render_segments numbers (map Prose w @ g) = w @ render_segments numbers g"
  by (simp_all add: render_segments_def comp_def)

text \<open>Rendering keeps the first character, so no bracket of the prose starts to match.\<close>

lemma render_head: "\<exists>t. render_segments numbers (scan uword (d # r)) = d # t"
  by (auto simp: scan.simps(2) Let_def marker_def)

lemma render_rescan:
  "cites (scan uword (render_segments numbers (scan uword s))) =
     concat (map (\<lambda>w. case map_of numbers w of Some n \<Rightarrow> [dec_nat n] | None \<Rightarrow> []) (cites (scan uword s)))"
proof (induction uword s rule: scan.induct)
  case (2 uword c s)
  define w r where "w = takeWhile (is_id_char uword) s" and "r = dropWhile (is_id_char uword) s"
  have s: "s = w @ r" by (simp add: w_def r_def)
  have w: "\<forall>x \<in> set w. is_id_char uword x" unfolding w_def by (metis set_takeWhileD)
  then have no91: "91 \<notin> set w" using id_char_brackets(1) by metis
  show ?case
  proof (cases "c = 91 \<and> w \<noteq> [] \<and> take 1 r = [93]")
    case True
    then obtain r' where r': "r = 93 # r'" by (cases r) auto
    have "drop (length w + 1) s = r'" by (simp add: s r')
    with "2.IH"(1) [OF w_def r_def True]
    have IH: "cites (scan uword (render_segments numbers (scan uword r'))) = concat (map
        (\<lambda>w. case map_of numbers w of Some n \<Rightarrow> [dec_nat n] | None \<Rightarrow> []) (cites (scan uword r')))" by simp
    have step: "scan uword (c # s) = Cite w # scan uword r'"
      using True w unfolding s r' by (simp add: scan_reference list_all_iff)
    show ?thesis
    proof (cases "map_of numbers w")
      case None
      have "scan uword (91 # 63 # 93 # t) = Prose 91 # Prose 63 # Prose 93 # scan uword t" for t
        by (simp add: scan.simps(2) Let_def)
      with None IH show ?thesis by (simp add: step marker_def BROKEN_MARKER_def lit_def of_char_def)
    next
      case (Some n)
      have "dec_nat n \<noteq> []" "list_all (is_id_char uword) (dec_nat n)"
        using dec_nat_digits [of n] by (auto simp: list_all_iff intro: id_char_digits)
      with Some IH show ?thesis by (simp add: step marker_def scan_reference)
    qed
  next
    case False
    then have step: "scan uword (c # s) = Prose c # scan uword s"
      by (simp add: scan.simps(2) Let_def w_def [symmetric] r_def [symmetric])
    let ?t = "render_segments numbers (scan uword s)"
    have t: "?t = w @ render_segments numbers (scan uword r)" unfolding s by (simp add: scan_prose_run no91)
    have r: "r = [] \<or> (\<exists>d t. r = d # t \<and> \<not> is_id_char uword d)"
      unfolding r_def by (metis dropWhile_eq_Cons_conv neq_Nil_conv)
    then have "takeWhile (is_id_char uword) ?t = w
        \<and> take 1 (dropWhile (is_id_char uword) ?t) = take 1 r"
    proof (elim disjE exE conjE)
      assume "r = []"
      then show ?thesis using w unfolding t by simp
    next
      fix d u assume r': "r = d # u" "\<not> is_id_char uword d"
      then obtain v where "render_segments numbers (scan uword r) = d # v" using render_head by metis
      with r' w show ?thesis unfolding t by (simp add: takeWhile_append2 dropWhile_append2)
    qed
    with False have "scan uword (c # ?t) = Prose c # scan uword ?t" by (auto simp: scan.simps(2) Let_def)
    with "2.IH"(2) [OF w_def r_def False] show ?thesis by (simp add: step)
  qed
qed simp


section \<open>The published references are the source numbers\<close>

lemma map_of_zip_distinct:
  "distinct xs \<Longrightarrow> i < length xs \<Longrightarrow> length ys = length xs \<Longrightarrow> map_of (zip xs ys) (xs ! i) = Some (ys ! i)"
  by (simp add: map_of_zip_nth)

lemma map_numbers:
  "distinct good \<Longrightarrow> map (\<lambda>w. case map_of (zip good [1..<length good + 1]) w of Some n \<Rightarrow> dec_nat n | None \<Rightarrow> []) good
     = map dec_nat [1..<length good + 1]"
  by (rule nth_equalityI) (simp_all add: map_of_zip_distinct del: upt_Suc)

lemma concat_map_some:
  "concat (map (\<lambda>w. case m w of Some n \<Rightarrow> [f n] | None \<Rightarrow> []) xs)
     = map (\<lambda>w. case m w of Some n \<Rightarrow> f n | None \<Rightarrow> z) (filter (\<lambda>w. m w \<noteq> None) xs)"
  by (induction xs) auto

text \<open>
  C25. In the published body the references are exactly the source numbers 1, 2, ..., k in
  this order of first appearance, k being the number of resolvable cited findings: no
  finding id is left, and no bracket of the prose becomes a reference.
\<close>

theorem published_references_are_numbered:
  "extract_citations uword (rendered_body uword (number_by_id cs (extract_citations uword report)) report)
     = map dec_nat [1..<length (number_by_id cs (extract_citations uword report)) + 1]"
proof -
  define xs where "xs = cites (scan uword report)"
  define P where "P = (\<lambda>fid. \<not> is_unresolvable (by_id citation_id cs fid))"
  define good where "good = filter P (uniq xs)"
  let ?N = "zip good [1..<length good + 1]" let ?g = "\<lambda>w. case map_of ?N w of Some n \<Rightarrow> dec_nat n | None \<Rightarrow> []"
  have dist: "distinct good" by (simp add: good_def)
  have numbers: "number_by_id cs (extract_citations uword report) = ?N"
    by (simp add: number_by_id_def extract_citations_def good_def P_def xs_def Let_def)
  have "dom (map_of ?N) = set good" by (rule dom_map_of_zip) (simp only: length_upt diff_add_inverse2)
  then have dom: "map_of ?N w \<noteq> None \<longleftrightarrow> w \<in> set good" for w by (metis domIff)
  have "distinct (map ?g good)"
    unfolding map_numbers [OF dist] by (simp add: distinct_map inj_on_def del: upt_Suc)
  then have inj: "inj_on ?g (set good)" by (simp add: distinct_map)
  have "extract_citations uword (rendered_body uword ?N report)
      = uniq (map ?g (filter (\<lambda>w. map_of ?N w \<noteq> None) xs))"
    unfolding extract_citations_def rendered_body_def xs_def
    using render_rescan [of uword ?N report] concat_map_some [where m = "map_of ?N" and f = dec_nat and xs = xs and z = "[]"]
    by (simp add: render_segments_def xs_def)
  also have "filter (\<lambda>w. map_of ?N w \<noteq> None) xs = filter P xs"
    unfolding dom by (rule filter_cong) (auto simp: good_def)
  also have "uniq (map ?g (filter P xs)) = map ?g good"
    using inj by (simp add: uniq_map_inj uniq_filter good_def inj_on_def)
  finally show ?thesis using map_numbers [OF dist] by (simp add: numbers del: upt_Suc)
qed

text \<open>
  A resolved citation carries the url, quote and claim of a finding of that id; an unresolved id is no finding.
\<close>

theorem resolve_never_fabricates:
  "case resolve fid fs of
     Resolved i u q c \<Rightarrow> i = fid \<and> (\<exists>f \<in> set fs. f_id f = fid \<and> f_url f = u \<and> f_quote f = q \<and> f_claim f = c)
   | Unresolved i \<Rightarrow> i = fid \<and> (fid = [] \<or> fid \<notin> f_id ` set fs)"
proof (cases "map_of (finding_index fs) fid")
  case None
  then have "fid = [] \<or> fid \<notin> f_id ` set fs"
    by (auto simp: finding_index_def map_of_eq_None_iff image_iff)
  with None show ?thesis by (simp add: resolve_def)
next
  case (Some f)
  then have "f \<in> set fs \<and> f_id f = fid" by (auto simp: finding_index_def dest!: map_of_SomeD)
  with Some show ?thesis by (auto simp: resolve_def)
qed

lemma verify_one_id [simp]: "fl_id (fst (verify_one loads ask report fs fid)) = fid"
  by (auto simp: verify_one_def split: option.split sum.split prod.split)

lemma verify_ids: "map fl_id (fst (verify uword loads ask report fs)) = extract_citations uword report"
  by (simp add: verify_def Let_def comp_def)

text \<open>A bracketed word of the prose that is no finding id is taken for a reference and lost.\<close>

lemma bracketed_word_is_lost:
  assumes "w \<noteq> []" "list_all (is_id_char uword) w" "map_of numbers w = None"
  shows "rendered_body uword numbers (91 # w @ 93 # r) = lit ''[?]'' @ rendered_body uword numbers r"
  using assms by (simp add: rendered_body_def scan_reference marker_def BROKEN_MARKER_def lit_def of_char_def)

end
