(* ===== verification/ActivityEvents.thy ===== *)
theory ActivityEvents
  imports Repositories Text
begin

text \<open>
  \<open>core/subagent_events.py\<close>: the activity events of the research topology and the sink that
  writes them as rows of \<open>task_events\<close>.  An event is its type and its details; the emit helpers
  return it, and the sink is where it goes.  The sink swallows a failing insert.
\<close>

type_synonym activity = "string \<times> (string \<times> json) list"

definition PROMPT_PREVIEW_MAX_CHARS :: nat where "PROMPT_PREVIEW_MAX_CHARS = 200"

definition FAILURE_DETAIL_MAX_CHARS :: nat where "FAILURE_DETAIL_MAX_CHARS = 300"

definition emit_supervisor_iteration :: "int \<Rightarrow> nat \<Rightarrow> pystr \<Rightarrow> pystr \<Rightarrow> activity" where
  "emit_supervisor_iteration iteration emitted decision reason =
     (''supervisor_iteration'',
      [(''iteration'', JNum iteration), (''subtasks_emitted'', JNum (int emitted)),
       (''decision'', JStr decision), (''reason'', JStr reason)])"

definition emit_subagent_started :: "int \<Rightarrow> pystr \<Rightarrow> pystr \<Rightarrow> pystr list \<Rightarrow> int \<Rightarrow> activity" where
  "emit_subagent_started iteration subtask prompt_preview tool_allowlist depth =
     (''subagent_started'',
      [(''iteration'', JNum iteration), (''subtask'', JStr subtask),
       (''prompt_preview'', JStr (take PROMPT_PREVIEW_MAX_CHARS prompt_preview)),
       (''tool_allowlist'', JList (map JStr tool_allowlist)), (''depth'', JNum depth)])"

definition emit_subagent_finding :: "int \<Rightarrow> pystr \<Rightarrow> pystr \<Rightarrow> pystr \<Rightarrow> activity" where
  "emit_subagent_finding iteration subtask finding_id source_url =
     (''subagent_finding'',
      [(''iteration'', JNum iteration), (''subtask'', JStr subtask), (''finding_id'', JStr finding_id),
       (''source_url'', JStr source_url)])"

definition emit_subagent_failed :: "int \<Rightarrow> pystr \<Rightarrow> pystr \<Rightarrow> pystr \<Rightarrow> activity" where
  "emit_subagent_failed iteration subtask reason detail =
     (''subagent_failed'',
      [(''iteration'', JNum iteration), (''subtask'', JStr subtask), (''reason'', JStr reason)]
      @ (if strip detail \<noteq> [] then [(''detail'', JStr (take FAILURE_DETAIL_MAX_CHARS (strip detail)))] else []))"

definition emit_subagent_completed :: "int \<Rightarrow> pystr \<Rightarrow> activity" where
  "emit_subagent_completed iteration subtask =
     (''subagent_completed'', [(''iteration'', JNum iteration), (''subtask'', JStr subtask)])"

definition SINK_ADMITTED_EVENT_TYPES :: "string list" where
  "SINK_ADMITTED_EVENT_TYPES =
     [''supervisor_iteration'', ''subagent_started'', ''subagent_finding'', ''subagent_failed'', ''subagent_completed'']"

text \<open>\<open>inserted\<close> says whether the insert on the sink's own connection succeeds.\<close>

definition task_event_sink :: "bool \<Rightarrow> time \<Rightarrow> string \<Rightarrow> string \<Rightarrow> string \<Rightarrow> activity \<Rightarrow> db \<Rightarrow> db" where
  "task_event_sink inserted now tid tn ag ev d =
     (if fst ev \<notin> set SINK_ADMITTED_EVENT_TYPES then d
      else if inserted then insert_task_event now tid tn ag (fst ev) None None None None None (JObj (snd ev)) d
      else d)"

lemma sink_only_adds_events:
  "tasks (task_event_sink ok now tid tn ag ev d) = tasks d"
  "ledger (task_event_sink ok now tid tn ag ev d) = ledger d"
  "\<exists>new. events (task_event_sink ok now tid tn ag ev d) = events d @ new \<and> length new \<le> 1"
  by (auto simp: task_event_sink_def) (simp add: insert_task_event_def)

lemma sink_drops_heartbeat: "task_event_sink ok now tid tn ag (''subagent.heartbeat'', ds) d = d"
  by (simp add: task_event_sink_def SINK_ADMITTED_EVENT_TYPES_def)

end
