(* ===== verification/Supervisor.thy ===== *)
theory Supervisor
  imports Subagent Citations ActivityEvents Digest
begin

text \<open>
  \<open>executor/supervisor\<close>: the state of a research run and its reducers (\<open>state.py\<close>), its nodes
  (\<open>nodes.py\<close>) and the wiring of the fan-out (\<open>graph.py\<close>).

  A node returns the channels it writes, or raises, or interrupts.  The language models, the
  prompts' texts, \<open>json.loads\<close>, \<open>str(..)\<close> of a JSON value that is no text, and the environment of
  each sub-agent are the record \<open>research_env\<close>.  A reply is its content and its usage metadata.
  Counts of the configuration are integers, as in the parsed JSON; \<open>None\<close> is an absent or null
  field.
\<close>

section \<open>State and reducers\<close>

datatype decision = Continue | Stop

record subtask =
  st_id :: pystr
  st_prompt :: pystr

record sub_result =
  res_ok :: bool
  res_summary :: pystr
  res_reason :: "reason option"
  res_subtask :: pystr

record research =
  r_messages :: "message list"
  r_brief :: pystr
  r_iteration :: int
  r_subtasks :: "subtask list"
  r_results :: "(pystr \<times> sub_result) list"
  r_findings :: "finding list"
  r_decision :: decision
  r_usage :: usage
  r_report :: pystr
  r_citations :: "citation list"
  r_flags :: "verify_flag list"

definition fresh_research :: "message list \<Rightarrow> research" where
  "fresh_research ms = \<lparr>r_messages = ms, r_brief = [], r_iteration = 0, r_subtasks = [], r_results = [],
     r_findings = [], r_decision = Stop, r_usage = Map.empty, r_report = [], r_citations = [], r_flags = []\<rparr>"

definition merge_subagent_results ::
  "(pystr \<times> sub_result) list \<Rightarrow> (pystr \<times> sub_result) list \<Rightarrow> (pystr \<times> sub_result) list" where
  "merge_subagent_results a b = foldl (\<lambda>m (k, v). AList.update k v m) a b"

text \<open>The dictionary a node returns; \<open>None\<close>, and the neutral value of an additive reducer: no such key.\<close>

record research_update =
  u_brief :: "pystr option"
  u_iteration :: "int option"
  u_subtasks :: "subtask list option"
  u_results :: "(pystr \<times> sub_result) list"
  u_findings :: "finding list"
  u_decision :: "decision option"
  u_usage :: usage
  u_output :: "(pystr \<times> citation list \<times> verify_flag list) option"

definition no_update :: research_update where
  "no_update = \<lparr>u_brief = None, u_iteration = None, u_subtasks = None, u_results = [], u_findings = [],
     u_decision = None, u_usage = Map.empty, u_output = None\<rparr>"

definition last_write :: "'a \<Rightarrow> 'a option \<Rightarrow> 'a" where
  "last_write old new = (case new of None \<Rightarrow> old | Some x \<Rightarrow> x)"

definition apply_update :: "research \<Rightarrow> research_update \<Rightarrow> research" where
  "apply_update s u = s\<lparr>
     r_brief := last_write (r_brief s) (u_brief u),
     r_iteration := (case u_iteration u of None \<Rightarrow> r_iteration s | Some i \<Rightarrow> max_int (r_iteration s) i),
     r_subtasks := last_write (r_subtasks s) (u_subtasks u),
     r_results := merge_subagent_results (r_results s) (u_results u),
     r_findings := r_findings s @ u_findings u,
     r_decision := last_write (r_decision s) (u_decision u),
     r_usage := merge_usage (r_usage s) (u_usage u),
     r_report := last_write (r_report s) (map_option fst (u_output u)),
     r_citations := last_write (r_citations s) (map_option (fst \<circ> snd) (u_output u)),
     r_flags := last_write (r_flags s) (map_option (snd \<circ> snd) (u_output u))\<rparr>"

section \<open>Configuration and environment\<close>

record supervisor_cfg =
  cfg_clarify :: "bool option"
  cfg_max_fanout :: "int option"
  cfg_max_iterations :: "int option"

definition or_default_int :: "int \<Rightarrow> int option \<Rightarrow> int" where
  "or_default_int dflt c = (case c of None \<Rightarrow> dflt | Some n \<Rightarrow> if n = 0 then dflt else n)"

definition max_fanout :: "supervisor_cfg \<Rightarrow> int" where
  "max_fanout c = or_default_int 5 (cfg_max_fanout c)"

definition max_iterations :: "supervisor_cfg \<Rightarrow> int" where
  "max_iterations c = or_default_int 3 (cfg_max_iterations c)"

definition clarification_enabled :: "supervisor_cfg \<Rightarrow> bool" where
  "clarification_enabled c = (case cfg_clarify c of None \<Rightarrow> True | Some b \<Rightarrow> b)"

type_synonym reply = "content \<times> usage_metadata option"

record research_env =
  rv_loads :: "pystr \<Rightarrow> json option"
  rv_show :: "json \<Rightarrow> pystr"
  rv_uword :: "nat \<Rightarrow> bool"
  rv_assess :: "pystr \<Rightarrow> exn + reply"
  rv_brief :: "pystr \<Rightarrow> pystr option \<Rightarrow> pystr option \<Rightarrow> exn + reply"
  rv_decide :: "pystr \<Rightarrow> int \<Rightarrow> (pystr \<times> sub_result) list \<Rightarrow> exn + reply"
  rv_deps :: bool
  rv_deps_error :: exn
  rv_sub :: "subtask \<Rightarrow> sub_env"
  rv_sub_prompt :: "pystr \<Rightarrow> pystr"
  rv_encode_error :: exn
  rv_write :: "pystr \<Rightarrow> finding list \<Rightarrow> exn + reply"
  rv_verify :: "pystr \<Rightarrow> pystr \<Rightarrow> exn + reply"

datatype node_result = Raise exn | Interrupt pystr | Update research_update "activity list"

text \<open>\<open>str(obj.get(k) or "")\<close>.\<close>

definition text_field :: "(json \<Rightarrow> pystr) \<Rightarrow> string \<Rightarrow> (string \<times> json) list \<Rightarrow> pystr" where
  "text_field show k kvs =
     (case map_of kvs k of
        None \<Rightarrow> []
      | Some j \<Rightarrow> if json_truthy j then (case j of JStr s \<Rightarrow> s | _ \<Rightarrow> show j) else [])"

definition loads_lenient :: "(pystr \<Rightarrow> json option) \<Rightarrow> pystr \<Rightarrow> json option" where
  "loads_lenient loads text =
     (case loads text of
        Some j \<Rightarrow> Some j
      | None \<Rightarrow> (case braced text of None \<Rightarrow> None | Some t \<Rightarrow> loads t))"

section \<open>Scope\<close>

definition extract_query :: "message list \<Rightarrow> pystr" where
  "extract_query ms =
     (case find (\<lambda>m. role m = Human) ms of
        Some m \<Rightarrow> flatten_text (content m)
      | None \<Rightarrow> (case ms of m # _ \<Rightarrow> flatten_text (content m) | [] \<Rightarrow> []))"

definition parse_assessment :: "(pystr \<Rightarrow> json option) \<Rightarrow> (json \<Rightarrow> pystr) \<Rightarrow> content \<Rightarrow> bool \<times> pystr" where
  "parse_assessment loads show c =
     (case loads_lenient loads (strip (flatten_text c)) of
        Some (JObj kvs) \<Rightarrow>
          let clear = (case map_of kvs ''clear'' of Some j \<Rightarrow> json_truthy j | None \<Rightarrow> True);
              question = strip (text_field show ''question'' kvs)
          in if \<not> clear \<and> question = [] then (True, []) else (clear, question)
      | _ \<Rightarrow> (True, []))"

text \<open>
  \<open>resume\<close> is the human's answer when the node runs again after its interrupt: LangGraph starts
  the node from its first line, and \<open>interrupt\<close> then returns the answer.
\<close>

definition scope_node :: "research_env \<Rightarrow> supervisor_cfg \<Rightarrow> content option \<Rightarrow> research \<Rightarrow> node_result" where
  "scope_node v cfg resume s =
     (let query = extract_query (r_messages s) in
      case rv_assess v query of
        Inl ex \<Rightarrow> Raise ex
      | Inr (a, a_usage) \<Rightarrow>
          let (clear, question) = parse_assessment (rv_loads v) (rv_show v) a;
              asks = clarification_enabled cfg \<and> \<not> clear
          in if asks \<and> resume = None then Interrupt question
             else case rv_brief v query (if asks then Some question else None)
                          (if asks then map_option flatten_text resume else None) of
                    Inl ex \<Rightarrow> Raise ex
                  | Inr (b, b_usage) \<Rightarrow>
                      Update (no_update\<lparr>u_brief := Some (strip (flatten_text b)), u_iteration := Some 0,
                                u_subtasks := Some [],
                                u_usage := merge_usage (usage_from_message a_usage) (usage_from_message b_usage)\<rparr>) [])"

section \<open>Supervisor\<close>

record raw_subtask =
  rs_prompt :: pystr
  rs_subtask :: pystr
  rs_redispatch :: bool

definition parse_raw_subtask :: "(json \<Rightarrow> pystr) \<Rightarrow> json \<Rightarrow> raw_subtask option" where
  "parse_raw_subtask show j =
     (case j of
        JObj kvs \<Rightarrow>
          if strip (text_field show ''prompt'' kvs) \<noteq> []
          then Some \<lparr>rs_prompt = text_field show ''prompt'' kvs, rs_subtask = strip (text_field show ''subtask'' kvs),
                     rs_redispatch = (case map_of kvs ''redispatch'' of Some r \<Rightarrow> json_truthy r | None \<Rightarrow> False)\<rparr>
          else None
      | _ \<Rightarrow> None)"

definition parse_supervisor_decision ::
  "(pystr \<Rightarrow> json option) \<Rightarrow> (json \<Rightarrow> pystr) \<Rightarrow> content \<Rightarrow> decision \<times> raw_subtask list \<times> pystr" where
  "parse_supervisor_decision loads show c =
     (case loads_lenient loads (strip (flatten_text c)) of
        Some (JObj kvs) \<Rightarrow>
          (if lower (strip (text_field show ''decision'' kvs)) = lit ''continue'' then Continue else Stop,
           case map_of kvs ''subtasks'' of
             Some (JList xs) \<Rightarrow> List.map_filter (parse_raw_subtask show) xs
           | _ \<Rightarrow> [],
           strip (text_field show ''reason'' kvs))
      | _ \<Rightarrow> (Stop, [], lit ''decision_unparseable''))"

definition split_success_failure :: "(pystr \<times> sub_result) list \<Rightarrow> nat \<times> nat" where
  "split_success_failure results =
     (let successes = length (filter (\<lambda>(k, r). res_ok r) results) in (successes, length results - successes))"

definition carry_forward_id :: "raw_subtask \<Rightarrow> (pystr \<times> sub_result) list \<Rightarrow> pystr option" where
  "carry_forward_id entry results =
     (if \<not> rs_redispatch entry then None
      else if rs_subtask entry = [] then None
      else case map_of results (rs_subtask entry) of
             Some prior \<Rightarrow> if \<not> res_ok prior then Some (rs_subtask entry) else None
           | None \<Rightarrow> None)"

text \<open>\<open>xs[:n]\<close> for an integer \<open>n\<close>.\<close>

definition py_take :: "int \<Rightarrow> 'a list \<Rightarrow> 'a list" where
  "py_take n xs = take (nat (if 0 \<le> n then n else int (length xs) + n)) xs"

definition round_id :: "int \<Rightarrow> nat \<Rightarrow> pystr" where
  "round_id iteration index = dec iteration @ [46] @ dec_nat index"

definition mint :: "int \<Rightarrow> (pystr \<times> sub_result) list \<Rightarrow> nat \<times> raw_subtask \<Rightarrow> subtask" where
  "mint iteration results = (\<lambda>(index, entry).
     \<lparr>st_id = (case carry_forward_id entry results of Some c \<Rightarrow> c | None \<Rightarrow> round_id iteration index),
      st_prompt = rs_prompt entry\<rparr>)"

definition mint_subtasks :: "int \<Rightarrow> (pystr \<times> sub_result) list \<Rightarrow> raw_subtask list \<Rightarrow> subtask list" where
  "mint_subtasks iteration results raw = map (mint iteration results) (enumerate 0 raw)"

definition all_failed_error :: "nat \<Rightarrow> int \<Rightarrow> exn" where
  "all_failed_error failures iteration =
     \<lparr>ex_class = OtherExn,
      ex_text = lit ''all '' @ dec_nat failures @ lit '' sub-agent(s) failed in round '' @ dec iteration
        @ lit '' with no prior success '' @ [8212] @ lit '' cannot make progress'',
      ex_chain = []\<rparr>"

definition clamp_reason :: "int \<Rightarrow> nat \<Rightarrow> pystr" where
  "clamp_reason cap emitted =
     lit ''max_fanout_per_iteration ('' @ dec cap @ lit '') clamp: '' @ dec_nat emitted @ lit '' emitted, ''
       @ dec cap @ lit '' kept''"

definition supervisor_node :: "research_env \<Rightarrow> supervisor_cfg \<Rightarrow> research \<Rightarrow> node_result" where
  "supervisor_node v cfg s =
     (let prev = r_iteration s; results = r_results s; (successes, failures) = split_success_failure results in
      if results \<noteq> [] \<and> successes = 0 then Raise (all_failed_error failures prev)
      else if max_iterations cfg \<le> prev then
        Update (no_update\<lparr>u_decision := Some Stop, u_subtasks := Some []\<rparr>)
          [emit_supervisor_iteration prev 0 (lit ''stop'')
             (lit ''max_iterations ('' @ dec (max_iterations cfg) @ lit '') reached'')]
      else
        case rv_decide v (r_brief s) (prev + 1) results of
          Inl ex \<Rightarrow> Raise ex
        | Inr (c, um) \<Rightarrow>
            let (decision, raw, llm_reason) = parse_supervisor_decision (rv_loads v) (rv_show v) c in
            if decision = Stop \<or> raw = [] then
              Update (no_update\<lparr>u_decision := Some Stop, u_subtasks := Some [], u_usage := usage_from_message um\<rparr>)
                [emit_supervisor_iteration prev 0 (lit ''stop'') llm_reason]
            else
              let clamped = max_fanout cfg < int (length raw);
                  kept = (if clamped then py_take (max_fanout cfg) raw else raw);
                  cap_reason = (if clamped then clamp_reason (max_fanout cfg) (length raw) else []);
                  minted = mint_subtasks (prev + 1) results kept
              in Update (no_update\<lparr>u_iteration := Some (prev + 1), u_subtasks := Some minted,
                           u_decision := Some Continue, u_usage := usage_from_message um\<rparr>)
                   [emit_supervisor_iteration (prev + 1) (length minted) (lit ''continue'')
                      (if cap_reason \<noteq> [] then cap_reason else llm_reason)])"


section \<open>Findings\<close>

definition WRITER_FINDINGS_CAP :: nat where "WRITER_FINDINGS_CAP = 50"

text \<open>\<open>None\<close>: the text has a lone surrogate, and \<open>encode\<close> raises.\<close>

definition mint_finding_id :: "pystr \<Rightarrow> nat \<Rightarrow> pystr \<Rightarrow> pystr \<Rightarrow> pystr option" where
  "mint_finding_id subtask index claim quote =
     (let text = subtask @ [0] @ dec_nat index @ [0] @ claim @ [0] @ quote
      in if list_all is_scalar text then Some (subtask @ [45] @ take 8 (sha1_hex (utf8 text))) else None)"

text \<open>A finding without its id yet.\<close>

definition parse_finding :: "(json \<Rightarrow> pystr) \<Rightarrow> json \<Rightarrow> finding option" where
  "parse_finding show j =
     (case j of
        JObj kvs \<Rightarrow>
          if strip (text_field show ''supporting_quote'' kvs) = [] then None
          else Some \<lparr>f_id = [], f_claim = strip (text_field show ''claim'' kvs),
                     f_url = strip (text_field show ''source_url'' kvs),
                     f_quote = text_field show ''supporting_quote'' kvs\<rparr>
      | _ \<Rightarrow> None)"

definition parse_findings_payload :: "(pystr \<Rightarrow> json option) \<Rightarrow> (json \<Rightarrow> pystr) \<Rightarrow> pystr \<Rightarrow> finding list" where
  "parse_findings_payload loads show summary =
     (case loads_lenient loads (strip summary) of
        Some (JObj kvs) \<Rightarrow>
          (case map_of kvs ''findings'' of
             Some (JList xs) \<Rightarrow> List.map_filter (parse_finding show) xs
           | _ \<Rightarrow> [])
      | _ \<Rightarrow> [])"

definition with_finding_id :: "pystr \<Rightarrow> nat \<times> finding \<Rightarrow> finding option" where
  "with_finding_id subtask = (\<lambda>(index, f).
     map_option (\<lambda>i. f\<lparr>f_id := i\<rparr>) (mint_finding_id subtask index (f_claim f) (f_quote f)))"

definition parse_findings ::
  "(pystr \<Rightarrow> json option) \<Rightarrow> (json \<Rightarrow> pystr) \<Rightarrow> pystr \<Rightarrow> int \<Rightarrow> pystr \<Rightarrow> (finding list \<times> activity list) option" where
  "parse_findings loads show summary iteration subtask =
     (case those (map (with_finding_id subtask) (enumerate 0 (parse_findings_payload loads show summary))) of
        None \<Rightarrow> None
      | Some fs \<Rightarrow> Some (fs, map (\<lambda>f. emit_subagent_finding iteration subtask (f_id f) (f_url f)) fs))"

definition reduce_findings :: "finding list \<Rightarrow> finding list" where
  "reduce_findings fs = (if length fs \<le> WRITER_FINDINGS_CAP then fs else take WRITER_FINDINGS_CAP fs)"

section \<open>Fan-out and gather\<close>

definition SUPERVISOR_FANOUT_DEPTH :: int where "SUPERVISOR_FANOUT_DEPTH = 1"

definition result_to_dict :: "subagent_result \<Rightarrow> pystr \<Rightarrow> sub_result" where
  "result_to_dict r subtask =
     \<lparr>res_ok = sa_ok r, res_summary = sa_summary r, res_reason = sa_reason r, res_subtask = subtask\<rparr>"

text \<open>The conditional edge out of the supervisor: the subtasks to send, none meaning the writer.\<close>

definition fanout_edge :: "research \<Rightarrow> subtask list" where
  "fanout_edge s = (if r_decision s \<noteq> Continue \<or> r_subtasks s = [] then [] else r_subtasks s)"

fun reason_text :: "reason option \<Rightarrow> pystr" where
  "reason_text (Some RCeiling) = lit ''ceiling''"
| "reason_text (Some RTimeout) = lit ''timeout''"
| "reason_text _ = lit ''error''"

definition fanout_node :: "research_env \<Rightarrow> int \<Rightarrow> subtask \<Rightarrow> node_result" where
  "fanout_node v iteration st =
     (if \<not> rv_deps v then Raise (rv_deps_error v)
      else
        let subtask = st_id st;
            e = rv_sub v st;
            started = emit_subagent_started iteration subtask (st_prompt st) (map t_name (sg_tools e))
                        SUPERVISOR_FANOUT_DEPTH;
            result = run_subagent e SUPERVISOR_FANOUT_DEPTH (rv_sub_prompt v (st_prompt st));
            u = no_update\<lparr>u_results := [(subtask, result_to_dict result subtask)], u_usage := sa_usage result\<rparr>
        in if sa_ok result then
             (case parse_findings (rv_loads v) (rv_show v) (sa_summary result) iteration subtask of
                None \<Rightarrow> Raise (rv_encode_error v)
              | Some (fs, evs) \<Rightarrow>
                  Update (u\<lparr>u_findings := fs\<rparr>) (started # evs @ [emit_subagent_completed iteration subtask]))
           else
             Update u [started,
               emit_subagent_failed iteration subtask (reason_text (sa_reason result)) (sa_summary result)])"

datatype stop_target = ToSupervisor | ToWriter

definition iteration_edge :: "research \<Rightarrow> stop_target" where
  "iteration_edge s = (if r_decision s = Continue then ToSupervisor else ToWriter)"

section \<open>Writer\<close>

definition writer_node :: "research_env \<Rightarrow> research \<Rightarrow> node_result" where
  "writer_node v s =
     (let reduced = reduce_findings (r_findings s) in
      case rv_write v (r_brief s) reduced of
        Inl ex \<Rightarrow> Raise ex
      | Inr (c, um) \<Rightarrow>
          let report = flatten_text c;
              (flags, verify_usage) = verify (rv_uword v) (rv_loads v) (rv_verify v) report reduced;
              cited_ids = extract_citations (rv_uword v) report;
              resolved = map (\<lambda>fid. resolve fid reduced) cited_ids
          in Update (no_update\<lparr>u_output := Some (render_report (rv_uword v) report resolved flags, resolved, flags),
                       u_usage := merge_usage (usage_from_message um) verify_usage\<rparr>) [])"

end
