(* ===== verification/Research.thy ===== *)
theory Research
  imports Supervisor
begin

text \<open>
  A research run: the graph of \<open>build_supervisor_graph\<close> (\<open>executor/supervisor/graph.py\<close>) as a step
  relation over the super-steps scope, supervisor, fan-out, gather and writer, against any
  environment, and what holds of every run.  A configuration is the place, the channels and the
  events emitted so far.
\<close>

datatype place =
    AtScope "content option"
  | Paused pystr
  | AtSupervisor
  | AtFanout "subtask list"
  | AtGather
  | AtWriter
  | Ended
  | Dead exn

type_synonym run_config = "place \<times> research \<times> activity list"

text \<open>The branches of one super-step: each runs its node, and all their updates are then applied in order.\<close>

definition branch :: "int \<Rightarrow> subtask \<Rightarrow> research_update \<times> activity list \<Rightarrow> bool" where
  "branch iteration st out \<longleftrightarrow> (\<exists>v. fanout_node v iteration st = Update (fst out) (snd out))"

definition merge_branches :: "research \<Rightarrow> research_update list \<Rightarrow> research" where
  "merge_branches s us = foldl apply_update s us"

definition after_supervisor :: "research \<Rightarrow> place" where
  "after_supervisor s = (if fanout_edge s = [] then AtWriter else AtFanout (fanout_edge s))"

definition after_gather :: "research \<Rightarrow> place" where
  "after_gather s = (case iteration_edge s of ToSupervisor \<Rightarrow> AtSupervisor | ToWriter \<Rightarrow> AtWriter)"

inductive research_step :: "supervisor_cfg \<Rightarrow> run_config \<Rightarrow> run_config \<Rightarrow> bool" for cfg where
  Scope: "scope_node v cfg resume s = Update u evs \<Longrightarrow>
     research_step cfg (AtScope resume, s, l) (AtSupervisor, apply_update s u, l @ evs)"
| Pause: "scope_node v cfg resume s = Interrupt q \<Longrightarrow>
     research_step cfg (AtScope resume, s, l) (Paused q, s, l)"
| Resume: "research_step cfg (Paused q, s, l) (AtScope (Some answer), s, l)"
| Plan: "supervisor_node v cfg s = Update u evs \<Longrightarrow>
     research_step cfg (AtSupervisor, s, l) (after_supervisor (apply_update s u), apply_update s u, l @ evs)"
| Fanout: "list_all2 (branch (r_iteration s)) sends outs \<Longrightarrow>
     research_step cfg (AtFanout sends, s, l)
       (AtGather, merge_branches s (map fst outs), l @ concat (map snd outs))"
| Gather: "research_step cfg (AtGather, s, l) (after_gather s, s, l)"
| Write: "writer_node v s = Update u evs \<Longrightarrow>
     research_step cfg (AtWriter, s, l) (Ended, apply_update s u, l @ evs)"
| ScopeFails: "scope_node v cfg resume s = Raise ex \<Longrightarrow> research_step cfg (AtScope resume, s, l) (Dead ex, s, l)"
| PlanFails: "supervisor_node v cfg s = Raise ex \<Longrightarrow> research_step cfg (AtSupervisor, s, l) (Dead ex, s, l)"
| FanoutFails: "st \<in> set sends \<Longrightarrow> fanout_node v (r_iteration s) st = Raise ex \<Longrightarrow>
     research_step cfg (AtFanout sends, s, l) (Dead ex, s, l)"
| WriteFails: "writer_node v s = Raise ex \<Longrightarrow> research_step cfg (AtWriter, s, l) (Dead ex, s, l)"

inductive_cases scopeE: "research_step cfg (AtScope resume, s, l) c"
inductive_cases pausedE: "research_step cfg (Paused q, s, l) c"
inductive_cases planE: "research_step cfg (AtSupervisor, s, l) c"
inductive_cases fanoutE: "research_step cfg (AtFanout sends, s, l) c"
inductive_cases gatherE: "research_step cfg (AtGather, s, l) c"
inductive_cases writeE: "research_step cfg (AtWriter, s, l) c"
inductive_simps no_step_ended [simp]: "research_step cfg (Ended, s, l) c"
inductive_simps no_step_dead [simp]: "research_step cfg (Dead ex, s, l) c"

definition research_start :: "message list \<Rightarrow> run_config" where
  "research_start ms = (AtScope None, fresh_research ms, [])"

definition research_reachable :: "supervisor_cfg \<Rightarrow> message list \<Rightarrow> run_config \<Rightarrow> bool" where
  "research_reachable cfg ms c \<longleftrightarrow> (research_step cfg)\<^sup>*\<^sup>* (research_start ms) c"

section \<open>What the nodes write\<close>

lemma apply_update_channels [simp]:
  "r_brief (apply_update s u) = last_write (r_brief s) (u_brief u)"
  "r_iteration (apply_update s u) = (case u_iteration u of None \<Rightarrow> r_iteration s | Some i \<Rightarrow> max_int (r_iteration s) i)"
  "r_subtasks (apply_update s u) = last_write (r_subtasks s) (u_subtasks u)"
  "r_results (apply_update s u) = merge_subagent_results (r_results s) (u_results u)"
  "r_findings (apply_update s u) = r_findings s @ u_findings u"
  "r_decision (apply_update s u) = last_write (r_decision s) (u_decision u)"
  "r_usage (apply_update s u) = merge_usage (r_usage s) (u_usage u)"
  "r_messages (apply_update s u) = r_messages s"
  by (simp_all add: apply_update_def)

lemma last_write_simps [simp]: "last_write x None = x" "last_write x (Some y) = y"
  by (simp_all add: last_write_def)

lemma merge_results_Nil [simp]: "merge_subagent_results a [] = a"
  by (simp add: merge_subagent_results_def)

lemma scope_update:
  assumes "scope_node v cfg resume s = Update u evs"
  shows "u_results u = [] \<and> u_findings u = [] \<and> u_iteration u = Some 0 \<and> u_decision u = None \<and> evs = []"
  using assms
  by (auto simp: scope_node_def no_update_def Let_def split: sum.splits prod.splits if_splits)

lemma supervisor_update:
  assumes "supervisor_node v cfg s = Update u evs"
  obtains (stop) "u_results u = []" "u_findings u = []" "u_iteration u = None" "u_subtasks u = Some []"
      "u_decision u = Some Stop" "length evs = 1" "fst (hd evs) = ''supervisor_iteration''"
  | (go) raw where "u_results u = []" "u_findings u = []" "u_iteration u = Some (r_iteration s + 1)"
      "u_subtasks u = Some (mint_subtasks (r_iteration s + 1) (r_results s) raw)"
      "u_decision u = Some Continue" "length evs = 1" "fst (hd evs) = ''supervisor_iteration''"
      "r_iteration s < max_iterations cfg" "raw \<noteq> [] \<or> max_fanout cfg < 0 \<or> max_fanout cfg = 0"
      "0 < max_fanout cfg \<longrightarrow> int (length raw) \<le> max_fanout cfg"
proof -
  obtain successes failures where sf: "split_success_failure (r_results s) = (successes, failures)" by fastforce
  show ?thesis
  proof (cases "max_iterations cfg \<le> r_iteration s")
    case True
    with assms sf show ?thesis
      by (intro stop) (auto simp: supervisor_node_def no_update_def emit_supervisor_iteration_def Let_def split: if_splits)
  next
    case False
    from assms sf False obtain c um where decide: "rv_decide v (r_brief s) (r_iteration s + 1) (r_results s) = Inr (c, um)"
      by (cases "rv_decide v (r_brief s) (r_iteration s + 1) (r_results s)")
        (auto simp: supervisor_node_def Let_def split: if_splits)
    obtain d raw reason where p: "parse_supervisor_decision (rv_loads v) (rv_show v) c = (d, raw, reason)"
      by (metis prod_cases3)
    show ?thesis
    proof (cases "d = Stop \<or> raw = []")
      case True
      with assms sf False decide p show ?thesis
        by (intro stop) (auto simp: supervisor_node_def no_update_def emit_supervisor_iteration_def Let_def split: if_splits)
    next
      case go': False
      let ?kept = "if max_fanout cfg < int (length raw) then py_take (max_fanout cfg) raw else raw"
      have "0 < max_fanout cfg \<longrightarrow> int (length ?kept) \<le> max_fanout cfg" "?kept \<noteq> [] \<or> max_fanout cfg \<le> 0"
        using go' by (auto simp: py_take_def)
      with assms sf False decide p go' show ?thesis
        by (intro go [of ?kept]) (auto simp: supervisor_node_def no_update_def emit_supervisor_iteration_def Let_def
            split: if_splits)
    qed
  qed
qed

lemma branch_cases:
  assumes "branch iteration st (u, evs)"
  obtains r where "u_results u = [(st_id st, r)]" "u_iteration u = None" "u_subtasks u = None" "u_decision u = None"
    "u_brief u = None" "u_output u = None"
    "length (filter (\<lambda>e. fst e = ''subagent_started'') evs) = 1"
proof -
  from assms obtain v where v: "fanout_node v iteration st = Update u evs" by (auto simp: branch_def)
  let ?res = "run_subagent (rv_sub v st) SUPERVISOR_FANOUT_DEPTH (rv_sub_prompt v (st_prompt st))"
  have none: "filter (\<lambda>e. fst e = ''subagent_started'') (map (\<lambda>f. emit_subagent_finding i k (f_id f) (f_url f)) fs) = []"
    for i k and fs :: "finding list"
    by (induction fs) (auto simp: emit_subagent_finding_def)
  show ?thesis
  proof (rule that [of "result_to_dict ?res (st_id st)"])
    show "length (filter (\<lambda>e. fst e = ''subagent_started'') evs) = 1"
      using v by (auto simp: fanout_node_def Let_def parse_findings_def none emit_subagent_started_def
          emit_subagent_completed_def emit_subagent_failed_def split: if_splits option.splits prod.splits)
  qed (use v in \<open>auto simp: fanout_node_def no_update_def Let_def split: if_splits option.splits prod.splits\<close>)
qed


lemma merge_branches_channels:
  "r_results (merge_branches s us) = foldl merge_subagent_results (r_results s) (map u_results us)"
  "r_findings (merge_branches s us) = r_findings s @ concat (map u_findings us)"
  "r_usage (merge_branches s us) = foldl merge_usage (r_usage s) (map u_usage us)"
  by (induction us arbitrary: s) (simp_all add: merge_branches_def)

lemma branches_frame:
  assumes "list_all2 (branch iteration) sends outs"
  shows "r_iteration (merge_branches s (map fst outs)) = r_iteration s
    \<and> r_decision (merge_branches s (map fst outs)) = r_decision s
    \<and> r_subtasks (merge_branches s (map fst outs)) = r_subtasks s
    \<and> r_brief (merge_branches s (map fst outs)) = r_brief s"
  using assms
proof (induction sends outs arbitrary: s rule: list_all2_induct)
  case (Cons st sends out outs)
  obtain u evs where out: "out = (u, evs)" by fastforce
  from Cons.hyps(1) show ?case unfolding out
    by (cases rule: branch_cases) (use Cons.IH in \<open>simp add: merge_branches_def\<close>)
qed (simp add: merge_branches_def)

section \<open>Termination\<close>

text \<open>What is left to do: two for the last decision and the report, three for each round.\<close>

fun remaining :: "supervisor_cfg \<Rightarrow> run_config \<Rightarrow> nat" where
  "remaining cfg (AtScope None, s, l) = 3 * nat (max_iterations cfg - r_iteration s) + 5"
| "remaining cfg (Paused q, s, l) = 3 * nat (max_iterations cfg - r_iteration s) + 4"
| "remaining cfg (AtScope (Some a), s, l) = 3 * nat (max_iterations cfg - r_iteration s) + 3"
| "remaining cfg (AtSupervisor, s, l) = 3 * nat (max_iterations cfg - r_iteration s) + 2"
| "remaining cfg (AtFanout sends, s, l) = 3 * nat (max_iterations cfg - r_iteration s) + 4"
| "remaining cfg (AtGather, s, l) = 3 * nat (max_iterations cfg - r_iteration s) + 3"
| "remaining cfg (AtWriter, s, l) = 1"
| "remaining cfg (Ended, s, l) = 0"
| "remaining cfg (Dead ex, s, l) = 0"

lemma resumed_scope_never_asks: "scope_node v cfg (Some a) s \<noteq> Interrupt q"
  by (auto simp: scope_node_def Let_def split: sum.splits prod.splits)

lemma step_decreases: "research_step cfg c c' \<Longrightarrow> remaining cfg c' < remaining cfg c"
proof (induction rule: research_step.induct)
  case (Scope v resume s u evs l)
  have "nat (max_iterations cfg - max_int (r_iteration s) 0) \<le> nat (max_iterations cfg - r_iteration s)"
    by (simp add: max_int_def)
  with scope_update [OF Scope] show ?case by (cases resume) auto
next
  case (Pause v resume s q l)
  then show ?case using resumed_scope_never_asks by (cases resume) auto
next
  case (Plan v s u evs l)
  then show ?case
  proof (cases rule: supervisor_update)
    case stop
    then show ?thesis by (simp add: after_supervisor_def fanout_edge_def)
  next
    case (go raw)
    then have "nat (max_iterations cfg - r_iteration s) = Suc (nat (max_iterations cfg - (r_iteration s + 1)))" by simp
    with go show ?thesis by (simp add: after_supervisor_def max_int_def)
  qed
next
  case (Fanout s sends outs l)
  then show ?case using branches_frame [OF Fanout, of s] by simp
next
  case (Gather s l)
  then show ?case by (cases "iteration_edge s") (simp_all add: after_gather_def)
next
  case (ScopeFails v resume s ex l)
  then show ?case by (cases resume) auto
qed auto

lemma research_is_bounded:
  assumes "(research_step cfg ^^ n) (research_start ms) c"
  shows "int n \<le> 3 * max 0 (max_iterations cfg) + 5"
proof -
  have "n \<le> remaining cfg a" if "(research_step cfg ^^ n) a b" for n a b
    using that
  proof (induction n arbitrary: a)
    case (Suc n)
    then obtain a' where "research_step cfg a a'" "(research_step cfg ^^ n) a' b" by (metis relpowp_Suc_D2)
    with Suc.IH step_decreases show ?case by (metis Suc_leI le_less_trans)
  qed simp
  from this [OF assms] show ?thesis by (simp add: research_start_def fresh_research_def)
qed

section \<open>Subtask ids\<close>

lemma split_at_dot:
  assumes "46 \<notin> set x" "46 \<notin> set x'" "x @ [46] @ y = x' @ [46] @ (y' :: pystr)"
  shows "x = x' \<and> y = y'"
proof -
  have "split_char 46 (x @ 46 # y) = split_char 46 (x' @ 46 # y')" using assms(3) by simp
  then have "x = x'" unfolding split_char_append [OF assms(1)] split_char_append [OF assms(2)] by simp
  with assms(3) show ?thesis by simp
qed

lemma no_dot: "46 \<notin> set (dec_nat n)"
  using dec_nat_digits [of n] by auto

lemma round_id_inject:
  assumes "0 \<le> i" "0 \<le> i'"
  shows "round_id i j = round_id i' j' \<longleftrightarrow> i = i' \<and> j = j'"
proof
  assume "round_id i j = round_id i' j'"
  then have "dec_nat (nat i) @ [46] @ dec_nat j = dec_nat (nat i') @ [46] @ dec_nat j'"
    using assms by (simp add: round_id_def dec_def)
  from split_at_dot [OF no_dot no_dot this] assms show "i = i' \<and> j = j'" by (simp add: eq_nat_nat_iff)
qed simp

definition carried :: "(pystr \<times> sub_result) list \<Rightarrow> raw_subtask list \<Rightarrow> pystr list" where
  "carried results raw = List.map_filter (\<lambda>e. carry_forward_id e results) raw"

lemma carry_is_failed_key:
  "carry_forward_id e results = Some k \<Longrightarrow> \<exists>r. map_of results k = Some r \<and> \<not> res_ok r"
  by (auto simp: carry_forward_id_def split: if_splits option.splits)

lemma carried_simps [simp]:
  "carried results [] = []"
  "carried results (e # raw) = (case carry_forward_id e results of None \<Rightarrow> carried results raw | Some k \<Rightarrow> k # carried results raw)"
  by (simp_all add: carried_def List.map_filter_simps split: option.split)

text \<open>
  The subtask ids of one round are distinct exactly when no failed subtask is named
  twice for redispatch: fresh ids never collide, but two redispatch entries of one subtask
  get the same id, although the node documents that two subtasks of a round always differ.
\<close>

theorem minted_ids_distinct_iff:
  assumes "0 \<le> iteration" "\<forall>j. map_of results (round_id iteration j) = None"
  shows "distinct (map st_id (mint_subtasks iteration results raw)) \<longleftrightarrow> distinct (carried results raw)"
proof -
  let ?ids = "\<lambda>n raw. map st_id (map (mint iteration results) (enumerate n raw))"
  have ids: "k \<in> set (?ids n raw) \<longleftrightarrow> k \<in> set (carried results raw)
      \<or> (\<exists>i < length raw. carry_forward_id (raw ! i) results = None \<and> k = round_id iteration (n + i))" for k n raw
  proof (induction raw arbitrary: n)
    case (Cons e raw)
    then show ?case
      by (auto simp: mint_def nth_Cons' less_Suc_eq_0_disj split: option.splits)
  qed simp
  have fresh: "round_id iteration j \<notin> set (carried results raw)" for j raw
  proof
    assume "round_id iteration j \<in> set (carried results raw)"
    then obtain e where "carry_forward_id e results = Some (round_id iteration j)"
      by (auto simp: carried_def set_map_filter)
    from carry_is_failed_key [OF this] assms(2) show False by auto
  qed
  have carried_key: "\<exists>r. map_of results k = Some r" if "carry_forward_id e results = Some k" for e k
    using carry_is_failed_key [OF that] by blast
  have "distinct (?ids n raw) \<longleftrightarrow> distinct (carried results raw)" for n
  proof (induction raw arbitrary: n)
    case (Cons e raw)
    show ?case
    proof (cases "carry_forward_id e results")
      case None
      have "round_id iteration n \<notin> set (?ids (Suc n) raw)"
        unfolding ids using fresh by (auto simp: round_id_inject [OF assms(1,1)])
      with None Cons show ?thesis by (simp add: mint_def)
    next
      case (Some k)
      then have "k \<noteq> round_id iteration j" for j using carried_key [OF Some] assms(2) by auto
      then have "k \<in> set (?ids (Suc n) raw) \<longleftrightarrow> k \<in> set (carried results raw)" unfolding ids by auto
      with Some Cons show ?thesis by (simp add: mint_def)
    qed
  qed simp
  then show ?thesis by (simp add: mint_subtasks_def)
qed


section \<open>The invariant of a run\<close>

definition started_count :: "activity list \<Rightarrow> int" where
  "started_count l = int (length (filter (\<lambda>e. fst e = ''subagent_started'') l))"

definition minted_key :: "int \<Rightarrow> pystr \<Rightarrow> bool" where
  "minted_key iteration k \<longleftrightarrow> (\<exists>i j. k = round_id i j \<and> 1 \<le> i \<and> i \<le> iteration)"

definition keys_minted_by :: "int \<Rightarrow> (pystr \<times> sub_result) list \<Rightarrow> bool" where
  "keys_minted_by iteration results \<longleftrightarrow>
     distinct (map fst results)
     \<and> (\<forall>k \<in> fst ` set results. minted_key iteration k)"

text \<open>An id that a round may use: minted in it, or that of a failed subtask.\<close>

definition usable_id :: "int \<Rightarrow> (pystr \<times> sub_result) list \<Rightarrow> pystr \<Rightarrow> bool" where
  "usable_id iteration results k \<longleftrightarrow>
     (\<exists>j. k = round_id iteration j) \<or> (\<exists>r. map_of results k = Some r \<and> \<not> res_ok r)"

definition quoted :: "finding list \<Rightarrow> bool" where
  "quoted fs \<longleftrightarrow> (\<forall>f \<in> set fs. strip (f_quote f) \<noteq> [] \<and> f_id f \<noteq> [])"

fun research_inv :: "supervisor_cfg \<Rightarrow> run_config \<Rightarrow> bool" where
  "research_inv cfg (p, s, l) \<longleftrightarrow>
     0 \<le> r_iteration s \<and> r_iteration s \<le> max 0 (max_iterations cfg) \<and> quoted (r_findings s)
     \<and> keys_minted_by (case p of AtFanout sends \<Rightarrow> r_iteration s - 1 | _ \<Rightarrow> r_iteration s) (r_results s)
     \<and> (case p of AtFanout sends \<Rightarrow> 1 \<le> r_iteration s \<and> (\<forall>st \<in> set sends. usable_id (r_iteration s) (r_results s) (st_id st)) | _ \<Rightarrow> True)
     \<and> (0 < max_fanout cfg \<longrightarrow>
          started_count l + (case p of AtFanout sends \<Rightarrow> int (length sends) | _ \<Rightarrow> 0)
            \<le> max_fanout cfg * r_iteration s)"

lemma started_count_append [simp]: "started_count (xs @ ys) = started_count xs + started_count ys"
  by (simp add: started_count_def)

lemma started_count_single: "length evs = 1 \<Longrightarrow> fst (hd evs) = ''supervisor_iteration'' \<Longrightarrow> started_count evs = 0"
  by (cases evs) (simp_all add: started_count_def)

lemma started_count_branches:
  "list_all2 (branch iteration) sends outs \<Longrightarrow> started_count (concat (map snd outs)) = int (length sends)"
proof (induction sends outs rule: list_all2_induct)
  case (Cons st sends out outs)
  obtain u evs where out: "out = (u, evs)" by fastforce
  from Cons.hyps(1) show ?case unfolding out
    by (cases rule: branch_cases) (use Cons.IH in \<open>simp add: started_count_def\<close>)
qed (simp add: started_count_def)

lemma map_of_update: "map_of (AList.update k v al) = (map_of al)(k \<mapsto> v)"
  by (rule update_conv')

lemma branch_results:
  assumes "list_all2 (branch iteration) sends outs"
  shows "\<exists>rs. length rs = length sends
    \<and> foldl merge_subagent_results a (map (u_results \<circ> fst) outs) = merge_subagent_results a (zip (map st_id sends) rs)"
  using assms
proof (induction sends outs arbitrary: a rule: list_all2_induct)
  case (Cons st sends out outs)
  obtain u evs where out: "out = (u, evs)" by fastforce
  from Cons.hyps(1) obtain r where r: "u_results u = [(st_id st, r)]" unfolding out by (cases rule: branch_cases)
  from Cons.IH [of "merge_subagent_results a [(st_id st, r)]"] obtain rs where
    "length rs = length sends" "foldl merge_subagent_results (merge_subagent_results a [(st_id st, r)]) (map (u_results \<circ> fst) outs)
      = merge_subagent_results (merge_subagent_results a [(st_id st, r)]) (zip (map st_id sends) rs)" by blast
  moreover have "merge_subagent_results a ((st_id st, r) # kvs)
      = merge_subagent_results (merge_subagent_results a [(st_id st, r)]) kvs" for kvs
    by (simp add: merge_subagent_results_def)
  from this [of "zip (map st_id sends) rs"] calculation show ?case using r by (intro exI [of _ "r # rs"]) (simp add: out comp_def)
qed simp

lemma map_of_merge: "map_of (merge_subagent_results a kvs) = map_of a ++ map_of (rev kvs)"
  by (induction kvs rule: rev_induct) (auto simp: merge_subagent_results_def map_of_update fun_eq_iff map_add_def split: option.split)

lemma keys_merge:
  "distinct (map fst a) \<Longrightarrow> distinct (map fst (merge_subagent_results a kvs))
   \<and> fst ` set (merge_subagent_results a kvs) = fst ` set a \<union> fst ` set kvs"
proof (induction kvs rule: rev_induct)
  case (snoc kv kvs)
  moreover have "distinct (map fst (AList.update k v al))" if "distinct (map fst al)"
    for k :: pystr and v :: sub_result and al using that by (rule distinct_update)
  moreover have "fst ` set (AList.update k v al) = insert k (fst ` set al)"
    for k :: pystr and v :: sub_result and al using dom_update [of k v al] by (simp add: dom_map_of_conv_image_fst)
  ultimately show ?case by (cases kv) (auto simp: merge_subagent_results_def)
qed (simp add: merge_subagent_results_def)

lemma mint_usable: "st \<in> set (mint_subtasks iteration results raw) \<Longrightarrow> usable_id iteration results (st_id st)"
  by (auto simp: mint_subtasks_def mint_def usable_id_def split: option.splits dest!: carry_is_failed_key)

lemma minted_length [simp]: "length (mint_subtasks iteration results raw) = length raw"
  by (simp add: mint_subtasks_def)

lemma parse_finding_quote: "parse_finding show j = Some f \<Longrightarrow> strip (f_quote f) \<noteq> []"
  by (cases j) (auto simp: parse_finding_def split: if_splits)

lemma parse_findings_quoted:
  assumes "parse_findings loads show summary iteration subtask = Some (fs, evs)"
  shows "quoted fs"
proof -
  let ?raw = "parse_findings_payload loads show summary"
  have raw: "strip (f_quote f) \<noteq> []" if "f \<in> set ?raw" for f
    using that by (auto simp: parse_findings_payload_def set_map_filter split: option.splits json.splits
        dest: parse_finding_quote)
  from assms have "map (with_finding_id subtask) (enumerate 0 ?raw) = map Some fs"
    by (auto simp: parse_findings_def those_Some split: option.splits)
  moreover have "Some f \<in> set (map Some fs)" if "f \<in> set fs" for f using that by simp
  ultimately have "\<exists>p \<in> set (enumerate 0 ?raw). with_finding_id subtask p = Some f" if "f \<in> set fs" for f
    using that by (metis in_set_conv_nth length_map nth_map)
  then show ?thesis
    by (fastforce simp: quoted_def with_finding_id_def mint_finding_id_def Let_def enumerate_eq_zip
        split: if_splits prod.splits dest: raw set_zip_rightD)
qed


lemma branch_findings: "branch iteration st (u, evs) \<Longrightarrow> quoted (u_findings u)"
  by (auto simp: branch_def fanout_node_def no_update_def Let_def quoted_def split: if_splits option.splits prod.splits
      dest!: parse_findings_quoted)

lemma branches_findings: "list_all2 (branch iteration) sends outs \<Longrightarrow> quoted (concat (map (u_findings \<circ> fst) outs))"
proof (induction sends outs rule: list_all2_induct)
  case (Cons st sends out outs)
  obtain u evs where "out = (u, evs)" by fastforce
  with Cons branch_findings [of iteration st u evs] show ?case by (auto simp: quoted_def)
qed (simp add: quoted_def)

lemma minted_key_mono: "minted_key i k \<Longrightarrow> i \<le> i' \<Longrightarrow> minted_key i' k"
  by (auto simp: minted_key_def intro: order_trans)

lemma keys_minted_mono: "keys_minted_by i results \<Longrightarrow> i \<le> i' \<Longrightarrow> keys_minted_by i' results"
  by (fastforce simp: keys_minted_by_def dest: minted_key_mono)

lemma fanout_keys:
  assumes "keys_minted_by (i - 1) results" "1 \<le> i" "\<forall>st \<in> set sends. usable_id i results (st_id st)"
    and "length rs = length sends"
  shows "keys_minted_by i (merge_subagent_results results (zip (map st_id sends) rs))"
proof -
  have old: "minted_key i k" if "k \<in> fst ` set results" for k
    using keys_minted_mono [OF assms(1), of i] that unfolding keys_minted_by_def by simp blast
  have new: "minted_key i (st_id st)" if st: "st \<in> set sends" for st
  proof -
    consider j where "st_id st = round_id i j" | r where "map_of results (st_id st) = Some r"
      using assms(3) st by (auto simp: usable_id_def)
    then show ?thesis
    proof cases
      case 1
      with assms(2) show ?thesis by (auto simp: minted_key_def)
    next
      case 2
      then have "st_id st \<in> fst ` set results" by (metis map_of_eq_None_iff option.distinct(1))
      then show ?thesis by (rule old)
    qed
  qed
  have "fst ` set (zip (map st_id sends) rs) = st_id ` set sends"
    using assms(4) by (metis image_set length_map map_fst_zip)
  with keys_merge [of results "zip (map st_id sends) rs"] assms(1) old new show ?thesis
    by (auto simp: keys_minted_by_def)
qed

lemma writer_update:
  "writer_node v s = Update u evs \<Longrightarrow> u_results u = [] \<and> u_findings u = [] \<and> u_iteration u = None \<and> evs = []"
  by (auto simp: writer_node_def no_update_def Let_def split: sum.splits prod.splits)

lemma step_inv: "research_step cfg c c' \<Longrightarrow> research_inv cfg c \<Longrightarrow> research_inv cfg c'"
proof (induction rule: research_step.induct)
  case (Scope v resume s u evs l)
  with scope_update [OF Scope(1)] show ?case by (simp add: max_int_def)
next
  case (Plan v s u evs l)
  from Plan(1) show ?case
  proof (cases rule: supervisor_update)
    case stop
    with Plan(2) started_count_single [OF stop(6,7)] show ?thesis
      by (simp add: after_supervisor_def fanout_edge_def)
  next
    case (go raw)
    let ?sends = "mint_subtasks (r_iteration s + 1) (r_results s) raw"
    have keys: "keys_minted_by (r_iteration s) (r_results s)" "0 \<le> r_iteration s" using Plan(2) by simp_all
    have count: "0 < max_fanout cfg \<Longrightarrow>
        started_count (l @ evs) + int (length raw) \<le> max_fanout cfg * (r_iteration s + 1)"
      using Plan(2) go(10) started_count_single [OF go(6,7)] by (auto simp: distrib_left)
    have "max_int (r_iteration s) (r_iteration s + 1) = r_iteration s + 1" by (simp add: max_int_def)
    moreover have "keys_minted_by (r_iteration s + 1) (r_results s)" using keys by (auto intro: keys_minted_mono)
    moreover have "quoted (r_findings s)" using Plan(2) by simp
    ultimately show ?thesis using go count keys
      by (auto simp: after_supervisor_def fanout_edge_def intro: mint_usable)
  qed
next
  case (Fanout s sends outs l)
  have inv: "0 \<le> r_iteration s" "r_iteration s \<le> max 0 (max_iterations cfg)" "quoted (r_findings s)" "keys_minted_by (r_iteration s - 1) (r_results s)"
    "\<forall>st \<in> set sends. usable_id (r_iteration s) (r_results s) (st_id st)"
    "0 < max_fanout cfg \<longrightarrow> started_count l + int (length sends) \<le> max_fanout cfg * r_iteration s"
    using Fanout(2) by auto
  from branch_results [OF Fanout(1)] obtain rs where rs: "length rs = length sends"
    "r_results (merge_branches s (map fst outs)) = merge_subagent_results (r_results s) (zip (map st_id sends) rs)"
    unfolding merge_branches_channels map_map by blast
  have "keys_minted_by (r_iteration s) (r_results (merge_branches s (map fst outs)))"
    unfolding rs(2) using inv(4,5) Fanout(2) rs(1) by (intro fanout_keys) auto
  moreover have "quoted (r_findings (merge_branches s (map fst outs)))"
    using inv(3) branches_findings [OF Fanout(1)] by (auto simp: merge_branches_channels quoted_def)
  ultimately show ?case using inv branches_frame [OF Fanout(1), of s] started_count_branches [OF Fanout(1)] by simp
next
  case (Gather s l)
  then show ?case by (auto simp: after_gather_def split: stop_target.split)
next
  case (Write v s u evs l)
  with writer_update [OF Write(1)] show ?case by simp
next
  case (FanoutFails st sends s v ex l)
  then show ?case by (auto intro: keys_minted_mono)
qed auto


lemma reachable_inv: "research_reachable cfg ms c \<Longrightarrow> research_inv cfg c"
  unfolding research_reachable_def
proof (induction rule: rtranclp_induct)
  case base
  show ?case
    by (simp add: research_start_def fresh_research_def quoted_def keys_minted_by_def started_count_def)
qed (rule step_inv)

text \<open>
  In every reachable state at most max_fanout * max_iterations sub-agents have been
  started, redispatched ones included.
\<close>

theorem dispatched_subagents_bounded:
  assumes "research_reachable cfg ms (p, s, l)" "0 < max_fanout cfg"
  shows "started_count l \<le> max_fanout cfg * max 0 (max_iterations cfg)"
proof -
  from reachable_inv [OF assms(1)] assms(2) have
    "started_count l + (case p of AtFanout sends \<Rightarrow> int (length sends) | _ \<Rightarrow> 0) \<le> max_fanout cfg * r_iteration s"
    "r_iteration s \<le> max 0 (max_iterations cfg)" by auto
  moreover have "0 \<le> (case p of AtFanout sends \<Rightarrow> int (length sends) | _ \<Rightarrow> 0)" by (cases p) auto
  ultimately show ?thesis using assms(2) mult_left_mono [of "r_iteration s" "max 0 (max_iterations cfg)" "max_fanout cfg"]
    by linarith
qed

text \<open>
  C23. In every reachable state of a research run no later step overwrites or drops the
  result of a successful subtask: new ids never meet an existing key, and a carried-
  forward id names a failed one.
\<close>

theorem successes_survive:
  assumes "research_reachable cfg ms (p, s, l)" "research_step cfg (p, s, l) (p', s', l')"
    and "map_of (r_results s) k = Some r" "res_ok r"
  shows "map_of (r_results s') k = Some r"
proof -
  have inv: "research_inv cfg (p, s, l)" using assms(1) by (rule reachable_inv)
  from assms(2) show ?thesis
  proof cases
    case (Scope v resume u evs)
    with scope_update assms(3) show ?thesis by fastforce
  next
    case (Plan v u evs)
    from Plan(5) show ?thesis by (cases rule: supervisor_update) (use Plan assms(3) in simp_all)
  next
    case (Fanout sends outs)
    from branch_results [OF Fanout(5)] obtain rs where rs: "length rs = length sends"
      "r_results s' = merge_subagent_results (r_results s) (zip (map st_id sends) rs)"
      unfolding Fanout(3) merge_branches_channels map_map by blast
    have key: "minted_key (r_iteration s - 1) k"
    proof -
      have "k \<in> fst ` set (r_results s)" using assms(3) by (metis map_of_eq_None_iff option.distinct(1))
      moreover have "keys_minted_by (r_iteration s - 1) (r_results s)" using inv Fanout(1) by simp
      ultimately show ?thesis unfolding keys_minted_by_def by blast
    qed
    have "st_id st \<noteq> k" if "st \<in> set sends" for st
    proof -
      have "usable_id (r_iteration s) (r_results s) (st_id st)" using inv Fanout(1) that by simp
      moreover have "0 \<le> r_iteration s" using inv by simp
      then have "k \<noteq> round_id (r_iteration s) j" for j
        using key round_id_inject by (fastforce simp: minted_key_def)
      ultimately show ?thesis using assms(3,4) by (auto simp: usable_id_def)
    qed
    moreover have "fst ` set (zip (map st_id sends) rs) = st_id ` set sends"
      using rs(1) by (metis image_set length_map map_fst_zip)
    ultimately have "k \<notin> fst ` set (zip (map st_id sends) rs)" by auto
    then have "map_of (rev (zip (map st_id sends) rs)) k = None" by (simp add: map_of_eq_None_iff)
    then show ?thesis using assms(3) by (simp add: rs(2) map_of_merge map_add_def)
  next
    case (Write v u evs)
    with writer_update assms(3) show ?thesis by fastforce
  qed (use assms(3) in auto)
qed

text \<open>
  In every reachable state a step only appends to the findings, and every finding has
  an id and a supporting quote that is not blank.
\<close>

theorem findings_are_append_only:
  assumes "research_reachable cfg ms (p, s, l)" "research_step cfg (p, s, l) (p', s', l')"
  shows "(\<exists>new. r_findings s' = r_findings s @ new) \<and> quoted (r_findings s')"
proof
  from assms(2) show "\<exists>new. r_findings s' = r_findings s @ new"
    by cases (auto simp: merge_branches_channels)
  from step_inv [OF assms(2)] reachable_inv [OF assms(1)] show "quoted (r_findings s')" by simp
qed

section \<open>The order of the branches\<close>

text \<open>
  The parallel branches of a fan-out may be merged in any order: with distinct
  subtask ids the keyed results and the summed usage are the same, and the findings are
  the same up to order.
\<close>

theorem branch_order_is_irrelevant:
  assumes "list_all2 (branch iteration) sends outs" "mset outs' = mset outs" "distinct (map st_id sends)"
  shows "map_of (r_results (merge_branches s (map fst outs'))) = map_of (r_results (merge_branches s (map fst outs)))
    \<and> r_usage (merge_branches s (map fst outs')) = r_usage (merge_branches s (map fst outs))
    \<and> mset (r_findings (merge_branches s (map fst outs'))) = mset (r_findings (merge_branches s (map fst outs)))"
proof -
  have single: "\<exists>r. u_results (fst out) = [r]" if "out \<in> set outs" for out
  proof -
    from assms(1) that obtain st where "branch iteration st out" by (metis in_set_conv_nth list_all2_conv_all_nth)
    then show ?thesis by (cases out) (auto elim: branch_cases)
  qed
  have flat: "foldl merge_subagent_results a (map (u_results \<circ> fst) os) = merge_subagent_results a (map (hd \<circ> u_results \<circ> fst) os)"
    if "\<forall>out \<in> set os. \<exists>r. u_results (fst out) = [r]" for a os
    using that
  proof (induction os rule: rev_induct)
    case (snoc out os)
    then show ?case by (auto simp: merge_subagent_results_def)
  qed simp
  have keys: "map fst (map (hd \<circ> u_results \<circ> fst) outs) = map st_id sends"
    using assms(1)
  proof (induction sends outs rule: list_all2_induct)
    case (Cons st sends out outs)
    then show ?case by (cases out) (auto elim: branch_cases)
  qed simp
  let ?kv = "map (hd \<circ> u_results \<circ> fst)"
  have sets: "set outs' = set outs" using assms(2) by (metis set_mset_mset)
  have "mset (map fst (?kv outs')) = mset (map fst (?kv outs))" using assms(2) by simp
  then have "distinct (map fst (?kv outs'))" using assms(3) keys by (metis mset_eq_imp_distinct_iff)
  then have "map_of (rev (?kv outs')) = map_of (rev (?kv outs))"
    using assms(3) keys sets by (subst map_of_inject_set) (auto simp: rev_map [symmetric])
  then have "map_of (r_results (merge_branches s (map fst outs'))) = map_of (r_results (merge_branches s (map fst outs)))"
    using single sets by (simp add: merge_branches_channels flat map_of_merge)
  moreover have "mset (map (u_usage \<circ> fst) outs') = mset (map (u_usage \<circ> fst) outs)" using assms(2) by simp
  then have "r_usage (merge_branches s (map fst outs')) = r_usage (merge_branches s (map fst outs))"
    unfolding merge_branches_channels map_map by (rule fold_merge_mset)
  moreover have "mset (concat (map (u_findings \<circ> fst) outs')) = mset (concat (map (u_findings \<circ> fst) outs))"
    using assms(2) by (simp add: mset_concat flip: sum_mset_sum_list)
  ultimately show ?thesis by (simp add: merge_branches_channels)
qed


section \<open>Running the graph\<close>

definition is_raise :: "node_result \<Rightarrow> bool" where
  "is_raise r = (case r of Update u evs \<Rightarrow> False | _ \<Rightarrow> True)"

fun research_exec :: "research_env \<Rightarrow> supervisor_cfg \<Rightarrow> content \<Rightarrow> run_config \<Rightarrow> run_config option" where
  "research_exec v cfg answer (AtScope resume, s, l) =
     (case scope_node v cfg resume s of
        Raise ex \<Rightarrow> Some (Dead ex, s, l)
      | Interrupt q \<Rightarrow> Some (Paused q, s, l)
      | Update u evs \<Rightarrow> Some (AtSupervisor, apply_update s u, l @ evs))"
| "research_exec v cfg answer (Paused q, s, l) = Some (AtScope (Some answer), s, l)"
| "research_exec v cfg answer (AtSupervisor, s, l) =
     (case supervisor_node v cfg s of
        Raise ex \<Rightarrow> Some (Dead ex, s, l)
      | Interrupt q \<Rightarrow> None
      | Update u evs \<Rightarrow> Some (after_supervisor (apply_update s u), apply_update s u, l @ evs))"
| "research_exec v cfg answer (AtFanout sends, s, l) =
     (let rs = map (fanout_node v (r_iteration s)) sends in
      case find is_raise rs of
        Some (Raise ex) \<Rightarrow> Some (Dead ex, s, l)
      | Some _ \<Rightarrow> None
      | None \<Rightarrow>
          let outs = map (\<lambda>r. case r of Update u evs \<Rightarrow> (u, evs) | _ \<Rightarrow> (no_update, [])) rs
          in Some (AtGather, merge_branches s (map fst outs), l @ concat (map snd outs)))"
| "research_exec v cfg answer (AtGather, s, l) = Some (after_gather s, s, l)"
| "research_exec v cfg answer (AtWriter, s, l) =
     (case writer_node v s of
        Raise ex \<Rightarrow> Some (Dead ex, s, l)
      | Interrupt q \<Rightarrow> None
      | Update u evs \<Rightarrow> Some (Ended, apply_update s u, l @ evs))"
| "research_exec v cfg answer (Ended, s, l) = None"
| "research_exec v cfg answer (Dead ex, s, l) = None"

fun research_run :: "nat \<Rightarrow> research_env \<Rightarrow> supervisor_cfg \<Rightarrow> content \<Rightarrow> run_config \<Rightarrow> run_config" where
  "research_run 0 v cfg answer c = c"
| "research_run (Suc n) v cfg answer c =
     (case research_exec v cfg answer c of None \<Rightarrow> c | Some c' \<Rightarrow> research_run n v cfg answer c')"

definition deep_research :: "research_env \<Rightarrow> supervisor_cfg \<Rightarrow> content \<Rightarrow> message list \<Rightarrow> run_config" where
  "deep_research v cfg answer ms =
     research_run (nat (3 * max 0 (max_iterations cfg) + 5)) v cfg answer (research_start ms)"

lemma no_interrupt [simp]:
  "supervisor_node v cfg s \<noteq> Interrupt q" "fanout_node v i st \<noteq> Interrupt q" "writer_node v s \<noteq> Interrupt q"
  by (auto simp: supervisor_node_def fanout_node_def writer_node_def Let_def split: sum.splits prod.splits option.splits)

lemma exec_fanout_step:
  assumes "research_exec v cfg answer (AtFanout sends, s, l) = Some c"
  shows "research_step cfg (AtFanout sends, s, l) c"
proof (cases "find is_raise (map (fanout_node v (r_iteration s)) sends)")
  case None
  let ?f = "fanout_node v (r_iteration s)"
  let ?out = "\<lambda>r. case r of Update u evs \<Rightarrow> (u, evs) | _ \<Rightarrow> (no_update, [])"
  have "branch (r_iteration s) st (?out (?f st))" if "st \<in> set sends" for st
    using None that by (cases "?f st") (auto simp: branch_def find_None_iff is_raise_def)
  then have "list_all2 (branch (r_iteration s)) sends (map ?out (map ?f sends))"
    by (simp add: list_all2_conv_all_nth)
  from research_step.Fanout [OF this, of cfg l] assms None show ?thesis by (simp add: Let_def)
next
  case (Some r)
  then obtain st where st: "st \<in> set sends" "r = fanout_node v (r_iteration s) st" "is_raise r"
    by (auto simp: find_Some_iff in_set_conv_nth) metis
  then have "is_raise (fanout_node v (r_iteration s) st)" by simp
  then obtain ex where f: "fanout_node v (r_iteration s) st = Raise ex"
    by (cases "fanout_node v (r_iteration s) st") (simp_all add: is_raise_def)
  have "c = (Dead ex, s, l)" using assms Some by (simp add: Let_def st(2) f)
  with research_step.FanoutFails [OF st(1) f] show ?thesis by simp
qed

lemma exec_is_step: "research_exec v cfg answer c = Some c' \<Longrightarrow> research_step cfg c c'"
proof (induction v cfg answer c rule: research_exec.induct)
  case (4 v cfg answer sends s l)
  then show ?case by (rule exec_fanout_step)
qed (auto split: node_result.splits intro: research_step.intros)

definition run_over :: "place \<Rightarrow> bool" where
  "run_over p \<longleftrightarrow> (case p of Ended \<Rightarrow> True | Dead ex \<Rightarrow> True | _ \<Rightarrow> False)"

lemma exec_progress: "research_exec v cfg answer c = None \<longleftrightarrow> run_over (fst c)"
proof (induction v cfg answer c rule: research_exec.induct)
  case (4 v cfg answer sends s l)
  then show ?case
    by (auto simp: run_over_def Let_def find_Some_iff is_raise_def split: option.split node_result.splits)
qed (auto simp: run_over_def split: node_result.splits)

lemma run_ends: "remaining cfg c \<le> n \<Longrightarrow> run_over (fst (research_run n v cfg answer c))"
proof (induction n arbitrary: c)
  case 0
  have "research_exec v cfg answer c = None"
  proof (rule ccontr)
    assume "research_exec v cfg answer c \<noteq> None"
    then obtain c' where "research_exec v cfg answer c = Some c'" by blast
    from step_decreases [OF exec_is_step [OF this]] 0 show False by simp
  qed
  then show ?case by (simp add: exec_progress)
next
  case (Suc n)
  show ?case
  proof (cases "research_exec v cfg answer c")
    case None
    then have "run_over (fst c)" by (simp add: exec_progress)
    with None show ?thesis by simp
  next
    case (Some c')
    with step_decreases [OF exec_is_step [OF Some]] Suc.prems show ?thesis by (auto intro: Suc.IH)
  qed
qed

lemma run_reachable: "(research_step cfg)\<^sup>*\<^sup>* c (research_run n v cfg answer c)"
  by (induction n arbitrary: c) (auto split: option.split intro: converse_rtranclp_into_rtranclp exec_is_step)

text \<open>
  C22. A research run always ends: for any configuration and any behaviour of the models,
  the tools and the human, executing the graph for 3 * max_iterations + 5 super-steps
  reaches the end or an error; no place of the graph is stuck.
\<close>

theorem deep_research_ends: "run_over (fst (deep_research v cfg answer ms))"
  unfolding deep_research_def by (rule run_ends) (simp add: research_start_def fresh_research_def)


section \<open>Error and writer properties\<close>

text \<open>
  The supervisor fails the run exactly when results exist and none is a success, or when the
  model call itself raises before the round cap is reached.
\<close>

theorem supervisor_raises_iff:
  "supervisor_node v cfg s = Raise ex \<longleftrightarrow>
     (if r_results s \<noteq> [] \<and> (\<forall>(k, r) \<in> set (r_results s). \<not> res_ok r)
      then ex = all_failed_error (length (r_results s)) (r_iteration s)
      else r_iteration s < max_iterations cfg
        \<and> rv_decide v (r_brief s) (r_iteration s + 1) (r_results s) = Inl ex)"
proof -
  have none: "filter (\<lambda>(k, r). res_ok r) (r_results s) = [] \<longleftrightarrow> (\<forall>(k, r) \<in> set (r_results s). \<not> res_ok r)"
    by (auto simp: filter_empty_conv)
  have split: "split_success_failure (r_results s)
      = (length (filter (\<lambda>(k, r). res_ok r) (r_results s)),
         length (r_results s) - length (filter (\<lambda>(k, r). res_ok r) (r_results s)))"
    by (simp add: split_success_failure_def Let_def)
  show ?thesis
  proof (cases "r_results s \<noteq> [] \<and> (\<forall>(k, r) \<in> set (r_results s). \<not> res_ok r)")
    case True
    then have f: "filter (\<lambda>(k, r). res_ok r) (r_results s) = []" using none by blast
    have "supervisor_node v cfg s = Raise (all_failed_error (length (r_results s)) (r_iteration s))"
      unfolding supervisor_node_def Let_def split f prod.case using conjunct1 [OF True] by (simp add: Let_def)
    then show ?thesis unfolding if_P [OF True] by auto
  next
    case False
    then have c: "\<not> (r_results s \<noteq> [] \<and> length (filter (\<lambda>(k, r). res_ok r) (r_results s)) = 0)" using none by simp
    show ?thesis
    proof (cases "max_iterations cfg \<le> r_iteration s")
      case True
      with c show ?thesis unfolding supervisor_node_def Let_def split prod.case if_not_P [OF False] by auto
    next
      case go: False
      show ?thesis
      proof (cases "rv_decide v (r_brief s) (r_iteration s + 1) (r_results s)")
        case (Inl e)
        with c go show ?thesis unfolding supervisor_node_def Let_def split prod.case if_not_P [OF False] by (auto simp: Let_def)
      next
        case (Inr reply)
        with c go show ?thesis unfolding supervisor_node_def Let_def split prod.case if_not_P [OF False]
          by (cases reply) (auto simp: Let_def split: prod.splits if_splits)
      qed
    qed
  qed
qed

text \<open>
  After a clarification the scope node starts again from its first line; when the
  second assessment finds the query clear, the human's answer has no effect on the brief.
\<close>

theorem scope_drops_the_answer:
  assumes "rv_assess v (extract_query (r_messages s)) = Inr a"
    and "fst (parse_assessment (rv_loads v) (rv_show v) (fst a))"
  shows "scope_node v cfg (Some answer) s = scope_node v cfg None s"
  using assms by (cases a) (auto simp: scope_node_def Let_def split: prod.splits)

text \<open>
  C24. The writer makes up no source: every resolved citation it returns has the url,
  quote and claim of a finding of that id in the findings channel, and the verification
  flags are for the same ids in the same order.
\<close>

theorem writer_cites_findings_only:
  assumes "writer_node v s = Update u evs"
  shows "\<exists>body citations flags.
    u_output u = Some (body, citations, flags)
    \<and> map fl_id flags = map citation_id citations
    \<and> (\<forall>i url quote claim. Resolved i url quote claim \<in> set citations \<longrightarrow>
         (\<exists>f \<in> set (r_findings s). f_id f = i \<and> f_url f = url \<and> f_quote f = quote \<and> f_claim f = claim))"
proof -
  let ?reduced = "reduce_findings (r_findings s)"
  from assms obtain c um where w: "rv_write v (r_brief s) ?reduced = Inr (c, um)"
    by (auto simp: writer_node_def Let_def split: sum.splits)
  let ?report = "flatten_text c"
  let ?flags = "fst (verify (rv_uword v) (rv_loads v) (rv_verify v) ?report ?reduced)"
  let ?cites = "map (\<lambda>fid. resolve fid ?reduced) (extract_citations (rv_uword v) ?report)"
  have out: "u_output u = Some (render_report (rv_uword v) ?report ?cites ?flags, ?cites, ?flags)"
    using assms w by (auto simp: writer_node_def no_update_def Let_def split: prod.splits)
  have id: "citation_id (resolve fid fs) = fid" for fid fs
    by (simp add: resolve_def split: option.split)
  have ids: "map fl_id ?flags = map citation_id ?cites" by (simp add: verify_ids id comp_def)
  have sub: "set ?reduced \<subseteq> set (r_findings s)" by (auto simp: reduce_findings_def dest: in_set_takeD)
  have source: "\<exists>f \<in> set (r_findings s). f_id f = i \<and> f_url f = url \<and> f_quote f = quote \<and> f_claim f = claim"
    if cite: "Resolved i url quote claim \<in> set ?cites" for i url quote claim
  proof -
    from cite obtain fid where "resolve fid ?reduced = Resolved i url quote claim" by auto
    then obtain f where "map_of (finding_index ?reduced) fid = Some f" "fid = i"
      "f_url f = url" "f_quote f = quote" "f_claim f = claim"
      by (auto simp: resolve_def split: option.splits)
    then have "f \<in> set ?reduced" "f_id f = i" by (auto simp: finding_index_def dest!: map_of_SomeD)
    with sub \<open>f_url f = url\<close> \<open>f_quote f = quote\<close> \<open>f_claim f = claim\<close> show ?thesis by blast
  qed
  show ?thesis using out ids source by blast
qed

end
