(* ===== verification/ResearchRuns.thy ===== *)
theory ResearchRuns
  imports Research
begin

text \<open>
  A research run evaluated step by step: one subtask in the first round, whose sub-agent succeeds,
  and no decision that can be read in the second, which ends the run.  The general theorems of
  \<open>Research\<close>, \<open>Supervisor\<close> and \<open>Citations\<close> are applied to it.
\<close>

definition demo_loads :: "pystr \<Rightarrow> json option" where
  "demo_loads t =
     (if t = [103] then Some (JObj [(''decision'', JStr (lit ''continue'')),
        (''subtasks'', JList [JObj [(''prompt'', JStr [112])]])])
      else None)"

definition demo_env :: research_env where
  "demo_env = \<lparr>rv_loads = demo_loads, rv_show = \<lambda>_. [], rv_uword = \<lambda>_. False,
     rv_assess = \<lambda>_. Inr (Plain [], None), rv_brief = \<lambda>_ _ _. Inr (Plain [98], None),
     rv_decide = \<lambda>_ i _. Inr (Plain (if i = 1 then [103] else [120]), None),
     rv_deps = True, rv_deps_error = \<lparr>ex_class = OtherExn, ex_text = [], ex_chain = []\<rparr>,
     rv_sub = \<lambda>_. quick_env, rv_sub_prompt = \<lambda>p. p,
     rv_encode_error = \<lparr>ex_class = OtherExn, ex_text = [], ex_chain = []\<rparr>,
     rv_write = \<lambda>_ _. Inr (Plain [104], None), rv_verify = \<lambda>_ _. Inr (Plain [], None)\<rparr>"

definition demo_cfg :: supervisor_cfg where
  "demo_cfg = \<lparr>cfg_clarify = None, cfg_max_fanout = None, cfg_max_iterations = None\<rparr>"

definition demo_task :: subtask where
  "demo_task = \<lparr>st_id = [49, 46, 48], st_prompt = [112]\<rparr>"

definition demo_result :: sub_result where
  "demo_result = \<lparr>res_ok = True, res_summary = [104, 105], res_reason = None, res_subtask = [49, 46, 48]\<rparr>"

definition demo1 :: research where
  "demo1 = (fresh_research [])\<lparr>r_brief := [98]\<rparr>"

definition demo2 :: research where
  "demo2 = demo1\<lparr>r_iteration := 1, r_subtasks := [demo_task], r_decision := Continue\<rparr>"

definition demo3 :: research where
  "demo3 = demo2\<lparr>r_results := [([49, 46, 48], demo_result)], r_usage := usage_from_message (snd paid_reply)\<rparr>"

lemmas demo_text = loads_lenient_def demo_loads_def braced_def find_char_def strip_def rstrip_def lstrip_def
  is_space_def py_spaces_def

lemma demo_scope: "scope_node demo_env demo_cfg None (fresh_research []) =
    Update (no_update\<lparr>u_brief := Some [98], u_iteration := Some 0, u_subtasks := Some []\<rparr>) []"
proof -
  have "parse_assessment demo_loads (\<lambda>_. []) (Plain []) = (True, [])" "strip [98] = [98 :: nat]"
    by (simp_all add: parse_assessment_def demo_text)
  then show ?thesis by (simp add: scope_node_def demo_env_def Let_def no_update_def)
qed

lemma demo_scope_state:
  "apply_update (fresh_research [])
     (no_update\<lparr>u_brief := Some [98], u_iteration := Some 0, u_subtasks := Some []\<rparr>) = demo1"
  by (simp add: apply_update_def fresh_research_def no_update_def max_int_def demo1_def)

lemma demo_decision:
  "parse_supervisor_decision demo_loads (\<lambda>_. []) (Plain [103]) =
     (Continue, [\<lparr>rs_prompt = [112], rs_subtask = [], rs_redispatch = False\<rparr>], [])"
proof -
  have "lower (strip (lit ''continue'')) = lit ''continue''"
    by (simp add: demo_text lower_def lit_def of_char_def)
  moreover have "lit ''continue'' \<noteq> []" by (simp add: lit_def)
  ultimately show ?thesis
    by (simp add: parse_supervisor_decision_def demo_text(1,2) text_field_def json_truthy_def parse_raw_subtask_def
        List.map_filter_simps) (simp add: demo_text)
qed

lemma demo_round: "round_id 1 0 = [49, 46, 48]"
  by (simp add: round_id_def dec_def dec_nat.simps)

lemma demo_plan: "supervisor_node demo_env demo_cfg demo1 =
    Update (no_update\<lparr>u_iteration := Some 1, u_subtasks := Some [demo_task], u_decision := Some Continue\<rparr>)
      [emit_supervisor_iteration 1 1 (lit ''continue'') []]"
proof -
  have "mint_subtasks 1 [] [\<lparr>rs_prompt = [112], rs_subtask = [], rs_redispatch = False\<rparr>] = [demo_task]"
    by (simp add: mint_subtasks_def mint_def carry_forward_id_def demo_round demo_task_def)
  then show ?thesis
    by (simp add: supervisor_node_def demo1_def fresh_research_def split_success_failure_def demo_cfg_def
        max_iterations_def max_fanout_def or_default_int_def demo_env_def demo_decision no_update_def)
qed

lemma demo_plan_state:
  "apply_update demo1 (no_update\<lparr>u_iteration := Some 1, u_subtasks := Some [demo_task], u_decision := Some Continue\<rparr>) = demo2"
  by (simp add: apply_update_def demo1_def fresh_research_def no_update_def max_int_def demo2_def)

definition demo_branch :: "research_update \<times> activity list" where
  "demo_branch = (no_update\<lparr>u_results := [([49, 46, 48], demo_result)], u_usage := usage_from_message (snd paid_reply)\<rparr>,
     [emit_subagent_started 1 [49, 46, 48] [112] [] 1, emit_subagent_completed 1 [49, 46, 48]])"

lemma demo_fanout: "fanout_node demo_env 1 demo_task = Update (fst demo_branch) (snd demo_branch)"
proof -
  have "parse_findings demo_loads (\<lambda>_. []) [104, 105] 1 [49, 46, 48] = Some ([], [])"
    by (simp add: parse_findings_def parse_findings_payload_def demo_text)
  then show ?thesis
    by (simp add: fanout_node_def demo_env_def demo_task_def SUPERVISOR_FANOUT_DEPTH_def quick_result sa_success_def
        result_to_dict_def demo_result_def demo_branch_def no_update_def) (simp add: quick_env_def slow_env_def Let_def)
qed

lemma demo_branches: "list_all2 (branch 1) [demo_task] [demo_branch]"
  by (auto simp: branch_def intro: demo_fanout)

lemma demo_merge: "merge_branches demo2 [fst demo_branch] = demo3"
  by (simp add: merge_branches_def demo_branch_def apply_update_def no_update_def demo2_def demo3_def demo1_def
      fresh_research_def merge_subagent_results_def)

definition demo_log :: "activity list" where
  "demo_log = [emit_supervisor_iteration 1 1 (lit ''continue'') []] @ snd demo_branch"

lemma demo_run_reachable: "research_reachable demo_cfg [] (AtSupervisor, demo3, demo_log)"
proof -
  have "research_step demo_cfg (research_start []) (AtSupervisor, demo1, [])"
    unfolding research_start_def using research_step.Scope [OF demo_scope, of "[]"] by (simp add: demo_scope_state)
  moreover have "research_step demo_cfg (AtSupervisor, demo1, [])
      (AtFanout [demo_task], demo2, [emit_supervisor_iteration 1 1 (lit ''continue'') []])"
    using research_step.Plan [OF demo_plan, of "[]"]
    by (simp add: demo_plan_state after_supervisor_def fanout_edge_def demo2_def)
  moreover have "research_step demo_cfg (AtFanout [demo_task], demo2, [emit_supervisor_iteration 1 1 (lit ''continue'') []])
      (AtGather, demo3, demo_log)"
  proof -
    have "r_iteration demo2 = 1" by (simp add: demo2_def)
    with demo_branches have "list_all2 (branch (r_iteration demo2)) [demo_task] [demo_branch]" by simp
    from research_step.Fanout [OF this, of demo_cfg "[emit_supervisor_iteration 1 1 (lit ''continue'') []]"]
    show ?thesis by (simp add: demo_merge demo_log_def)
  qed
  moreover have "research_step demo_cfg (AtGather, demo3, demo_log) (AtSupervisor, demo3, demo_log)"
    using research_step.Gather [of demo_cfg demo3 demo_log]
    by (simp add: after_gather_def iteration_edge_def) (simp add: demo3_def demo2_def)
  ultimately show ?thesis unfolding research_reachable_def
    by (meson converse_rtranclp_into_rtranclp rtranclp.rtrancl_refl)
qed


section \<open>Witnesses\<close>

lemma dispatched_subagents_bounded_witness:
  "started_count demo_log = 1 \<and> started_count demo_log \<le> max_fanout demo_cfg * max 0 (max_iterations demo_cfg)"
proof -
  have "0 < max_fanout demo_cfg" by (simp add: max_fanout_def demo_cfg_def or_default_int_def)
  from dispatched_subagents_bounded [OF demo_run_reachable this] show ?thesis
    by (simp add: started_count_def demo_log_def demo_branch_def emit_supervisor_iteration_def
        emit_subagent_started_def emit_subagent_completed_def)
qed

text \<open>The second decision cannot be read, so the run goes to the writer.\<close>

lemma demo_second_plan:
  "supervisor_node demo_env demo_cfg demo3 =
     Update (no_update\<lparr>u_decision := Some Stop, u_subtasks := Some []\<rparr>)
       [emit_supervisor_iteration 1 0 (lit ''stop'') (lit ''decision_unparseable'')]"
proof -
  have "parse_supervisor_decision demo_loads (\<lambda>_. []) (Plain [120]) = (Stop, [], lit ''decision_unparseable'')"
    by (simp add: parse_supervisor_decision_def demo_text)
  moreover have "split_success_failure (r_results demo3) = (1, 0)"
    by (simp add: split_success_failure_def demo3_def demo_result_def)
  moreover have "r_iteration demo3 = 1" "r_results demo3 \<noteq> []" "max_iterations demo_cfg = 3"
    by (simp_all add: demo3_def demo2_def max_iterations_def demo_cfg_def or_default_int_def)
  ultimately show ?thesis
    by (simp add: supervisor_node_def Let_def) (simp add: demo_env_def no_update_def)
qed

lemma demo_next:
  "\<exists>s' l'. research_step demo_cfg (AtSupervisor, demo3, demo_log) (AtWriter, s', l')"
  using research_step.Plan [OF demo_second_plan, of demo_log]
  by (auto simp: after_supervisor_def fanout_edge_def no_update_def)

lemma successes_survive_witness:
  "\<exists>s' l'. research_step demo_cfg (AtSupervisor, demo3, demo_log) (AtWriter, s', l')
     \<and> map_of (r_results s') [49, 46, 48] = Some demo_result"
proof -
  obtain s' l' where step: "research_step demo_cfg (AtSupervisor, demo3, demo_log) (AtWriter, s', l')"
    using demo_next by blast
  have "map_of (r_results demo3) [49, 46, 48] = Some demo_result" "res_ok demo_result"
    by (simp_all add: demo3_def demo_result_def)
  from successes_survive [OF demo_run_reachable step this] step show ?thesis by blast
qed

lemma findings_are_append_only_witness:
  "\<exists>s' l'. research_step demo_cfg (AtSupervisor, demo3, demo_log) (AtWriter, s', l') \<and> quoted (r_findings s')"
proof -
  obtain s' l' where step: "research_step demo_cfg (AtSupervisor, demo3, demo_log) (AtWriter, s', l')"
    using demo_next by blast
  from findings_are_append_only [OF demo_run_reachable step] step show ?thesis by blast
qed

text \<open>Two branches of one round, in either order.\<close>

definition demo_task2 :: subtask where
  "demo_task2 = \<lparr>st_id = [49, 46, 49], st_prompt = [112]\<rparr>"

definition demo_env2 :: research_env where
  "demo_env2 = demo_env\<lparr>rv_sub := \<lambda>_. slow_env\<rparr>"

lemma demo_branch2: "\<exists>out. branch 1 demo_task2 out \<and> map_of (u_results (fst out)) [49, 46, 49] \<noteq> None"
proof -
  have "\<exists>u evs. fanout_node demo_env2 1 demo_task2 = Update u evs \<and> map_of (u_results u) [49, 46, 49] \<noteq> None"
    by (simp add: fanout_node_def demo_env2_def demo_env_def demo_task2_def SUPERVISOR_FANOUT_DEPTH_def
        run_subagent_def slow_outcome MAX_SUBAGENT_DEPTH_def sa_failure_def Let_def)
  then show ?thesis by (auto simp: branch_def)
qed

lemma branch_order_is_irrelevant_witness:
  "\<exists>out. map_of (r_results (merge_branches demo2 (map fst [out, demo_branch])))
       = map_of (r_results (merge_branches demo2 (map fst [demo_branch, out])))
     \<and> map_of (u_results (fst out)) [49, 46, 49] \<noteq> None"
proof -
  obtain out where out: "branch 1 demo_task2 out" "map_of (u_results (fst out)) [49, 46, 49] \<noteq> None"
    using demo_branch2 by blast
  then have "list_all2 (branch 1) [demo_task, demo_task2] [demo_branch, out]" using demo_branches by simp
  moreover have "mset [out, demo_branch] = mset [demo_branch, out]" by simp
  moreover have "distinct (map st_id [demo_task, demo_task2])" by (simp add: demo_task_def demo_task2_def)
  ultimately show ?thesis using branch_order_is_irrelevant [of 1 _ _ "[out, demo_branch]" demo2] out(2) by blast
qed

text \<open>
  One failed subtask named twice for redispatch: both entries get its id, so the two sub-agents
  share a key of the results and a checkpoint namespace.
\<close>

definition failed_once :: "(pystr \<times> sub_result) list" where
  "failed_once = [(round_id 1 0, \<lparr>res_ok = False, res_summary = [], res_reason = Some RError, res_subtask = round_id 1 0\<rparr>),
     (round_id 1 1, demo_result)]"

definition redispatch_twice :: "raw_subtask list" where
  "redispatch_twice = replicate 2 \<lparr>rs_prompt = [112], rs_subtask = round_id 1 0, rs_redispatch = True\<rparr>"

lemma minted_ids_distinct_iff_witness:
  "\<not> distinct (map st_id (mint_subtasks 2 failed_once redispatch_twice))"
proof -
  have "\<forall>j. map_of failed_once (round_id 2 j) = None"
    by (simp add: failed_once_def round_id_inject)
  then have "distinct (map st_id (mint_subtasks 2 failed_once redispatch_twice))
      \<longleftrightarrow> distinct (carried failed_once redispatch_twice)"
    by (intro minted_ids_distinct_iff) simp_all
  moreover have "round_id 1 0 \<noteq> []" by (simp add: round_id_def)
  then have "carried failed_once redispatch_twice = replicate 2 (round_id 1 0)"
    by (simp add: carried_def redispatch_twice_def carry_forward_id_def failed_once_def List.map_filter_simps
        numeral_2_eq_2)
  ultimately show ?thesis by (simp add: numeral_2_eq_2)
qed

text \<open>The brief after a clarification that the second assessment finds unnecessary.\<close>

lemma scope_drops_the_answer_witness:
  "scope_node demo_env demo_cfg (Some (Plain [97])) demo1 = scope_node demo_env demo_cfg None demo1
   \<and> clarification_enabled demo_cfg"
proof -
  have "fst (parse_assessment demo_loads (\<lambda>_. []) (Plain []))" by (simp add: parse_assessment_def demo_text)
  then show ?thesis
    using scope_drops_the_answer [of demo_env demo1 "(Plain [], None)" demo_cfg "Plain [97]"]
    by (simp add: demo_env_def clarification_enabled_def demo_cfg_def)
qed

lemma writer_cites_findings_only_witness:
  "\<exists>u evs body citations flags. writer_node demo_env demo3 = Update u evs
     \<and> u_output u = Some (body, citations, flags) \<and> map fl_id flags = map citation_id citations"
proof -
  obtain u evs where w: "writer_node demo_env demo3 = Update u evs"
    by (cases "writer_node demo_env demo3") (auto simp: writer_node_def demo_env_def Let_def split: prod.splits)
  from writer_cites_findings_only [OF w] w show ?thesis by blast
qed

lemma supervisor_raises_iff_witness:
  "supervisor_node demo_env demo_cfg (demo3\<lparr>r_results := take 1 failed_once\<rparr>) = Raise (all_failed_error 1 1)"
proof -
  have "r_iteration demo3 = 1" by (simp add: demo3_def demo2_def)
  then show ?thesis by (subst supervisor_raises_iff) (simp add: failed_once_def)
qed

lemma resolve_never_fabricates_witness:
  "resolve [120] [] = Unresolved [120] \<and> (case resolve [120] [] of Unresolved i \<Rightarrow> i = [120] | _ \<Rightarrow> False)"
  using resolve_never_fabricates [of "[120]" "[]"] by (simp add: resolve_def finding_index_def)

end
