(* ===== verification/PromptCache.thy ===== *)
theory PromptCache
  imports Messages Usage
begin

text \<open>
  \<open>executor/prompt_cache\<close>: per provider, where the cache markers of a request go and how the
  token usage is read from a reply; and the cost of a step that \<open>executor/graph.py\<close> computes from
  it.  Reply metadata is JSON; where the code takes \<open>int\<close> of a value that is no number, reading it
  raises (\<open>None\<close>).  The values on which the code calls \<open>get\<close> are objects.
\<close>

section \<open>Token usage\<close>

record token_usage =
  tu_input :: int
  tu_output :: int
  tu_creation :: int
  tu_read :: int

definition total_prompt_tokens :: "token_usage \<Rightarrow> int" where
  "total_prompt_tokens u = tu_input u + tu_creation u + tu_read u"

datatype strategy = Anthropic | Bedrock | OpenAI | Noop

definition get_strategy :: "string \<Rightarrow> strategy" where
  "get_strategy provider =
     (if provider = ''anthropic'' then Anthropic
      else if provider = ''bedrock'' then Bedrock
      else if provider = ''openai'' then OpenAI
      else Noop)"

text \<open>\<open>a or b or .. or {}\<close>, and \<open>int(a or b or .. or 0)\<close>.\<close>

definition object_of :: "json option list \<Rightarrow> json" where
  "object_of js = (case foldr or_else js None of Some j \<Rightarrow> if json_truthy j then j else JObj [] | None \<Rightarrow> JObj [])"

definition count_of :: "json option list \<Rightarrow> int option" where
  "count_of js = (case foldr or_else js None of Some j \<Rightarrow> if json_truthy j then py_int j else Some 0 | None \<Rightarrow> Some 0)"

definition make_usage :: "int option \<Rightarrow> int option \<Rightarrow> int option \<Rightarrow> int option \<Rightarrow> token_usage option" where
  "make_usage i out c r =
     (case (i, out, c, r) of
        (Some i, Some out, Some c, Some r) \<Rightarrow> Some \<lparr>tu_input = i, tu_output = out, tu_creation = c, tu_read = r\<rparr>
      | _ \<Rightarrow> None)"

definition noop_usage :: "json \<Rightarrow> token_usage option" where
  "noop_usage meta =
     (let u = object_of [json_get ''usage'' meta, json_get ''token_usage'' meta, json_get ''usage_metadata'' meta]
      in make_usage (count_of [json_get ''input_tokens'' u, json_get ''prompt_tokens'' u])
           (count_of [json_get ''output_tokens'' u, json_get ''completion_tokens'' u]) (Some 0) (Some 0))"

definition openai_usage :: "json \<Rightarrow> token_usage option" where
  "openai_usage meta =
     (let um = object_of [json_get ''usage_metadata'' meta];
          native = object_of [json_get ''token_usage'' meta, json_get ''usage'' meta];
          details = object_of [json_get ''input_token_details'' um];
          prompt_details = object_of [json_get ''prompt_tokens_details'' native];
          input = count_of [json_get ''input_tokens'' um, json_get ''prompt_tokens'' native, json_get ''input_tokens'' native];
          output = count_of [json_get ''output_tokens'' um, json_get ''completion_tokens'' native, json_get ''output_tokens'' native];
          cache_read = count_of [json_get ''cache_read'' details, json_get ''cached_tokens'' prompt_details]
      in case (input, cache_read) of
           (Some i, Some r) \<Rightarrow> make_usage (Some (if r \<noteq> 0 \<and> r \<le> i then i - r else i)) output (Some 0) (Some r)
         | _ \<Rightarrow> None)"

definition is_present :: "json option \<Rightarrow> bool" where
  "is_present j \<longleftrightarrow> j \<noteq> None \<and> j \<noteq> Some JNull"

definition anthropic_usage :: "json \<Rightarrow> token_usage option" where
  "anthropic_usage meta =
     (let um = object_of [json_get ''usage_metadata'' meta];
          native = object_of [json_get ''usage'' meta];
          details = object_of [json_get ''input_token_details'' um];
          creation = count_of [json_get ''cache_creation'' details, json_get ''cache_creation_input_tokens'' um,
            json_get ''cache_creation_input_tokens'' native];
          cache_read = count_of [json_get ''cache_read'' details, json_get ''cache_read_input_tokens'' um,
            json_get ''cache_read_input_tokens'' native];
          output = count_of [json_get ''output_tokens'' um, json_get ''output_tokens'' native]
      in case (creation, cache_read) of
           (Some c, Some r) \<Rightarrow>
             make_usage
               (if is_present (json_get ''input_tokens'' native) then count_of [json_get ''input_tokens'' native]
                else if is_present (json_get ''input_tokens'' um)
                then map_option (\<lambda>raw. max 0 (raw - c - r)) (count_of [json_get ''input_tokens'' um])
                else Some 0)
               output (Some c) (Some r)
         | _ \<Rightarrow> None)"

fun extract_token_usage :: "strategy \<Rightarrow> json \<Rightarrow> token_usage option" where
  "extract_token_usage Anthropic meta = anthropic_usage meta"
| "extract_token_usage Bedrock meta = anthropic_usage meta"
| "extract_token_usage OpenAI meta = openai_usage meta"
| "extract_token_usage Noop meta = noop_usage meta"

section \<open>The cost of a step\<close>

text \<open>
  The row of \<open>models\<close>, whose columns are nullable.  The query may fail, find no row or find one; the
  executor keeps the rates of a model until the next task starts (\<open>execute_task\<close> empties the cache).
\<close>

record model_row =
  rate_input :: "int option"
  rate_output :: "int option"
  rate_creation :: "int option"
  rate_read :: "int option"

type_synonym cost_rates = "int \<times> int \<times> int option \<times> int option"

type_synonym rate_cache = "pystr \<Rightarrow> cost_rates option"

datatype rate_query = QueryFails | Answer "model_row option"

definition queried_rates :: "rate_query \<Rightarrow> cost_rates" where
  "queried_rates q =
     (case q of
        QueryFails \<Rightarrow> (0, 0, None, None)
      | Answer None \<Rightarrow> (0, 0, None, None)
      | Answer (Some m) \<Rightarrow> (or_zero (rate_input m) None, or_zero (rate_output m) None, rate_creation m, rate_read m))"

definition get_model_cost_rates :: "rate_query \<Rightarrow> pystr \<Rightarrow> rate_cache \<Rightarrow> cost_rates \<times> rate_cache" where
  "get_model_cost_rates q model cache =
     (case cache model of
        Some rates \<Rightarrow> (rates, cache)
      | None \<Rightarrow> (queried_rates q, cache(model \<mapsto> queried_rates q)))"

definition usage_cost :: "cost_rates \<Rightarrow> token_usage \<Rightarrow> int" where
  "usage_cost rates u =
     (case rates of (ri, ro, rc, rr) \<Rightarrow>
        (tu_input u * ri + tu_output u * ro + tu_creation u * or_zero rc None + tu_read u * or_zero rr None)
          div 1000000)"

definition execution_metadata :: "pystr \<Rightarrow> token_usage \<Rightarrow> json" where
  "execution_metadata model u =
     JObj ([(''input_tokens'', JNum (tu_input u)), (''output_tokens'', JNum (tu_output u)), (''model'', JStr model)]
       @ (if tu_creation u \<noteq> 0 then [(''cache_creation_input_tokens'', JNum (tu_creation u))] else [])
       @ (if tu_read u \<noteq> 0 then [(''cache_read_input_tokens'', JNum (tu_read u))] else []))"

definition calculate_step_cost ::
  "rate_query \<Rightarrow> pystr \<Rightarrow> string option \<Rightarrow> json \<Rightarrow> rate_cache \<Rightarrow> (int \<times> json) option \<times> rate_cache" where
  "calculate_step_cost q model provider meta cache =
     (case extract_token_usage (case provider of Some p \<Rightarrow> get_strategy p | None \<Rightarrow> Noop) meta of
        None \<Rightarrow> (None, cache)
      | Some u \<Rightarrow>
          let (rates, cache') = get_model_cost_rates q model cache
          in (Some (usage_cost rates u, execution_metadata model u), cache'))"

text \<open>The steps between two task starts, each with what the rate query would answer at that time.\<close>

fun step_costs ::
  "(rate_query \<times> pystr \<times> string option \<times> json) list \<Rightarrow> rate_cache \<Rightarrow> (int \<times> json) option list \<times> rate_cache" where
  "step_costs [] cache = ([], cache)"
| "step_costs ((q, model, provider, meta) # steps) cache =
     (let (c, cache') = calculate_step_cost q model provider meta cache;
          (cs, cache'') = step_costs steps cache'
      in (c # cs, cache''))"

text \<open>
  The metadata the supervisor path bills, \<open>{"usage_metadata": dict(step_usage)}\<close>.  A usage has only
  the four keys that \<open>usage_from_message\<close> writes.
\<close>

definition USAGE_KEYS :: "string list" where
  "USAGE_KEYS = [''input_tokens'', ''output_tokens'', ''cache_creation_input_tokens'', ''cache_read_input_tokens'']"

definition usage_json :: "usage \<Rightarrow> json" where
  "usage_json u = JObj (List.map_filter (\<lambda>k. map_option (\<lambda>v. (k, JNum v)) (u k)) USAGE_KEYS)"

definition billed_metadata :: "usage \<Rightarrow> json" where
  "billed_metadata u = JObj [(''usage_metadata'', usage_json u)]"

text \<open>The metadata of one reply as LangChain hands it over, which the ReAct path bills.\<close>

definition optional_field :: "string \<Rightarrow> int option \<Rightarrow> (string \<times> json) list" where
  "optional_field k v = (case v of None \<Rightarrow> [] | Some n \<Rightarrow> [(k, JNum n)])"

definition metadata_json :: "usage_metadata \<Rightarrow> json" where
  "metadata_json um =
     JObj (optional_field ''input_tokens'' (um_input um) @ optional_field ''output_tokens'' (um_output um)
       @ optional_field ''total_tokens'' (um_total um)
       @ (case um_details um of None \<Rightarrow> []
          | Some (c, r) \<Rightarrow> [(''input_token_details'', JObj (optional_field ''cache_creation'' c @ optional_field ''cache_read'' r))])
       @ optional_field ''cache_creation_input_tokens'' (um_cache_creation um)
       @ optional_field ''cache_read_input_tokens'' (um_cache_read um))"

definition reply_metadata :: "usage_metadata \<Rightarrow> json" where
  "reply_metadata um = JObj [(''usage_metadata'', metadata_json um)]"


section \<open>Reading the accumulated usage\<close>

lemma usage_json_get:
  "json_get ''input_tokens'' (usage_json u) = map_option JNum (u ''input_tokens'')"
  "json_get ''output_tokens'' (usage_json u) = map_option JNum (u ''output_tokens'')"
  "json_get ''cache_creation_input_tokens'' (usage_json u) = map_option JNum (u ''cache_creation_input_tokens'')"
  "json_get ''cache_read_input_tokens'' (usage_json u) = map_option JNum (u ''cache_read_input_tokens'')"
  "json_get ''input_token_details'' (usage_json u) = None" "json_get ''prompt_tokens'' (usage_json u) = None"
  "json_get ''completion_tokens'' (usage_json u) = None"
  by (cases "u ''input_tokens''"; cases "u ''output_tokens''"; cases "u ''cache_creation_input_tokens''";
      cases "u ''cache_read_input_tokens''";
      simp add: usage_json_def USAGE_KEYS_def json_get_def List.map_filter_simps)+

lemma get_empty [simp]: "json_get k (JObj []) = None"
  by (simp add: json_get_def)

lemma object_of_usage [simp]: "json_get k (object_of [Some (usage_json u)]) = json_get k (usage_json u)"
proof (cases "json_truthy (usage_json u)")
  case False
  then have "usage_json u = JObj []" by (auto simp: usage_json_def json_truthy_def)
  then show ?thesis by (simp add: object_of_def or_else_def json_truthy_def)
qed (simp add: object_of_def or_else_def)

lemma object_of_none [simp]: "object_of [None] = JObj []" "object_of [None, None] = JObj []"
  by (simp_all add: object_of_def or_else_def)

lemma count_of_none [simp]: "count_of [] = Some 0" "count_of (None # js) = count_of js"
  by (simp_all add: count_of_def or_else_def)

lemma count_of_num [simp]: "count_of (map_option JNum n # js) =
    (case n of Some x \<Rightarrow> if x \<noteq> 0 then Some x else count_of js | None \<Rightarrow> count_of js)"
  "count_of (Some (JNum x) # js) = (if x \<noteq> 0 then Some x else count_of js)"
  by (auto simp: count_of_def or_else_def json_truthy_def py_int_def split: option.split)

lemma counter_count: "(case u k of Some x \<Rightarrow> if x \<noteq> 0 then Some x else Some 0 | None \<Rightarrow> Some 0) = Some (counter u k)"
  by (auto simp: counter_def split: option.split)

lemma billed_get:
  "json_get ''usage_metadata'' (billed_metadata u) = Some (usage_json u)" "json_get ''usage'' (billed_metadata u) = None"
  "json_get ''token_usage'' (billed_metadata u) = None"
  by (simp_all add: billed_metadata_def json_get_def)

definition well_counted :: "usage \<Rightarrow> bool" where
  "well_counted u \<longleftrightarrow>
     0 \<le> counter u ''cache_creation_input_tokens'' \<and> 0 \<le> counter u ''cache_read_input_tokens''
     \<and> counter u ''cache_creation_input_tokens'' + counter u ''cache_read_input_tokens'' \<le> counter u ''input_tokens''"

lemma anthropic_billed:
  assumes "0 \<le> counter u ''cache_creation_input_tokens''" "0 \<le> counter u ''cache_read_input_tokens''"
  shows "anthropic_usage (billed_metadata u) = Some
    \<lparr>tu_input = max 0 (counter u ''input_tokens'' - counter u ''cache_creation_input_tokens''
                 - counter u ''cache_read_input_tokens''),
     tu_output = counter u ''output_tokens'', tu_creation = counter u ''cache_creation_input_tokens'',
     tu_read = counter u ''cache_read_input_tokens''\<rparr>"
  using assms
  by (cases "u ''input_tokens''")
    (simp_all add: anthropic_usage_def Let_def billed_get usage_json_get counter_count is_present_def make_usage_def
      counter_def [of u "''input_tokens''"] cong: option.case_cong if_cong)

lemma openai_billed:
  "openai_usage (billed_metadata u) = Some
    \<lparr>tu_input = counter u ''input_tokens'', tu_output = counter u ''output_tokens'', tu_creation = 0, tu_read = 0\<rparr>"
  by (simp add: openai_usage_def Let_def billed_get usage_json_get counter_count make_usage_def cong: option.case_cong if_cong)

lemma noop_billed:
  "noop_usage (billed_metadata u) = Some
    \<lparr>tu_input = counter u ''input_tokens'', tu_output = counter u ''output_tokens'', tu_creation = 0, tu_read = 0\<rparr>"
proof -
  have "object_of [None, None, Some (usage_json u)] = object_of [Some (usage_json u)]"
    by (simp add: object_of_def or_else_def)
  then show ?thesis
    by (simp add: noop_usage_def Let_def billed_get usage_json_get counter_count make_usage_def cong: option.case_cong if_cong)
qed

section \<open>Reading a reply\<close>

lemma metadata_get:
  "json_get ''input_tokens'' (metadata_json um) = map_option JNum (um_input um)"
  "json_get ''output_tokens'' (metadata_json um) = map_option JNum (um_output um)"
  "json_get ''cache_creation_input_tokens'' (metadata_json um) = map_option JNum (um_cache_creation um)"
  "json_get ''cache_read_input_tokens'' (metadata_json um) = map_option JNum (um_cache_read um)"
  "json_get ''prompt_tokens'' (metadata_json um) = None" "json_get ''completion_tokens'' (metadata_json um) = None"
  "json_get ''input_token_details'' (metadata_json um) =
     map_option (\<lambda>(c, r). JObj (optional_field ''cache_creation'' c @ optional_field ''cache_read'' r)) (um_details um)"
proof -
  have field: "map_of (optional_field k v) k' = (if k = k' then map_option JNum v else None)" for k k' v
    by (simp add: optional_field_def split: option.split)
  have details: "map_of (case um_details um of None \<Rightarrow> [] | Some (c, r) \<Rightarrow>
        [(''input_token_details'', JObj (optional_field ''cache_creation'' c @ optional_field ''cache_read'' r))]) k
      = (if k = ''input_token_details''
         then map_option (\<lambda>(c, r). JObj (optional_field ''cache_creation'' c @ optional_field ''cache_read'' r)) (um_details um)
         else None)" for k
    by (auto split: option.split prod.split)
  show "json_get ''input_tokens'' (metadata_json um) = map_option JNum (um_input um)"
    "json_get ''output_tokens'' (metadata_json um) = map_option JNum (um_output um)"
    "json_get ''cache_creation_input_tokens'' (metadata_json um) = map_option JNum (um_cache_creation um)"
    "json_get ''cache_read_input_tokens'' (metadata_json um) = map_option JNum (um_cache_read um)"
    "json_get ''prompt_tokens'' (metadata_json um) = None" "json_get ''completion_tokens'' (metadata_json um) = None"
    "json_get ''input_token_details'' (metadata_json um) =
       map_option (\<lambda>(c, r). JObj (optional_field ''cache_creation'' c @ optional_field ''cache_read'' r)) (um_details um)"
    by (simp_all add: metadata_json_def json_get_def map_add_def field details split: option.splits)
qed


lemma reply_get:
  "json_get ''usage_metadata'' (reply_metadata um) = Some (metadata_json um)" "json_get ''usage'' (reply_metadata um) = None"
  "json_get ''token_usage'' (reply_metadata um) = None"
  by (simp_all add: reply_metadata_def json_get_def)

lemma object_of_obj: "json_get k (object_of [Some (JObj kvs)]) = json_get k (JObj kvs)"
  by (cases kvs) (simp_all add: object_of_def or_else_def json_truthy_def)

lemma object_of_metadata [simp]: "json_get k (object_of [Some (metadata_json um)]) = json_get k (metadata_json um)"
  unfolding metadata_json_def by (rule object_of_obj)

lemma object_of_details:
  "json_get k (object_of [map_option (\<lambda>(c, r). JObj (optional_field ''cache_creation'' c @ optional_field ''cache_read'' r)) d])
     = (if k = ''cache_creation'' then map_option JNum (Option.bind d fst)
        else if k = ''cache_read'' then map_option JNum (Option.bind d snd) else None)"
proof (cases d)
  case (Some p)
  obtain c r where "p = (c, r)" by fastforce
  with Some show ?thesis
    by (simp add: object_of_obj) (auto simp: json_get_def optional_field_def split: option.splits)
qed simp

lemma count_or_zero:
  "count_of [map_option JNum a, map_option JNum b] = Some (or_zero a b)" "count_of [map_option JNum a] = Some (or_zero a None)"
  "count_of [map_option JNum a, map_option JNum b, None] = Some (or_zero a b)"
  "count_of [map_option JNum a, None] = Some (or_zero a None)"
  by (auto simp: or_zero_def split: option.split)

lemma usage_of_reply:
  "counter (usage_from_message (Some um)) ''input_tokens'' = or_zero (um_input um) None"
  "counter (usage_from_message (Some um)) ''output_tokens'' = or_zero (um_output um) None"
  "counter (usage_from_message (Some um)) ''cache_creation_input_tokens''
     = or_zero (Option.bind (um_details um) fst) (um_cache_creation um)"
  "counter (usage_from_message (Some um)) ''cache_read_input_tokens''
     = or_zero (Option.bind (um_details um) snd) (um_cache_read um)"
  by (simp_all add: usage_from_message_def Let_def counter_def put_nonzero_def)

text \<open>
  For every other provider the two billing paths agree: the usage accumulated from
  one reply and wrapped again is read by the strategy exactly like the reply itself.
\<close>

theorem accumulated_usage_reads_like_reply:
  assumes "s \<noteq> OpenAI"
    and "0 \<le> counter (usage_from_message (Some um)) ''cache_creation_input_tokens''"
    and "0 \<le> counter (usage_from_message (Some um)) ''cache_read_input_tokens''"
  shows "extract_token_usage s (billed_metadata (usage_from_message (Some um))) = extract_token_usage s (reply_metadata um)"
proof -
  have absent: "max 0 (or_zero (um_input um) None - c - r) = 0"
    if "\<not> is_present (map_option JNum (um_input um))" "0 \<le> c" "0 \<le> r" for c r
    using that by (auto simp: is_present_def or_zero_def split: option.split)
  have "anthropic_usage (reply_metadata um) = anthropic_usage (billed_metadata (usage_from_message (Some um)))"
    unfolding anthropic_billed [OF assms(2,3)]
    unfolding usage_of_reply anthropic_usage_def Let_def reply_get object_of_none get_empty object_of_metadata metadata_get
      object_of_details
    using absent [OF _ assms(2,3) [unfolded usage_of_reply]]
    by (simp add: count_or_zero make_usage_def is_present_def [of None] del: count_of_num)
  moreover have "noop_usage (reply_metadata um) = noop_usage (billed_metadata (usage_from_message (Some um)))"
  proof -
    have "object_of [None, None, Some (metadata_json um)] = object_of [Some (metadata_json um)]"
      by (simp add: object_of_def or_else_def)
    then show ?thesis unfolding noop_billed unfolding noop_usage_def Let_def reply_get
      by (simp add: metadata_get usage_of_reply make_usage_def count_or_zero del: count_of_num)
  qed
  ultimately show ?thesis using assms(1) by (cases s) simp_all
qed

text \<open>
  C28. A cache hit of OpenAI is billed differently on the two paths: the ReAct path reads
  the cached tokens from the reply, but the Deep Research path bills the flattened usage,
  from which the OpenAI strategy reads none, so cached tokens are charged at the full
  input rate.
\<close>

theorem openai_cache_hits_billed_in_full:
  assumes "um_input um = Some i" "um_details um = Some (c, Some r)" "0 < r" "r \<le> i"
  shows "extract_token_usage OpenAI (reply_metadata um) =
      Some \<lparr>tu_input = i - r, tu_output = or_zero (um_output um) None, tu_creation = 0, tu_read = r\<rparr>
    \<and> extract_token_usage OpenAI (billed_metadata (usage_from_message (Some um))) =
      Some \<lparr>tu_input = i, tu_output = or_zero (um_output um) None, tu_creation = 0, tu_read = 0\<rparr>"
proof
  show "extract_token_usage OpenAI (billed_metadata (usage_from_message (Some um))) =
      Some \<lparr>tu_input = i, tu_output = or_zero (um_output um) None, tu_creation = 0, tu_read = 0\<rparr>"
    using assms by (simp add: openai_billed usage_of_reply or_zero_def)
  have "(case um_output um of Some x \<Rightarrow> if x \<noteq> 0 then Some x else Some 0 | None \<Rightarrow> Some 0)
      = Some (or_zero (um_output um) None)"
    by (auto simp: or_zero_def split: option.split)
  then show "extract_token_usage OpenAI (reply_metadata um) =
      Some \<lparr>tu_input = i - r, tu_output = or_zero (um_output um) None, tu_creation = 0, tu_read = r\<rparr>"
    using assms unfolding extract_token_usage.simps openai_usage_def Let_def reply_get object_of_none get_empty
      object_of_metadata metadata_get object_of_details
    by (simp add: make_usage_def cong: option.case_cong if_cong)
qed

text \<open>
  Billing the merged usage of two replies costs at most one microdollar more than billing them
  one by one, and never less.
\<close>

theorem merged_usage_bills_within_one:
  assumes "well_counted a" "well_counted b" "s \<noteq> OpenAI"
    and "extract_token_usage s (billed_metadata a) = Some ua" "extract_token_usage s (billed_metadata b) = Some ub"
  shows "\<exists>u. extract_token_usage s (billed_metadata (merge_usage a b)) = Some u
    \<and> usage_cost rates ua + usage_cost rates ub \<le> usage_cost rates u
    \<and> usage_cost rates u \<le> usage_cost rates ua + usage_cost rates ub + 1"
proof -
  let ?u = "\<lparr>tu_input = tu_input ua + tu_input ub, tu_output = tu_output ua + tu_output ub,
    tu_creation = tu_creation ua + tu_creation ub, tu_read = tu_read ua + tu_read ub\<rparr>"
  have merged: "extract_token_usage s (billed_metadata (merge_usage a b)) = Some ?u"
  proof (cases "s = Noop")
    case True
    with assms(4,5) show ?thesis by (auto simp: noop_billed)
  next
    case False
    then have s: "extract_token_usage s meta = anthropic_usage meta" for meta using assms(3) by (cases s) simp_all
    have "max 0 (counter a ''input_tokens'' + counter b ''input_tokens''
          - (counter a ''cache_creation_input_tokens'' + counter b ''cache_creation_input_tokens'')
          - (counter a ''cache_read_input_tokens'' + counter b ''cache_read_input_tokens''))
        = max 0 (counter a ''input_tokens'' - counter a ''cache_creation_input_tokens'' - counter a ''cache_read_input_tokens'')
        + max 0 (counter b ''input_tokens'' - counter b ''cache_creation_input_tokens'' - counter b ''cache_read_input_tokens'')"
      using assms(1,2) by (simp add: well_counted_def)
    with assms(1,2,4,5) show ?thesis by (auto simp: s anthropic_billed well_counted_def)
  qed
  obtain ri ro rc rr where rates: "rates = (ri, ro, rc, rr)" by (cases rates)
  let ?raw = "\<lambda>u. tu_input u * ri + tu_output u * ro + tu_creation u * or_zero rc None + tu_read u * or_zero rr None"
  have "?raw ?u = ?raw ua + ?raw ub" by (simp add: algebra_simps)
  moreover have "x div 1000000 + y div 1000000 \<le> (x + y) div 1000000
      \<and> (x + y) div 1000000 \<le> x div 1000000 + y div 1000000 + 1" for x y :: int by linarith
  ultimately show ?thesis using merged by (auto simp: usage_cost_def rates)
qed

section \<open>Rates are asked for once\<close>

lemma cached_rates_stay:
  assumes "cache model = Some rates"
  shows "snd (calculate_step_cost q m provider meta cache) model = Some rates"
  using assms by (auto simp: calculate_step_cost_def get_model_cost_rates_def split: option.split)

lemma cached_rates_cost:
  "cache model = Some rates \<Longrightarrow> fst (calculate_step_cost q model provider meta cache) =
     map_option (\<lambda>u. (usage_cost rates u, execution_metadata model u))
       (extract_token_usage (case provider of Some p \<Rightarrow> get_strategy p | None \<Rightarrow> Noop) meta)"
  by (simp add: calculate_step_cost_def get_model_cost_rates_def split: option.split)

text \<open>
  The executor bills every step of a model with the rates of its first query,
  whatever the models table holds later; when that query failed, every later step of the
  model costs nothing.
\<close>

theorem first_rate_query_decides:
  assumes "cache model = Some rates \<or> cache model = None \<and> rates = queried_rates q"
    and "extract_token_usage (case provider of Some p \<Rightarrow> get_strategy p | None \<Rightarrow> Noop) meta = Some u"
    and "steps = (q, model, provider, meta) # rest" "i < length steps" "steps ! i = (q', model, provider', meta')"
  shows "fst (step_costs steps cache) ! i =
      map_option (\<lambda>v. (usage_cost rates v, execution_metadata model v))
        (extract_token_usage (case provider' of Some p \<Rightarrow> get_strategy p | None \<Rightarrow> Noop) meta')
    \<and> (q = QueryFails \<and> cache model = None \<longrightarrow> usage_cost rates v = 0)"
proof -
  let ?cost = "\<lambda>provider meta. map_option (\<lambda>v. (usage_cost rates v, execution_metadata model v))
    (extract_token_usage (case provider of Some p \<Rightarrow> get_strategy p | None \<Rightarrow> Noop) meta)"
  have later: "fst (step_costs steps cache) ! i = ?cost provider meta"
    if "cache model = Some rates" "i < length steps" "steps ! i = (q, model, provider, meta)" for steps cache i q provider meta
    using that
  proof (induction steps arbitrary: cache i)
    case (Cons step steps)
    obtain q0 m0 p0 t0 where step: "step = (q0, m0, p0, t0)" by (cases step)
    show ?case
    proof (cases i)
      case 0
      with Cons.prems show ?thesis by (auto simp: step split_beta Let_def cached_rates_cost)
    next
      case (Suc j)
      with Cons show ?thesis using cached_rates_stay [of cache model rates q0 m0 p0 t0]
        by (simp add: step split_beta Let_def)
    qed
  qed simp
  have first: "snd (calculate_step_cost q model provider meta cache) model = Some rates"
    "fst (calculate_step_cost q model provider meta cache) = ?cost provider meta"
    using assms(1,2) by (auto simp: calculate_step_cost_def get_model_cost_rates_def)
  have "fst (step_costs steps cache) ! i = ?cost provider' meta'"
  proof (cases i)
    case 0
    with assms(3,5) first(2) show ?thesis by (simp add: split_beta Let_def)
  next
    case (Suc j)
    with assms(3-5) later [where cache = "snd (calculate_step_cost q model provider meta cache)" and i = j and steps = rest, OF first(1)] show ?thesis by (simp add: split_beta Let_def)
  qed
  moreover have "usage_cost rates v = 0" if "q = QueryFails" "cache model = None"
    using that assms(1) by (simp add: queried_rates_def usage_cost_def or_zero_def)
  ultimately show ?thesis by blast
qed

section \<open>Witnesses\<close>

definition demo_um :: usage_metadata where
  "demo_um = \<lparr>um_input = Some 10, um_output = Some 2, um_total = None, um_details = Some (Some 3, Some 4),
     um_cache_creation = None, um_cache_read = None\<rparr>"

lemma demo_counts:
  "counter (usage_from_message (Some demo_um)) ''input_tokens'' = 10"
  "counter (usage_from_message (Some demo_um)) ''output_tokens'' = 2"
  "counter (usage_from_message (Some demo_um)) ''cache_creation_input_tokens'' = 3"
  "counter (usage_from_message (Some demo_um)) ''cache_read_input_tokens'' = 4"
  by (simp_all add: usage_of_reply demo_um_def or_zero_def)

lemma demo_billed:
  "extract_token_usage Anthropic (billed_metadata (usage_from_message (Some demo_um)))
     = Some \<lparr>tu_input = 3, tu_output = 2, tu_creation = 3, tu_read = 4\<rparr>"
  by (simp add: anthropic_billed demo_counts)

theorem accumulated_usage_reads_like_reply_witness:
  "extract_token_usage Anthropic (reply_metadata demo_um) = Some \<lparr>tu_input = 3, tu_output = 2, tu_creation = 3, tu_read = 4\<rparr>"
  using accumulated_usage_reads_like_reply [of Anthropic demo_um] demo_billed by (simp add: demo_counts)

theorem openai_cache_hits_billed_in_full_witness:
  "extract_token_usage OpenAI (reply_metadata demo_um) \<noteq>
     extract_token_usage OpenAI (billed_metadata (usage_from_message (Some demo_um)))"
  using openai_cache_hits_billed_in_full [of demo_um 10 "Some 3" 4] by (simp add: demo_um_def)

theorem merged_usage_bills_within_one_witness:
  "\<exists>u. extract_token_usage Anthropic (billed_metadata
        (merge_usage (usage_from_message (Some demo_um)) (usage_from_message (Some demo_um)))) = Some u
     \<and> 84 \<le> usage_cost (3000000, 15000000, Some 1000000, None) u \<and> usage_cost (3000000, 15000000, Some 1000000, None) u \<le> 85"
  using merged_usage_bills_within_one [OF _ _ _ demo_billed demo_billed, of "(3000000, 15000000, Some 1000000, None)"]
  by (simp add: well_counted_def demo_counts usage_cost_def or_zero_def)

definition demo_steps :: "(rate_query \<times> pystr \<times> string option \<times> json) list" where
  "demo_steps =
     (let meta = billed_metadata (usage_from_message (Some demo_um)) in
      [(QueryFails, [1], Some ''anthropic'', meta),
       (Answer (Some \<lparr>rate_input = Some 3000000, rate_output = Some 15000000, rate_creation = None, rate_read = None\<rparr>),
        [1], Some ''anthropic'', meta)])"

theorem first_rate_query_decides_witness:
  "fst (step_costs demo_steps Map.empty) ! 1
     = Some (0, execution_metadata [1] \<lparr>tu_input = 3, tu_output = 2, tu_creation = 3, tu_read = 4\<rparr>)"
proof -
  let ?meta = "billed_metadata (usage_from_message (Some demo_um))"
  let ?row = "Answer (Some \<lparr>rate_input = Some 3000000, rate_output = Some 15000000, rate_creation = None, rate_read = None\<rparr>)"
  have strategy: "(case Some ''anthropic'' of Some p \<Rightarrow> get_strategy p | None \<Rightarrow> Noop) = Anthropic"
    by (simp add: get_strategy_def)
  have steps: "demo_steps = (QueryFails, [1], Some ''anthropic'', ?meta) # [(?row, [1], Some ''anthropic'', ?meta)]"
    by (simp add: demo_steps_def Let_def)
  have "1 < length demo_steps" "demo_steps ! 1 = (?row, [1], Some ''anthropic'', ?meta)"
    by (simp_all add: steps)
  from first_rate_query_decides [OF _ _ steps this, where cache = Map.empty
      and rates = "queried_rates QueryFails"
      and v = "\<lparr>tu_input = 3, tu_output = 2, tu_creation = 3, tu_read = 4\<rparr>", unfolded strategy demo_billed]
  show ?thesis by simp
qed

end
