(* ===== verification/Plan.thy ===== *)
theory Plan
  imports Messages Tokens
begin

text \<open>
  The planning primitive: \<open>tools/plan_tools.py\<close> (the \<open>plan_write\<close> tool) and
  \<open>executor/plan_injection.py\<close> (the block that reminds the agent of its plan).  An item is the
  dictionary the model sends.  \<open>plan_item_schema\<close> is what the pydantic model \<open>PlanItem\<close> accepts,
  and its dump: three text fields with length bounds and an enumerated status, other keys dropped.
  A rejection carries the data of its message.
\<close>

section \<open>The tool\<close>

definition PLAN_MAX_ITEMS :: nat where "PLAN_MAX_ITEMS = 50"

definition PLAN_MAX_TITLE_CHARS :: nat where "PLAN_MAX_TITLE_CHARS = 200"

definition VALID_STATUSES :: "pystr list" where
  "VALID_STATUSES = [lit ''pending'', lit ''in_progress'', lit ''completed'']"

type_synonym plan_dict = "(string \<times> json) list"

datatype plan_error =
    TooManyItems nat
  | BadId nat "json option"
  | DuplicateId pystr
  | BadTitle nat "json option"
  | TitleTooLong nat nat
  | StatusNotText nat "json option"
  | InvalidStatus nat pystr

definition plan_item_schema :: "json \<Rightarrow> plan_dict option" where
  "plan_item_schema j =
     (case (json_get ''id'' j, json_get ''title'' j, json_get ''status'' j) of
        (Some (JStr i), Some (JStr t), Some (JStr s)) \<Rightarrow>
          if i \<noteq> [] \<and> t \<noteq> [] \<and> length t \<le> PLAN_MAX_TITLE_CHARS \<and> s \<in> set VALID_STATUSES
          then Some [(''id'', JStr i), (''title'', JStr t), (''status'', JStr s)] else None
      | _ \<Rightarrow> None)"

definition check_title :: "nat \<Rightarrow> plan_dict \<Rightarrow> plan_error option" where
  "check_title i item =
     (case map_of item ''title'' of
        Some (JStr t) \<Rightarrow>
          if t = [] then Some (BadTitle i (Some (JStr t)))
          else if PLAN_MAX_TITLE_CHARS < length t then Some (TitleTooLong i (length t)) else None
      | other \<Rightarrow> Some (BadTitle i other))"

definition check_status :: "nat \<Rightarrow> plan_dict \<Rightarrow> plan_error option" where
  "check_status i item =
     (case map_of item ''status'' of
        Some (JStr s) \<Rightarrow> if s \<in> set VALID_STATUSES then None else Some (InvalidStatus i s)
      | other \<Rightarrow> Some (StatusNotText i other))"

fun validate_from :: "nat \<Rightarrow> pystr list \<Rightarrow> plan_dict list \<Rightarrow> plan_error option" where
  "validate_from i seen [] = None"
| "validate_from i seen (item # items) =
     (case map_of item ''id'' of
        Some (JStr k) \<Rightarrow>
          if k = [] then Some (BadId i (Some (JStr k)))
          else if k \<in> set seen then Some (DuplicateId k)
          else
            (case check_title i item of
               Some err \<Rightarrow> Some err
             | None \<Rightarrow>
                 (case check_status i item of
                    Some err \<Rightarrow> Some err
                  | None \<Rightarrow> validate_from (Suc i) (k # seen) items))
      | other \<Rightarrow> Some (BadId i other))"

definition validate_plan_items :: "plan_dict list \<Rightarrow> plan_error option" where
  "validate_plan_items items =
     (if PLAN_MAX_ITEMS < length items then Some (TooManyItems (length items)) else validate_from 0 [] items)"

definition plan_confirmation :: "pystr \<Rightarrow> nat \<Rightarrow> message" where
  "plan_confirmation call_id n =
     (plain_message ToolRole (lit ''Plan updated: '' @ dec_nat n @ lit '' item(s) written.''))\<lparr>tool_call_id := call_id\<rparr>"

definition plan_write_handler :: "plan_dict list \<Rightarrow> pystr \<Rightarrow> plan_error + message \<times> plan_dict list" where
  "plan_write_handler items call_id =
     (case validate_plan_items items of
        Some err \<Rightarrow> Inl err
      | None \<Rightarrow> Inr (plan_confirmation call_id (length items), items))"

text \<open>A call as the model makes it: the schema first, then the handler.\<close>

datatype plan_rejection = SchemaError | PlanWriteError plan_error

definition plan_write :: "json list \<Rightarrow> pystr \<Rightarrow> plan_rejection + message \<times> plan_dict list" where
  "plan_write items call_id =
     (case those (map plan_item_schema items) of
        None \<Rightarrow> Inl SchemaError
      | Some plan \<Rightarrow>
          (case plan_write_handler plan call_id of
             Inl err \<Rightarrow> Inl (PlanWriteError err)
           | Inr out \<Rightarrow> Inr out))"

section \<open>The block\<close>

definition PLAN_BLOCK_KWARG :: string where "PLAN_BLOCK_KWARG = ''plan_block''"

definition PLAN_PREAMBLE :: pystr where
  "PLAN_PREAMBLE = lit ''Current plan '' @ [8212] @ lit '' your own to-do list, maintained with the plan_write tool. ''
     @ lit ''Keep exactly one item in_progress. As you make progress, rewrite the plan with plan_write to keep it current.''"

definition plan_line :: "(json \<Rightarrow> pystr) \<Rightarrow> json \<Rightarrow> pystr option" where
  "plan_line show item =
     (case item of
        JObj kvs \<Rightarrow>
          let title = (case map_of kvs ''title'' of
                Some j \<Rightarrow> if json_truthy j then (case j of JStr s \<Rightarrow> s | _ \<Rightarrow> show j) else []
              | None \<Rightarrow> [])
          in Some (if map_of kvs ''status'' = Some (JStr (lit ''completed'')) then lit ''- [x] '' @ title
                   else if map_of kvs ''status'' = Some (JStr (lit ''in_progress''))
                   then lit ''- [ ] '' @ title @ lit '' (in progress)''
                   else lit ''- [ ] '' @ title)
      | _ \<Rightarrow> None)"

definition render_plan_block :: "(json \<Rightarrow> pystr) \<Rightarrow> json list \<Rightarrow> pystr" where
  "render_plan_block show items = join [NL] ([PLAN_PREAMBLE, []] @ List.map_filter (plan_line show) items)"

definition make_plan_block_message :: "(json \<Rightarrow> pystr) \<Rightarrow> json list \<Rightarrow> message" where
  "make_plan_block_message show items =
     (plain_message Human (render_plan_block show items))\<lparr>kwargs := [(PLAN_BLOCK_KWARG, JBool True)]\<rparr>"

definition is_plan_block :: "message \<Rightarrow> bool" where
  "is_plan_block m \<longleftrightarrow> kwarg_true PLAN_BLOCK_KWARG m"

definition inject_plan_block :: "(json \<Rightarrow> pystr) \<Rightarrow> message list \<Rightarrow> json list \<Rightarrow> message list" where
  "inject_plan_block show ms items = (if items = [] then ms else ms @ [make_plan_block_message show items])"

definition plan_block_reserved_tokens ::
  "(json \<Rightarrow> pystr) \<Rightarrow> json list \<Rightarrow> (message list \<Rightarrow> nat option) \<Rightarrow> nat option" where
  "plan_block_reserved_tokens show items estimate =
     (if items = [] then Some 0 else estimate [make_plan_block_message show items])"

section \<open>What is accepted\<close>

definition item_ok :: "plan_dict \<Rightarrow> bool" where
  "item_ok item \<longleftrightarrow>
     (\<exists>i t s. item = [(''id'', JStr i), (''title'', JStr t), (''status'', JStr s)]
        \<and> i \<noteq> [] \<and> t \<noteq> [] \<and> length t \<le> PLAN_MAX_TITLE_CHARS \<and> s \<in> set VALID_STATUSES)"

definition plan_ok :: "plan_dict list \<Rightarrow> bool" where
  "plan_ok plan \<longleftrightarrow> length plan \<le> PLAN_MAX_ITEMS \<and> list_all item_ok plan
     \<and> distinct (map (\<lambda>item. map_of item ''id'') plan)"

lemma schema_dump_ok: "plan_item_schema j = Some item \<Longrightarrow> item_ok item"
  by (auto simp: plan_item_schema_def item_ok_def split: option.splits json.splits if_splits)

lemma schema_of_dump: "item_ok item \<Longrightarrow> plan_item_schema (JObj item) = Some item"
  by (auto simp: item_ok_def plan_item_schema_def json_get_def)

lemma validate_typed:
  assumes "list_all item_ok items"
  shows "validate_from i seen items = None \<longleftrightarrow>
    distinct (map (\<lambda>item. map_of item ''id'') items)
    \<and> (\<forall>item \<in> set items. \<forall>k \<in> set seen. map_of item ''id'' \<noteq> Some (JStr k))"
  using assms
proof (induction items arbitrary: i seen)
  case (Cons item items)
  then obtain k t s where item: "item = [(''id'', JStr k), (''title'', JStr t), (''status'', JStr s)]"
    "k \<noteq> []" "t \<noteq> []" "length t \<le> PLAN_MAX_TITLE_CHARS" "s \<in> set VALID_STATUSES"
    by (auto simp: item_ok_def)
  then have "check_title i item = None" "check_status i item = None"
    by (simp_all add: check_title_def check_status_def)
  with Cons item(1,2) show ?case by (auto simp: image_iff)
qed simp

text \<open>
  C27. What plan_write stores is well typed and nothing else is stored: the call succeeds
  with a plan exactly when the plan is what the schema keeps of the items, has at most 50
  of them, each with a non-empty id, a title of 1 to 200 characters and a known status,
  and no id twice.
\<close>

theorem plan_write_types_the_channel:
  "(\<exists>reply. plan_write items call_id = Inr (reply, plan)) \<longleftrightarrow> map plan_item_schema items = map Some plan \<and> plan_ok plan"
proof (cases "those (map plan_item_schema items)")
  case None
  then show ?thesis by (simp add: plan_write_def) (metis those_Some option.distinct(1))
next
  case (Some p)
  then have p: "map plan_item_schema items = map Some p" by (simp add: those_Some)
  have "list_all item_ok p"
    unfolding list_all_iff
  proof
    fix item assume "item \<in> set p"
    then have "Some item \<in> set (map plan_item_schema items)" unfolding p by simp
    then show "item_ok item" by (auto intro: schema_dump_ok)
  qed
  then have "validate_plan_items p = None \<longleftrightarrow> plan_ok p"
    by (simp add: validate_plan_items_def plan_ok_def validate_typed)
  moreover have "map Some p = map Some plan \<longleftrightarrow> p = plan" by (metis map_injective option.inject injI inj_Some)
  ultimately show ?thesis using Some p
    by (auto simp: plan_write_def plan_write_handler_def split: option.splits)
qed

text \<open>
  The reserve is what the block adds: for every estimator that counts bytes, the estimate of
  the request with the block is the sum of the two, up to one token of rounding.
\<close>

theorem plan_reserve_covers_block:
  assumes "provider \<noteq> ''openai''" "estimate_tokens text_of tik provider ms = Some m"
    and "plan_block_reserved_tokens show items (estimate_tokens text_of tik provider) = Some r"
  shows "\<exists>k. estimate_tokens text_of tik provider (inject_plan_block show ms items) = Some k \<and> m + r \<le> k \<and> k \<le> m + r + 1"
proof (cases "items = []")
  case False
  with assms estimate_is_additive [OF assms(1,2)] show ?thesis
    by (auto simp: plan_block_reserved_tokens_def inject_plan_block_def)
qed (use assms in \<open>simp add: plan_block_reserved_tokens_def inject_plan_block_def\<close>)

theorem plan_reserve_covers_block_witness:
  "\<exists>k r. plan_block_reserved_tokens (\<lambda>_. []) [] (estimate_tokens plain_text (\<lambda>_. None) ''anthropic'') = Some r
     \<and> estimate_tokens plain_text (\<lambda>_. None) ''anthropic'' (inject_plan_block (\<lambda>_. []) [plain_message Human [104, 105]] [])
       = Some k \<and> 12 + r \<le> k"
  using plan_reserve_covers_block [OF _ demo_estimate, of "\<lambda>_. []" "[]" 0]
  by (auto simp: plan_block_reserved_tokens_def)

end
