(* ===== verification/CacheMarkers.thy ===== *)
theory CacheMarkers
  imports PromptCache Plan Failures
begin

text \<open>
  The marker half of \<open>executor/prompt_cache\<close>: where \<open>apply_cache_markers\<close> of each provider's
  strategy puts its breakpoints, which models take them, and the operator switch of
  \<open>executor/graph.py\<close>.  Bedrock's strategy inherits from Anthropic's and differs in the block it
  adds.  Lower-casing is needed on ASCII only: no other character becomes a letter of the texts
  compared with.
\<close>

section \<open>Marking one message\<close>

definition CACHE_CONTROL_EPHEMERAL :: json where
  "CACHE_CONTROL_EPHEMERAL = JObj [(''type'', JStr (lit ''ephemeral''))]"

definition CACHE_POINT_BLOCK :: json where
  "CACHE_POINT_BLOCK = JObj [(''cachePoint'', JObj [(''type'', JStr (lit ''default''))])]"

text \<open>The last index at which a test holds, as the loops over \<open>range(len(xs) - 1, -1, -1)\<close> find it.\<close>

definition last_index :: "('a \<Rightarrow> bool) \<Rightarrow> 'a list \<Rightarrow> nat option" where
  "last_index P xs = find (\<lambda>i. P (xs ! i)) (rev [0..<length xs])"

definition update_at :: "('a \<Rightarrow> 'a) \<Rightarrow> nat option \<Rightarrow> 'a list \<Rightarrow> 'a list" where
  "update_at f i xs = (case i of None \<Rightarrow> xs | Some k \<Rightarrow> xs[k := f (xs ! k)])"

definition untyped_or_text :: "(string \<times> json) list \<Rightarrow> bool" where
  "untyped_or_text b \<longleftrightarrow> map_of b ''type'' \<in> {None, Some JNull, Some (JStr (lit ''text''))}"

definition takes_cache_control :: "json \<Rightarrow> bool" where
  "takes_cache_control j =
     (case j of
        JObj b \<Rightarrow> untyped_or_text b \<and> (case map_of b ''text'' of Some (JStr s) \<Rightarrow> s \<noteq> [] | _ \<Rightarrow> False)
      | _ \<Rightarrow> False)"

definition put_cache_control :: "json \<Rightarrow> json" where
  "put_cache_control j =
     (case j of JObj b \<Rightarrow> JObj (AList.update ''cache_control'' CACHE_CONTROL_EPHEMERAL b) | _ \<Rightarrow> j)"

definition apply_marker_to_content :: "content \<Rightarrow> content" where
  "apply_marker_to_content c =
     (case c of
        Plain s \<Rightarrow>
          if s = [] then c
          else Blocks [JObj [(''type'', JStr (lit ''text'')), (''text'', JStr s), (''cache_control'', CACHE_CONTROL_EPHEMERAL)]]
      | Blocks bs \<Rightarrow> Blocks (update_at put_cache_control (last_index takes_cache_control bs) bs))"

definition has_cache_point_tail :: "json list \<Rightarrow> bool" where
  "has_cache_point_tail bs \<longleftrightarrow>
     bs \<noteq> []
     \<and> (case last bs of
          JObj b \<Rightarrow>
            (case map_of b ''cachePoint'' of
               Some (JObj p) \<Rightarrow> is_present (map_of p ''type'')
             | _ \<Rightarrow> False)
        | _ \<Rightarrow> False)"

definition bears_text :: "json \<Rightarrow> bool" where
  "bears_text j =
     (case j of
        JObj b \<Rightarrow>
          map_of b ''type'' = Some (JStr (lit ''text''))
            \<and> (case map_of b ''text'' of Some t \<Rightarrow> json_truthy t | None \<Rightarrow> False)
          \<or> \<not> is_present (map_of b ''type'')
            \<and> (case map_of b ''text'' of Some (JStr s) \<Rightarrow> s \<noteq> [] | _ \<Rightarrow> False)
      | _ \<Rightarrow> False)"

definition append_cache_point :: "content \<Rightarrow> content" where
  "append_cache_point c =
     (case c of
        Plain s \<Rightarrow>
          if s = [] then c
          else Blocks [JObj [(''type'', JStr (lit ''text'')), (''text'', JStr s)], CACHE_POINT_BLOCK]
      | Blocks bs \<Rightarrow>
          if bs = [] then c
          else if has_cache_point_tail bs then c
          else if \<not> list_ex bears_text bs then c
          else Blocks (bs @ [CACHE_POINT_BLOCK]))"

definition mark_message :: "message \<Rightarrow> message" where
  "mark_message m = m\<lparr>content := apply_marker_to_content (content m)\<rparr>"

definition bedrock_mark_message :: "message \<Rightarrow> message" where
  "bedrock_mark_message m = m\<lparr>content := append_cache_point (content m)\<rparr>"

section \<open>The two breakpoints of a request\<close>

definition last_system :: "message list \<Rightarrow> nat option" where
  "last_system = last_index (\<lambda>m. role m = System \<and> \<not> is_plan_block m)"

definition last_plain :: "message list \<Rightarrow> nat option" where
  "last_plain = last_index (\<lambda>m. \<not> is_plan_block m)"

definition mark_breakpoints :: "(message \<Rightarrow> message) \<Rightarrow> message list \<Rightarrow> message list" where
  "mark_breakpoints mark ms =
     (if ms = [] then ms
      else
        let sys = last_system ms;
            out = update_at mark sys ms;
            tail = last_plain out
        in if tail \<noteq> None \<and> tail \<noteq> sys then update_at mark tail out else out)"

definition anthropic_markers :: "message list \<Rightarrow> message list" where
  "anthropic_markers ms = mark_breakpoints mark_message ms"

definition bedrock_markers :: "message list \<Rightarrow> message list" where
  "bedrock_markers ms = mark_breakpoints bedrock_mark_message ms"

fun apply_cache_markers :: "strategy \<Rightarrow> message list \<Rightarrow> message list" where
  "apply_cache_markers Anthropic ms = anthropic_markers ms"
| "apply_cache_markers Bedrock ms = bedrock_markers ms"
| "apply_cache_markers OpenAI ms = ms"
| "apply_cache_markers Noop ms = ms"

section \<open>Which models take markers\<close>

definition BEDROCK_CACHE_CAPABLE_MARKERS :: "pystr list" where
  "BEDROCK_CACHE_CAPABLE_MARKERS = [lit ''anthropic.'', lit ''amazon.nova-'']"

definition BEDROCK_REGION_PREFIXES :: "pystr list" where
  "BEDROCK_REGION_PREFIXES =
     map lit [''us-gov.'', ''us.'', ''eu.'', ''apac.'', ''au.'', ''ca.'', ''jp.'', ''global.'']"

definition strip_region :: "pystr \<Rightarrow> pystr" where
  "strip_region s =
     (case find (\<lambda>p. startswith p s) BEDROCK_REGION_PREFIXES of None \<Rightarrow> s | Some p \<Rightarrow> drop (length p) s)"

definition bedrock_supports_caching :: "pystr \<Rightarrow> bool" where
  "bedrock_supports_caching model \<longleftrightarrow>
     model \<noteq> []
     \<and> (let l = lower (strip model) in
        if startswith (lit ''arn:'') l
        then list_ex (\<lambda>mk. contains_text (lit ''/'' @ mk) l \<or> contains_text (lit ''.'' @ mk) l) BEDROCK_CACHE_CAPABLE_MARKERS
        else list_ex (\<lambda>mk. startswith mk (strip_region l)) BEDROCK_CACHE_CAPABLE_MARKERS)"

fun supports_caching :: "strategy \<Rightarrow> pystr \<Rightarrow> bool" where
  "supports_caching Anthropic model = True"
| "supports_caching Bedrock model = bedrock_supports_caching model"
| "supports_caching OpenAI model = True"
| "supports_caching Noop model = False"

text \<open>The environment variable is the empty text when it is not set.\<close>

definition prompt_cache_markers_disabled_by_env :: "pystr \<Rightarrow> bool" where
  "prompt_cache_markers_disabled_by_env raw \<longleftrightarrow>
     lower (strip raw) \<in> {lit ''1'', lit ''true'', lit ''yes'', lit ''on''}"

definition request_messages :: "pystr \<Rightarrow> string \<Rightarrow> pystr \<Rightarrow> message list \<Rightarrow> message list" where
  "request_messages env provider model ms =
     (let st = get_strategy provider in
      if \<not> prompt_cache_markers_disabled_by_env env \<and> supports_caching st model then apply_cache_markers st ms else ms)"

section \<open>Lemmas\<close>

lemma last_index_Nil [simp]: "last_index P [] = None"
  by (simp add: last_index_def)

lemma last_index_cong:
  "length xs = length ys \<Longrightarrow> (\<And>i. i < length xs \<Longrightarrow> P (xs ! i) = Q (ys ! i)) \<Longrightarrow> last_index P xs = last_index Q ys"
  unfolding last_index_def by (rule find_cong) auto

lemma last_index_snoc [simp]:
  "last_index P (xs @ [x]) = (if P x then Some (length xs) else last_index P xs)"
proof -
  have "find (\<lambda>i. P ((xs @ [x]) ! i)) (rev [0..<length xs]) = find (\<lambda>i. P (xs ! i)) (rev [0..<length xs])"
    by (rule find_cong) (auto simp: nth_append)
  then show ?thesis by (simp add: last_index_def)
qed

lemma last_index_SomeD: "last_index P xs = Some i \<Longrightarrow> i < length xs \<and> P (xs ! i)"
  by (auto simp: last_index_def find_Some_iff rev_nth)

lemma length_update_at [simp]: "length (update_at f i xs) = length xs"
  by (simp add: update_at_def split: option.split)

lemma update_at_nth: "k < length xs \<Longrightarrow> update_at f i xs ! k = (if i = Some k then f (xs ! k) else xs ! k)"
  by (auto simp: update_at_def nth_list_update split: option.split)

text \<open>A way of marking changes the content only, keeps its text, and marks once.\<close>

definition marking :: "(message \<Rightarrow> message) \<Rightarrow> bool" where
  "marking mark \<longleftrightarrow> (\<forall>m. \<exists>c. mark m = m\<lparr>content := c\<rparr> \<and> flatten_text c = flatten_text (content m)) \<and> (\<forall>m. mark (mark m) = mark m)"

lemma markingD:
  assumes "marking mark"
  shows "role (mark m) = role m" "is_plan_block (mark m) = is_plan_block m" "mark (mark m) = mark m"
    "(mark m)\<lparr>content := Plain (flatten_text (content (mark m)))\<rparr> = m\<lparr>content := Plain (flatten_text (content m))\<rparr>"
proof -
  obtain c where "mark m = m\<lparr>content := c\<rparr>" "flatten_text c = flatten_text (content m)"
    using assms by (auto simp: marking_def)
  then show "role (mark m) = role m" "is_plan_block (mark m) = is_plan_block m"
    "(mark m)\<lparr>content := Plain (flatten_text (content (mark m)))\<rparr> = m\<lparr>content := Plain (flatten_text (content m))\<rparr>"
    by (simp_all add: is_plan_block_def kwarg_true_def kwarg_def)
  show "mark (mark m) = mark m" using assms by (simp add: marking_def)
qed

lemma mark_breakpoints_length [simp]: "length (mark_breakpoints mark ms) = length ms"
  by (simp add: mark_breakpoints_def Let_def)

lemma mark_breakpoints_nth:
  assumes "marking mark" "k < length ms"
  shows "mark_breakpoints mark ms ! k = (if Some k \<in> {last_system ms, last_plain ms} then mark (ms ! k) else ms ! k)"
proof -
  have "last_plain (update_at mark i ms) = last_plain ms" for i
    unfolding last_plain_def by (rule last_index_cong) (simp_all add: update_at_nth markingD(2) [OF assms(1)])
  moreover have "ms \<noteq> []" using assms(2) by auto
  ultimately show ?thesis using assms(2)
    by (auto simp: mark_breakpoints_def Let_def update_at_nth)
qed

lemma breakpoints_stay:
  assumes "marking mark"
  shows "last_system (mark_breakpoints mark ms) = last_system ms" "last_plain (mark_breakpoints mark ms) = last_plain ms"
  unfolding last_plain_def last_system_def
  by (rule last_index_cong; simp add: mark_breakpoints_nth [OF assms] markingD(1,2) [OF assms])+

lemma block_text_update [simp]:
  "block_text (JObj (AList.update ''cache_control'' v b)) = block_text (JObj b)"
  by (simp add: update_conv')

lemma update_at_none: "update_at f None xs = xs"
  by (simp add: update_at_def)

lemma concat_texts: "concat (List.map_filter block_text bs) = concat (map (\<lambda>b. case block_text b of None \<Rightarrow> [] | Some s \<Rightarrow> s) bs)"
  by (induction bs) (auto simp: List.map_filter_simps split: option.split)

lemma put_keeps_text: "block_text (put_cache_control j) = block_text j"
  by (cases j) (simp_all add: put_cache_control_def update_conv')

lemma put_keeps_eligibility: "takes_cache_control (put_cache_control j) = takes_cache_control j"
  by (cases j) (simp_all add: put_cache_control_def takes_cache_control_def untyped_or_text_def update_conv')

lemma put_twice: "put_cache_control (put_cache_control j) = put_cache_control j"
  by (cases j) (simp_all add: put_cache_control_def)

lemma marker_keeps_text: "flatten_text (apply_marker_to_content c) = flatten_text c"
proof (cases c)
  case (Blocks bs)
  have "map (\<lambda>b. case block_text b of None \<Rightarrow> [] | Some s \<Rightarrow> s) (update_at put_cache_control i bs)
      = map (\<lambda>b. case block_text b of None \<Rightarrow> [] | Some s \<Rightarrow> s) bs" for i
    by (rule nth_equalityI) (simp_all add: update_at_nth put_keeps_text)
  with Blocks show ?thesis by (simp add: apply_marker_to_content_def concat_texts)
qed (simp add: apply_marker_to_content_def List.map_filter_simps)

lemma marker_twice: "apply_marker_to_content (apply_marker_to_content c) = apply_marker_to_content c"
proof (cases c)
  case (Plain s)
  then show ?thesis
    by (simp add: apply_marker_to_content_def last_index_def takes_cache_control_def untyped_or_text_def update_at_def
        put_cache_control_def)
next
  case (Blocks bs)
  let ?i = "last_index takes_cache_control bs"
  have "last_index takes_cache_control (update_at put_cache_control ?i bs) = ?i"
    by (rule last_index_cong) (simp_all add: update_at_nth put_keeps_eligibility)
  moreover have "update_at put_cache_control ?i (update_at put_cache_control ?i bs) = update_at put_cache_control ?i bs"
    by (rule nth_equalityI) (simp_all add: update_at_nth put_twice)
  ultimately show ?thesis using Blocks by (simp add: apply_marker_to_content_def)
qed

lemma cache_point_tail: "has_cache_point_tail (bs @ [CACHE_POINT_BLOCK])"
  by (simp add: has_cache_point_tail_def CACHE_POINT_BLOCK_def is_present_def)

lemma cache_point_keeps_text: "flatten_text (append_cache_point c) = flatten_text c"
  by (cases c) (simp_all add: append_cache_point_def CACHE_POINT_BLOCK_def List.map_filter_simps concat_texts)

lemma cache_point_twice: "append_cache_point (append_cache_point c) = append_cache_point c"
proof (cases c)
  case (Plain s)
  have "has_cache_point_tail [b, CACHE_POINT_BLOCK]" for b using cache_point_tail [of "[b]"] by simp
  with Plain show ?thesis by (simp add: append_cache_point_def)
qed (simp add: append_cache_point_def cache_point_tail)

lemma marking_anthropic: "marking mark_message"
  unfolding marking_def by (auto simp: mark_message_def marker_twice intro: marker_keeps_text)

lemma marking_bedrock: "marking bedrock_mark_message"
  unfolding marking_def by (auto simp: bedrock_mark_message_def cache_point_twice intro: cache_point_keeps_text)

section \<open>What markers do to a request\<close>

lemma mark_breakpoints_snoc:
  assumes "marking mark" "is_plan_block b"
  shows "mark_breakpoints mark (ms @ [b]) = mark_breakpoints mark ms @ [b]"
proof (rule nth_equalityI)
  fix k assume "k < length (mark_breakpoints mark (ms @ [b]))"
  then have k: "k < length (ms @ [b])" by simp
  have "last_system (ms @ [b]) = last_system ms" "last_plain (ms @ [b]) = last_plain ms"
    by (simp_all add: last_system_def last_plain_def assms(2))
  moreover have "last_system ms \<noteq> Some (length ms)" "last_plain ms \<noteq> Some (length ms)"
    by (auto simp: last_system_def last_plain_def dest: last_index_SomeD)
  ultimately show "mark_breakpoints mark (ms @ [b]) ! k = (mark_breakpoints mark ms @ [b]) ! k"
    using k mark_breakpoints_nth [OF assms(1) k] mark_breakpoints_nth [OF assms(1), of k ms]
    by (cases "k < length ms") (auto simp: nth_append less_Suc_eq)
qed simp

lemma made_block_is_plan_block: "is_plan_block (make_plan_block_message show items)"
  by (simp add: is_plan_block_def make_plan_block_message_def kwarg_true_def kwarg_def json_truthy_def plain_message_def)

lemma markers_and_plan:
  "apply_cache_markers st (inject_plan_block show ms items) =
     apply_cache_markers st ms @ (if items = [] then [] else [make_plan_block_message show items])"
  using mark_breakpoints_snoc [OF marking_anthropic made_block_is_plan_block]
    mark_breakpoints_snoc [OF marking_bedrock made_block_is_plan_block]
  by (cases st) (simp_all add: inject_plan_block_def anthropic_markers_def bedrock_markers_def)

text \<open>
  C29. The plan block is always in the uncached suffix: marking a request with the block
  is marking the request without it and appending the block unmarked, so editing the plan
  leaves every marked byte as it was.
\<close>

theorem plan_stays_behind_breakpoints:
  "request_messages env provider model (inject_plan_block show ms items) =
     request_messages env provider model ms @ (if items = [] then [] else [make_plan_block_message show items])"
  by (simp add: request_messages_def Let_def markers_and_plan) (simp add: inject_plan_block_def)

lemma mark_breakpoints_harmless:
  assumes "marking mark"
  defines "texts \<equiv> map (\<lambda>m. m\<lparr>content := Plain (flatten_text (content m))\<rparr>)"
  shows "texts (mark_breakpoints mark ms) = texts ms"
    and "card {k. k < length ms \<and> mark_breakpoints mark ms ! k \<noteq> ms ! k} \<le> 2"
    and "mark_breakpoints mark (mark_breakpoints mark ms) = mark_breakpoints mark ms"
proof -
  note nth = mark_breakpoints_nth [OF assms(1)]
  show "texts (mark_breakpoints mark ms) = texts ms" unfolding texts_def
    by (rule nth_equalityI) (simp_all add: nth markingD(4) [OF assms(1)] del: insert_iff)
  show "mark_breakpoints mark (mark_breakpoints mark ms) = mark_breakpoints mark ms"
    by (rule nth_equalityI)
      (simp_all add: nth breakpoints_stay [OF assms(1)] markingD(3) [OF assms(1)] del: insert_iff)
  have "{k. k < length ms \<and> mark_breakpoints mark ms ! k \<noteq> ms ! k} \<subseteq> the ` {last_system ms, last_plain ms}"
    by (auto simp: nth image_iff split: if_splits) (metis option.sel)+
  then have "card {k. k < length ms \<and> mark_breakpoints mark ms ! k \<noteq> ms ! k} \<le> card (the ` {last_system ms, last_plain ms})"
    by (intro card_mono) simp
  also have "\<dots> \<le> card {last_system ms, last_plain ms}" by (rule card_image_le) simp
  also have "\<dots> \<le> 2" by (simp add: card_insert_if)
  finally show "card {k. k < length ms \<and> mark_breakpoints mark ms ! k \<noteq> ms ! k} \<le> 2" .
qed

text \<open>
  The markers change at most two messages, leave every text and all other fields alone, and
  marking twice is marking once.
\<close>

theorem cache_markers_are_harmless:
  "map (\<lambda>m. m\<lparr>content := Plain (flatten_text (content m))\<rparr>) (apply_cache_markers st ms)
     = map (\<lambda>m. m\<lparr>content := Plain (flatten_text (content m))\<rparr>) ms
   \<and> card {k. k < length ms \<and> apply_cache_markers st ms ! k \<noteq> ms ! k} \<le> 2
   \<and> apply_cache_markers st (apply_cache_markers st ms) = apply_cache_markers st ms"
  using mark_breakpoints_harmless [OF marking_anthropic, of ms] mark_breakpoints_harmless [OF marking_bedrock, of ms]
  by (cases st) (simp_all add: anthropic_markers_def bedrock_markers_def)

end
