(* ===== verification/AgentNode.thy ===== *)
theory AgentNode
  imports RecallPointer CacheMarkers Transitions
begin

text \<open>
  The agent node of \<open>executor/graph.py\<close>: it reserves room for the plan block, runs the compaction
  hook, builds the request, mirrors compaction and offload into \<open>task_events\<close>, calls the model with
  retries on rate limits, and returns the state updates.  The model's answers are a sequence, one per
  attempt.  Event rows are best effort: \<open>inserted\<close> says whether a transaction commits.
\<close>

section \<open>Event rows\<close>

definition already_emitted :: "string \<Rightarrow> string \<Rightarrow> (string \<times> json) list \<Rightarrow> db \<Rightarrow> bool" where
  "already_emitted tid ty keys d \<longleftrightarrow>
     list_ex (\<lambda>v. ev_task v = tid \<and> ev_type v = ty \<and> list_all (\<lambda>(k, j). json_get k (ev_details v) = Some j) keys)
       (events d)"

definition compaction_details :: "int \<Rightarrow> pystr \<Rightarrow> event \<Rightarrow> (string \<times> json) list" where
  "compaction_details before summary_after ev =
     (case ev of
        Tier3Fired model tokens_in tokens_out through \<Rightarrow>
          [(''tier'', JNum 3), (''summarizer_model_id'', JStr model), (''tokens_in'', JNum tokens_in),
           (''tokens_out'', JNum tokens_out), (''turns_summarized'', JNum (through - before)),
           (''first_turn_index'', JNum before), (''last_turn_index'', JNum through),
           (''summary_bytes'', JNum (int (byte_len summary_after))), (''summary_text'', JStr summary_after)]
      | FlushFired step \<Rightarrow> [(''fired_at_step'', JNum (int step))]
      | _ \<Rightarrow> [])"

definition emit_compaction_event ::
  "(event \<Rightarrow> bool) \<Rightarrow> time \<Rightarrow> string \<Rightarrow> string \<Rightarrow> string \<Rightarrow> string \<Rightarrow> int \<Rightarrow> pystr \<Rightarrow> event \<Rightarrow> db \<Rightarrow> db" where
  "emit_compaction_event inserted now tid tn ag wk before summary_after ev d =
     (case ev of
        Tier3Fired model tokens_in tokens_out through \<Rightarrow>
          if already_emitted tid ''task_compaction_fired'' [(''last_turn_index'', JNum through)] d then d
          else if \<not> list_all is_scalar summary_after then d
          else if \<not> inserted ev then d
          else insert_task_event now tid tn ag ''task_compaction_fired'' None None (Some wk) None None
                 (JObj (compaction_details before summary_after ev)) d
      | FlushFired step \<Rightarrow>
          if already_emitted tid ''memory_flush'' [(''fired_at_step'', JNum (int step))] d then d
          else if \<not> inserted ev then d
          else insert_task_event now tid tn ag ''memory_flush'' None None (Some wk) None None
                 (JObj (compaction_details before summary_after ev)) d
      | _ \<Rightarrow> d)"

definition emit_compaction_task_events ::
  "(event \<Rightarrow> bool) \<Rightarrow> time \<Rightarrow> string \<Rightarrow> string \<Rightarrow> string \<Rightarrow> string \<Rightarrow> event list \<Rightarrow> int \<Rightarrow> pystr \<Rightarrow> db \<Rightarrow> db" where
  "emit_compaction_task_events inserted now tid tn ag wk evs before summary_after d =
     fold (emit_compaction_event inserted now tid tn ag wk before summary_after) evs d"

definition uri_fingerprint :: "pystr list \<Rightarrow> pystr" where
  "uri_fingerprint uris = sha256_hex (utf8 (join (lit ''|'') (sort uris)))"

definition emit_offload_task_event ::
  "bool \<Rightarrow> time \<Rightarrow> string \<Rightarrow> string \<Rightarrow> string \<Rightarrow> string \<Rightarrow> offload_event list \<Rightarrow> nat \<Rightarrow> db \<Rightarrow> db" where
  "emit_offload_task_event inserted now tid tn ag wk evs step d =
     (let ok = filter (\<lambda>v. ev_uri v \<noteq> None) evs;
          fp = uri_fingerprint (List.map_filter ev_uri ok);
          keys = [(''step_index'', JNum (int step)), (''uri_fingerprint'', JStr fp)]
      in if ok = [] then d
         else if already_emitted tid ''offload_emitted'' keys d then d
         else if \<not> inserted then d
         else insert_task_event now tid tn ag ''offload_emitted'' None None (Some wk) None None
                (JObj ([(''count'', JNum (int (length ok))), (''total_bytes'', JNum (int (sum_list (map ev_size ok))))] @ keys)) d)"

section \<open>Calling the model\<close>

text \<open>
  One attempt: whether the cancel event is set before the call or while it runs, and what the
  provider answers otherwise.  The exception has no cause, so its chain is itself.
\<close>

record model_call =
  set_before :: bool
  set_during :: bool
  model_result :: "exn + message"

definition lease_revoked :: "string \<Rightarrow> pystr \<Rightarrow> exn" where
  "lease_revoked tid what =
     \<lparr>ex_class = OtherExn, ex_text = lit ''Task '' @ lit tid @ lit '' cancelled or lease revoked '' @ what,
      ex_chain = [\<lparr>status_code = None, retry_header = None\<rparr>]\<rparr>"

definition await_or_cancel :: "string \<Rightarrow> pystr \<Rightarrow> model_call \<Rightarrow> exn + message" where
  "await_or_cancel tid operation c =
     (if set_before c then Inl (lease_revoked tid (lit ''before '' @ operation @ lit '' started.''))
      else if set_during c then Inl (lease_revoked tid (lit ''during '' @ operation @ lit ''.''))
      else model_result c)"

definition MAX_RATE_LIMIT_RETRIES :: nat where "MAX_RATE_LIMIT_RETRIES = 5"

text \<open>The attempts that are left, the number of this one; the seconds slept come out with the result.\<close>

fun ask_model :: "string \<Rightarrow> (nat \<Rightarrow> model_call) \<Rightarrow> nat \<Rightarrow> nat \<Rightarrow> (exn + message) \<times> rat list" where
  "ask_model tid calls left attempt =
     (case await_or_cancel tid (lit ''agent'') (calls attempt) of
        Inr m \<Rightarrow> (Inr m, [])
      | Inl e \<Rightarrow>
          (case left of
             0 \<Rightarrow> (Inl e, [])
           | Suc l \<Rightarrow>
               if is_rate_limit_error e then
                 let (r, waits) = ask_model tid calls l (Suc attempt)
                 in (r, backoff_or (min 30 (5 * 2 ^ attempt)) e # waits)
               else (Inl e, [])))"

declare ask_model.simps [simp del]

section \<open>The node\<close>

record 's agent_env =
  ae_hook :: hook_env
  ae_show :: "json \<Rightarrow> pystr"
  ae_switch :: pystr
  ae_provider :: string
  ae_model :: pystr
  ae_tenant :: string
  ae_agent :: string
  ae_task :: string
  ae_worker :: string
  ae_printable :: "nat \<Rightarrow> bool"
  ae_store :: "'s put_fn option"
  ae_now :: time
  ae_now_iso :: json
  ae_event_ok :: "event \<Rightarrow> bool"
  ae_offload_ok :: bool

definition plan_item_json :: "plan_item \<Rightarrow> json" where
  "plan_item_json p = JObj [(''id'', JStr (pi_id p)), (''title'', JStr (pi_title p)), (''status'', JStr (pi_status p))]"

definition plan_reserve :: "'s agent_env \<Rightarrow> run_state \<Rightarrow> nat" where
  "plan_reserve e st =
     (case plan_block_reserved_tokens (ae_show e) (map plan_item_json (plan st)) (\<lambda>ms. Some (he_estimate (ae_hook e) ms)) of
        Some n \<Rightarrow> n | None \<Rightarrow> 0)"

definition turn_hook :: "'s agent_env \<Rightarrow> run_state \<Rightarrow> pass_result" where
  "turn_hook e st = compaction_pre_model_hook ((ae_hook e)\<lparr>he_reserved := plan_reserve e st\<rparr>) (messages st) st"

definition turn_projection :: "'s agent_env \<Rightarrow> run_state \<Rightarrow> message list" where
  "turn_projection e st =
     inject_plan_block (ae_show e) (pr_messages (turn_hook e st)) (map plan_item_json (plan st))"

definition messages_for_llm :: "'s agent_env \<Rightarrow> run_state \<Rightarrow> message list" where
  "messages_for_llm e st = request_messages (ae_switch e) (ae_provider e) (ae_model e) (turn_projection e st)"

definition summary_after :: "run_state \<Rightarrow> updates \<Rightarrow> pystr" where
  "summary_after st u = (case u_summary u of Some s \<Rightarrow> s | None \<Rightarrow> summary st)"

datatype node_end =
    ContextExceeded nat nat
  | Raised exn
  | Returned updates

fun first_hard_floor :: "event list \<Rightarrow> (nat \<times> nat) option" where
  "first_hard_floor [] = None"
| "first_hard_floor (HardFloor est window # evs) = Some (est, window)"
| "first_hard_floor (_ # evs) = first_hard_floor evs"

definition agent_node ::
  "'s agent_env \<Rightarrow> (message list \<Rightarrow> nat \<Rightarrow> model_call) \<Rightarrow> run_state \<Rightarrow> db \<Rightarrow> 's \<Rightarrow> node_end \<times> db \<times> 's \<times> rat list" where
  "agent_node e model st d s =
     (let pr = turn_hook e st; u = pr_updates pr in
      case first_hard_floor (pr_events pr) of
        Some (est, window) \<Rightarrow> (ContextExceeded est window, d, s, [])
      | None \<Rightarrow>
          let d1 = emit_compaction_task_events (ae_event_ok e) (ae_now e) (ae_task e) (ae_tenant e) (ae_agent e)
                (ae_worker e) (pr_events pr) (summarized_through st) (summary_after st u) d;
              (r, waits) = ask_model (ae_task e) (model (messages_for_llm e st)) MAX_RATE_LIMIT_RETRIES 0
          in (case r of
                Inl err \<Rightarrow> (Raised err, d1, s, waits)
              | Inr response \<Rightarrow>
                  let (ms, s1, evs) = agent_response (ae_printable e) (ae_store e) (lit (ae_tenant e)) (lit (ae_task e))
                        (ae_now_iso e) (case u_messages u of Some ms \<Rightarrow> ms | None \<Rightarrow> []) response s;
                      d2 = emit_offload_task_event (ae_offload_ok e) (ae_now e) (ae_task e) (ae_tenant e) (ae_agent e)
                        (ae_worker e) evs (length (messages st)) d1
                  in (Returned (u\<lparr>u_messages := Some ms\<rparr>), d2, s1, waits)))"

section \<open>What is sent fits the window\<close>

lemma first_hard_floor_None: "first_hard_floor evs = None \<longleftrightarrow> (\<forall>a b. HardFloor a b \<notin> set evs)"
  by (induction evs rule: first_hard_floor.induct) auto

lemma agent_node_ends:
  obtains (exceeded) est window where
      "first_hard_floor (pr_events (turn_hook e st)) = Some (est, window)"
      "agent_node e model st d s = (ContextExceeded est window, d, s, [])"
  | (asked) "first_hard_floor (pr_events (turn_hook e st)) = None"
      "\<forall>a b. fst (agent_node e model st d s) \<noteq> ContextExceeded a b"
proof (cases "first_hard_floor (pr_events (turn_hook e st))")
  case None
  then have "\<forall>a b. fst (agent_node e model st d s) \<noteq> ContextExceeded a b"
    by (auto simp: agent_node_def Let_def split_beta split: sum.split)
  with None show thesis by (rule asked)
next
  case (Some p)
  obtain a b where "p = (a, b)" by (cases p)
  with Some show thesis by (intro exceeded) (simp_all add: agent_node_def Let_def)
qed

lemma context_exceeded_iff:
  "(\<exists>a b. fst (agent_node e model st d s) = ContextExceeded a b)
   \<longleftrightarrow> he_estimate (ae_hook e) (pr_messages (turn_hook e st)) + plan_reserve e st > he_window (ae_hook e)"
proof -
  have "(\<exists>a b. fst (agent_node e model st d s) = ContextExceeded a b) \<longleftrightarrow>
      (\<exists>a b. HardFloor a b \<in> set (pr_events (turn_hook e st)))"
    using first_hard_floor_None [of "pr_events (turn_hook e st)"]
    by (cases rule: agent_node_ends [of e st model d s]) auto
  then show ?thesis
    by (simp add: turn_hook_def hard_floor_iff_over_window estimate_def)
qed

text \<open>
  C30. When the agent node calls the model at all, the estimate of its request, plan block
  included, is at most the context window (plus one token of rounding when there is a
  plan), for every estimator that is additive up to one token.
\<close>

theorem request_fits_the_window:
  assumes "\<forall>ms b. he_estimate (ae_hook e) (ms @ [b]) \<le> he_estimate (ae_hook e) ms + he_estimate (ae_hook e) [b] + 1"
    and "\<forall>a b. fst (agent_node e model st d s) \<noteq> ContextExceeded a b"
  shows "he_estimate (ae_hook e) (turn_projection e st)
    \<le> he_window (ae_hook e) + (if plan st = [] then 0 else 1)"
proof -
  let ?est = "he_estimate (ae_hook e)" and ?ms = "pr_messages (turn_hook e st)"
  have fit: "?est ?ms + plan_reserve e st \<le> he_window (ae_hook e)"
    using context_exceeded_iff [of e model st d s] assms(2) by auto
  show ?thesis
  proof (cases "plan st = []")
    case False
    then have "plan_reserve e st = ?est [make_plan_block_message (ae_show e) (map plan_item_json (plan st))]"
      by (simp add: plan_reserve_def plan_block_reserved_tokens_def)
    with fit False assms(1) [rule_format, of ?ms "make_plan_block_message (ae_show e) (map plan_item_json (plan st))"]
    show ?thesis by (simp add: turn_projection_def inject_plan_block_def)
  qed (use fit in \<open>simp add: turn_projection_def inject_plan_block_def plan_reserve_def plan_block_reserved_tokens_def\<close>)
qed

section \<open>The plan block stays out of the journal\<close>

lemma pointer_keeps_plan_tag [simp]: "is_plan_block (recall_pointer m) = is_plan_block m"
  by (simp add: is_plan_block_def kwarg_true_def kwarg_def recall_pointer_def PLAN_BLOCK_KWARG_def update_conv')

lemma stamp_keeps_plan_tag [simp]: "is_plan_block (stamp_emitted_at t m) = is_plan_block m"
  by (simp add: is_plan_block_def kwarg_true_def kwarg_def stamp_emitted_at_def PLAN_BLOCK_KWARG_def update_conv')

lemma offload_keeps_message:
  "fst (offload_ai_message_args pr put tn tk m s) = m\<lparr>tool_calls := tool_calls (fst (offload_ai_message_args pr put tn tk m s))\<rparr>"
  by (simp add: offload_ai_message_args_def split_beta)

lemma plan_tag_calls [simp]: "is_plan_block (m\<lparr>tool_calls := cs\<rparr>) = is_plan_block m"
  by (simp add: is_plan_block_def kwarg_true_def kwarg_def)

lemma thread_list_keeps: "(\<And>x s. g (fst (f x s)) = g x) \<Longrightarrow> map g (fst (thread_list f xs s)) = map g xs"
  by (induction xs arbitrary: s) (simp_all add: split_beta)

definition same_calls :: "tool_call list \<Rightarrow> message \<Rightarrow> bool" where
  "same_calls cs m \<longleftrightarrow> map (\<lambda>c. (tc_id c, tc_name c)) cs = map (\<lambda>c. (tc_id c, tc_name c)) (tool_calls m)"

lemma offload_keeps_calls: "same_calls (tool_calls (fst (offload_ai_message_args pr put tn tk m s))) m"
  unfolding same_calls_def offload_ai_message_args_def split_beta Let_def
  by simp (rule thread_list_keeps, simp add: offload_call_def split_beta Let_def)

lemma agent_response_shape:
  "\<exists>cs. same_calls cs m
    \<and> fst (agent_response pr store tn tk stamp hook m s) = hook @ [stamp_emitted_at stamp (m\<lparr>tool_calls := cs\<rparr>)]"
proof (cases "store = None \<or> \<not> is_caller m")
  case True
  then have "fst (agent_response pr store tn tk stamp hook m s) = hook @ [stamp_emitted_at stamp (m\<lparr>tool_calls := tool_calls m\<rparr>)]"
    by (auto simp: agent_response_def split: option.split)
  then show ?thesis by (auto simp: same_calls_def)
next
  case False
  then obtain put where "store = Some put" "is_caller m" by auto
  then have "fst (agent_response pr store tn tk stamp hook m s) = hook @ [stamp_emitted_at stamp
      (m\<lparr>tool_calls := tool_calls (fst (offload_ai_message_args pr put tn tk m s))\<rparr>)]"
    using offload_keeps_message [of pr put tn tk m s] by (simp add: agent_response_def split_beta)
  then show ?thesis using offload_keeps_calls [of pr put tn tk m s] by blast
qed

lemma hook_messages_from_journal:
  assumes "u_messages (pr_updates (compaction_pre_model_hook e raw st)) = Some ms"
  shows "\<forall>m \<in> set ms. \<exists>m' \<in> set raw. m = recall_pointer m'"
proof (cases rule: hook_cases [of e raw st])
  case (kept u extra evs sk)
  then have "u_messages u = None"
    by (metis (no_types, lifting) no_updates_def updates.select_convs(7) updates.update_convs(8,9))
  with kept(1) assms show ?thesis by simp
next
  case (fired model res)
  have sub: "set (shrink_summarized_recalls_to_pointers raw i j) \<subseteq> recall_pointer ` set raw" for i j
    by (auto simp: shrink_summarized_recalls_to_pointers_def Let_def dest: in_set_takeD in_set_dropD)
  from fired(1) assms have "ms = shrink_summarized_recalls_to_pointers raw
      (int (effective_through raw st)) (int (keep_start e raw st))"
    by (simp add: fire_def Let_def split: list.splits)
  with sub show ?thesis by blast
qed

lemma returned_messages:
  assumes "agent_node e model st d s = (Returned u, d', s', waits)"
  obtains calls response hook where
    "ask_model (ae_task e) (model (messages_for_llm e st)) MAX_RATE_LIMIT_RETRIES 0 = (Inr response, waits)"
    "hook = (case u_messages (pr_updates (turn_hook e st)) of Some ms \<Rightarrow> ms | None \<Rightarrow> [])"
    "u = (pr_updates (turn_hook e st))\<lparr>u_messages := Some (hook @ [stamp_emitted_at (ae_now_iso e) (response\<lparr>tool_calls := calls\<rparr>)])\<rparr>"
    "\<forall>m \<in> set hook. \<exists>m' \<in> set (messages st). m = recall_pointer m'" "same_calls calls response"
proof -
  define hook where "hook = (case u_messages (pr_updates (turn_hook e st)) of Some ms \<Rightarrow> ms | None \<Rightarrow> [])"
  obtain r w where ask: "ask_model (ae_task e) (model (messages_for_llm e st)) MAX_RATE_LIMIT_RETRIES 0 = (r, w)"
    by (cases "ask_model (ae_task e) (model (messages_for_llm e st)) MAX_RATE_LIMIT_RETRIES 0")
  have none: "first_hard_floor (pr_events (turn_hook e st)) = None"
    using assms by (cases rule: agent_node_ends [of e st model d s]) auto
  then obtain response where r: "r = Inr response" and w: "w = waits"
    and u: "u = (pr_updates (turn_hook e st))\<lparr>u_messages := Some (fst (agent_response (ae_printable e) (ae_store e)
      (lit (ae_tenant e)) (lit (ae_task e)) (ae_now_iso e) hook response s))\<rparr>"
    using assms by (auto simp: agent_node_def Let_def split_beta ask hook_def split: sum.splits)
  obtain calls where "same_calls calls response" "fst (agent_response (ae_printable e) (ae_store e) (lit (ae_tenant e)) (lit (ae_task e))
      (ae_now_iso e) hook response s) = hook @ [stamp_emitted_at (ae_now_iso e) (response\<lparr>tool_calls := calls\<rparr>)]"
    using agent_response_shape [of response "ae_printable e" "ae_store e" "lit (ae_tenant e)" "lit (ae_task e)" "ae_now_iso e"
      hook s] by auto
  moreover have "\<forall>m \<in> set hook. \<exists>m' \<in> set (messages st). m = recall_pointer m'"
    using hook_messages_from_journal [of _ "messages st" st]
    by (cases "u_messages (pr_updates (turn_hook e st))") (simp_all add: hook_def turn_hook_def)
  ultimately show thesis using u ask r w hook_def by (intro that) auto
qed

lemma ask_model_reply:
  "ask_model tid calls left attempt = (Inr m, waits) \<Longrightarrow> \<exists>k. model_result (calls k) = Inr m"
proof (induction left arbitrary: attempt waits)
  case 0
  then show ?case
    by (subst (asm) ask_model.simps) (auto simp: await_or_cancel_def split: sum.splits if_splits)
next
  case (Suc l)
  show ?case
  proof (cases "await_or_cancel tid (lit ''agent'') (calls attempt)")
    case (Inl err)
    then have "\<exists>w. ask_model tid calls l (Suc attempt) = (Inr m, w)"
      using Suc.prems by (subst (asm) ask_model.simps) (auto simp: split_beta prod_eq_iff split: if_splits)
    then show ?thesis using Suc.IH by blast
  next
    case (Inr m')
    then have "m' = m" using Suc.prems by (subst (asm) ask_model.simps) simp
    with Inr show ?thesis by (auto simp: await_or_cancel_def split: if_splits)
  qed
qed

lemma hook_never_empty:
  "u_messages (pr_updates (compaction_pre_model_hook e raw st)) \<noteq> Some []"
proof (cases rule: hook_cases [of e raw st])
  case (kept u extra evs sk)
  then show ?thesis
    by (metis (no_types, lifting) no_updates_def option.distinct(1) pass_result.select_convs(2)
        updates.select_convs(7) updates.update_convs(8,9))
qed (auto simp: fire_def Let_def split: list.split)

text \<open>
  With a plan, the last message of every request is the unmarked plan block, and no message
  that the node returns for the journal is a plan block.
\<close>

theorem plan_block_only_in_requests:
  assumes "agent_node e model st d s = (Returned u, d', s', waits)" "\<forall>m \<in> set (messages st). \<not> is_plan_block m"
    and "\<forall>k m. model_result (model (messages_for_llm e st) k) = Inr m \<longrightarrow> \<not> is_plan_block m"
  shows "(plan st \<noteq> [] \<longrightarrow>
      last (messages_for_llm e st) = make_plan_block_message (ae_show e) (map plan_item_json (plan st)))
    \<and> (\<exists>ms. u_messages u = Some ms \<and> (\<forall>m \<in> set ms. \<not> is_plan_block m))"
proof
  show "plan st \<noteq> [] \<longrightarrow>
      last (messages_for_llm e st) = make_plan_block_message (ae_show e) (map plan_item_json (plan st))"
    by (simp add: messages_for_llm_def request_messages_def Let_def turn_projection_def markers_and_plan)
       (simp add: inject_plan_block_def)
  obtain calls response hook where r: "ask_model (ae_task e) (model (messages_for_llm e st)) MAX_RATE_LIMIT_RETRIES 0 = (Inr response, waits)"
    "hook = (case u_messages (pr_updates (turn_hook e st)) of Some ms \<Rightarrow> ms | None \<Rightarrow> [])"
    "u = (pr_updates (turn_hook e st))\<lparr>u_messages := Some (hook @ [stamp_emitted_at (ae_now_iso e) (response\<lparr>tool_calls := calls\<rparr>)])\<rparr>"
    "\<forall>m \<in> set hook. \<exists>m' \<in> set (messages st). m = recall_pointer m'" "same_calls calls response"
    using assms(1) by (rule returned_messages)
  have "\<not> is_plan_block response" using r(1) assms(3) by (auto dest: ask_model_reply)
  moreover have "\<forall>m \<in> set hook. \<not> is_plan_block m"
    using r(4) assms(2) by auto
  ultimately show "\<exists>ms. u_messages u = Some ms \<and> (\<forall>m \<in> set ms. \<not> is_plan_block m)"
    using r(3) by auto
qed

section \<open>A turn refines a run of the task\<close>

text \<open>The documented behaviour of \<open>add_messages\<close> on a message whose id is new: it comes last.\<close>

definition appends_new :: "(message list \<Rightarrow> message list \<Rightarrow> message list) \<Rightarrow> bool" where
  "appends_new add_messages \<longleftrightarrow>
     (\<forall>ms rs r. msg_id r \<notin> msg_id ` (set ms \<union> set rs) \<longrightarrow>
        add_messages ms (rs @ [r]) = (if rs = [] then ms else add_messages ms rs) @ [r])"

text \<open>
  C31. An agent turn that returns is one step of the compaction hook followed by appending
  the model's reply: the state after the reducers is the state after the hook's updates
  with the time-stamped reply at the end of the journal, its tool calls the same up to
  offloaded arguments; the pointers that compaction wrote are not lost.
\<close>

theorem turn_is_hook_then_reply:
  assumes "agent_node e model st d s = (Returned u, d', s', waits)" "appends_new add_messages"
    and "ask_model (ae_task e) (model (messages_for_llm e st)) MAX_RATE_LIMIT_RETRIES 0 = (Inr response, waits)"
    and "msg_id response \<notin> msg_id ` set (messages st)"
  shows "\<exists>calls. same_calls calls response \<and> apply_updates add_messages st u =
      (apply_updates add_messages st (pr_updates (turn_hook e st)))
        \<lparr>messages := messages (apply_updates add_messages st (pr_updates (turn_hook e st)))
            @ [stamp_emitted_at (ae_now_iso e) (response\<lparr>tool_calls := calls\<rparr>)]\<rparr>"
proof -
  obtain calls response' hook where r: "ask_model (ae_task e) (model (messages_for_llm e st)) MAX_RATE_LIMIT_RETRIES 0 = (Inr response', waits)"
    "hook = (case u_messages (pr_updates (turn_hook e st)) of Some ms \<Rightarrow> ms | None \<Rightarrow> [])"
    "u = (pr_updates (turn_hook e st))\<lparr>u_messages := Some (hook @ [stamp_emitted_at (ae_now_iso e) (response'\<lparr>tool_calls := calls\<rparr>)])\<rparr>"
    "\<forall>m \<in> set hook. \<exists>m' \<in> set (messages st). m = recall_pointer m'" "same_calls calls response'"
    using assms(1) by (rule returned_messages)
  let ?r = "stamp_emitted_at (ae_now_iso e) (response\<lparr>tool_calls := calls\<rparr>)"
  have "msg_id ` set hook \<subseteq> msg_id ` set (messages st)"
    using r(4) by fastforce
  moreover have "msg_id ?r = msg_id response" by (simp add: stamp_emitted_at_def)
  ultimately have "add_messages (messages st) (hook @ [?r]) = (if hook = [] then messages st else add_messages (messages st) hook) @ [?r]"
    using assms(2,4) unfolding appends_new_def by (metis (no_types, lifting) Un_iff image_Un subsetD)
  moreover have "messages (apply_updates add_messages st (pr_updates (turn_hook e st)))
      = (if hook = [] then messages st else add_messages (messages st) hook)"
    using hook_never_empty [of _ "messages st" st] r(2)
    by (cases "u_messages (pr_updates (turn_hook e st))") (auto simp: apply_updates_def turn_hook_def)
  moreover have "apply_updates add_messages st u =
      (apply_updates add_messages st (pr_updates (turn_hook e st)))
        \<lparr>messages := add_messages (messages st) (hook @ [?r])\<rparr>"
    using r(1,3) assms(3) by (simp add: apply_updates_def)
  ultimately have "apply_updates add_messages st u =
      (apply_updates add_messages st (pr_updates (turn_hook e st)))
        \<lparr>messages := messages (apply_updates add_messages st (pr_updates (turn_hook e st))) @ [?r]\<rparr>"
    by simp
  moreover have "same_calls calls response" using r(1,5) assms(3) by simp
  ultimately show ?thesis by blast
qed

section \<open>Event rows are written once\<close>

definition marker_key :: "task_event \<Rightarrow> (string \<times> string \<times> json option list) option" where
  "marker_key v =
     (let key = \<lambda>ks. Some (ev_task v, ev_type v, map (\<lambda>k. json_get k (ev_details v)) ks) in
      if ev_type v = ''task_compaction_fired'' then key [''last_turn_index'']
      else if ev_type v = ''memory_flush'' then key [''fired_at_step'']
      else if ev_type v = ''offload_emitted'' then key [''step_index'', ''uri_fingerprint'']
      else None)"

definition markers_unique :: "db \<Rightarrow> bool" where
  "markers_unique d \<longleftrightarrow> distinct (List.map_filter marker_key (events d))"

lemma insert_keeps_unique:
  assumes "markers_unique d" "\<not> already_emitted tid ty keys d"
    and "\<And>v. ev_task v = tid \<Longrightarrow> ev_type v = ty \<Longrightarrow>
      marker_key v = Some (tid, ty, map (\<lambda>k. json_get k (ev_details v)) (map fst keys))"
    and "list_all (\<lambda>(k, j). json_get k (JObj details) = Some j) keys"
  shows "markers_unique (insert_task_event now tid tn ag ty b a wk ec em (JObj details) d)"
proof -
  let ?new = "\<lparr>ev_tenant = tn, ev_task = tid, ev_agent = ag, ev_type = ty, ev_before = b, ev_after = a, ev_worker = wk,
     ev_error_code = ec, ev_error_message = em, ev_details = JObj details, ev_at = now\<rparr>"
  have new: "marker_key ?new = Some (tid, ty, map (\<lambda>(k, j). Some j) keys)"
    using assms(3) [of ?new] assms(4) by (auto simp: list_all_iff)
  have "marker_key v \<noteq> marker_key ?new" if "v \<in> set (events d)" for v
  proof
    assume same: "marker_key v = marker_key ?new"
    then have v: "ev_task v = tid" "ev_type v = ty"
      unfolding new by (auto simp: marker_key_def Let_def split: if_splits)
    then have "map (\<lambda>k. json_get k (ev_details v)) (map fst keys) = map (\<lambda>(k, j). Some j) keys"
      using same assms(3) [of v] unfolding new by simp
    then have "list_all (\<lambda>(k, j). json_get k (ev_details v) = Some j) keys"
      by (auto simp: list_all_iff)
    with assms(2) that v show False by (auto simp: already_emitted_def list_ex_iff)
  qed
  then have "the (marker_key ?new) \<notin> set (List.map_filter marker_key (events d))"
    by (auto simp: set_map_filter new)
  with assms(1) show ?thesis
    by (simp add: markers_unique_def insert_task_event_def List.map_filter_def new List.map_filter_simps)
qed

lemma emit_compaction_event_unique:
  "markers_unique d \<Longrightarrow> markers_unique (emit_compaction_event ins now tid tn ag wk before summ ev d)"
  by (auto simp: emit_compaction_event_def compaction_details_def marker_key_def json_get_def
      split: event.split intro!: insert_keeps_unique)

lemma emit_compaction_unique:
  "markers_unique d \<Longrightarrow> markers_unique (emit_compaction_task_events ins now tid tn ag wk evs before summ d)"
  unfolding emit_compaction_task_events_def
  by (induction evs arbitrary: d) (auto intro: emit_compaction_event_unique)

lemma emit_offload_unique:
  "markers_unique d \<Longrightarrow> markers_unique (emit_offload_task_event ins now tid tn ag wk evs step d)"
  by (auto simp: emit_offload_task_event_def Let_def marker_key_def json_get_def intro!: insert_keeps_unique)

definition has_marker :: "string \<Rightarrow> event \<Rightarrow> db \<Rightarrow> bool" where
  "has_marker tid ev d =
     (case ev of
        Tier3Fired model tokens_in tokens_out through \<Rightarrow>
          already_emitted tid ''task_compaction_fired'' [(''last_turn_index'', JNum through)] d
      | FlushFired step \<Rightarrow> already_emitted tid ''memory_flush'' [(''fired_at_step'', JNum (int step))] d
      | _ \<Rightarrow> True)"

lemma emitted_stays: "has_marker tid ev d \<Longrightarrow> events d' = events d @ new \<Longrightarrow> has_marker tid ev d'"
  by (auto simp: has_marker_def already_emitted_def split: event.split)

lemma emit_event_appends: "\<exists>new. events (emit_compaction_event ins now tid tn ag wk before summ ev d) = events d @ new"
  by (auto simp: emit_compaction_event_def insert_task_event_def split: event.split)

lemma emit_offload_appends: "\<exists>new. events (emit_offload_task_event ins now tid tn ag wk evs step d) = events d @ new"
  by (simp add: emit_offload_task_event_def insert_task_event_def Let_def)

lemma emit_event_marks:
  "ins ev \<Longrightarrow> list_all is_scalar summ \<Longrightarrow> has_marker tid ev (emit_compaction_event ins now tid tn ag wk before summ ev d)"
  by (cases ev) (simp_all add: has_marker_def emit_compaction_event_def already_emitted_def insert_task_event_def
      compaction_details_def json_get_def)

lemma emit_compaction_marks:
  assumes "ev \<in> set evs" "ins ev" "list_all is_scalar summ"
  shows "has_marker tid ev (emit_compaction_task_events ins now tid tn ag wk evs before summ d)"
  using assms(1)
proof (induction evs rule: rev_induct)
  case (snoc x evs)
  let ?d = "emit_compaction_task_events ins now tid tn ag wk evs before summ d"
  have step: "emit_compaction_task_events ins now tid tn ag wk (evs @ [x]) before summ d
      = emit_compaction_event ins now tid tn ag wk before summ x ?d"
    by (simp add: emit_compaction_task_events_def)
  show ?case
  proof (cases "ev = x")
    case True
    with assms step show ?thesis by (simp add: emit_event_marks)
  next
    case False
    with snoc have "has_marker tid ev ?d" by simp
    moreover obtain new where "events (emit_compaction_event ins now tid tn ag wk before summ x ?d) = events ?d @ new"
      using emit_event_appends by blast
    ultimately show ?thesis unfolding step by (rule emitted_stays)
  qed
qed simp

text \<open>
  C32. The activity markers are written once: an agent turn keeps the markers of a
  database unique per task and firing, for every replay with any other worker, time or
  summariser answer, and a firing whose insert commits has its marker afterwards.
\<close>

theorem turn_markers_are_unique:
  assumes "markers_unique d" "agent_node e model st d s = (r, d', s', waits)"
  shows "markers_unique d'
    \<and> ((\<forall>a b. r \<noteq> ContextExceeded a b) \<and> list_all is_scalar (summary_after st (pr_updates (turn_hook e st))) \<longrightarrow>
        (\<forall>ev \<in> set (pr_events (turn_hook e st)). ae_event_ok e ev \<longrightarrow> has_marker (ae_task e) ev d'))"
proof (cases rule: agent_node_ends [of e st model d s])
  case (exceeded est window)
  then show ?thesis using assms by simp
next
  case asked
  let ?d1 = "emit_compaction_task_events (ae_event_ok e) (ae_now e) (ae_task e) (ae_tenant e) (ae_agent e)
    (ae_worker e) (pr_events (turn_hook e st)) (summarized_through st) (summary_after st (pr_updates (turn_hook e st))) d"
  have "d' = ?d1 \<or> (\<exists>evs. d' = emit_offload_task_event (ae_offload_ok e) (ae_now e) (ae_task e) (ae_tenant e) (ae_agent e)
      (ae_worker e) evs (length (messages st)) ?d1)"
    using assms(2) asked(1) by (auto simp: agent_node_def Let_def split_beta split: sum.splits)
  then obtain new where d': "markers_unique ?d1 \<Longrightarrow> markers_unique d'" "events d' = events ?d1 @ new"
    using emit_offload_unique emit_offload_appends by (metis append_Nil2)
  show ?thesis
    using d'(1) [OF emit_compaction_unique [OF assms(1)]] emit_compaction_marks [THEN emitted_stays [OF _ d'(2)]] by simp
qed

section \<open>Retries\<close>

lemma contains_text_append: "contains_text p s \<Longrightarrow> contains_text p (u @ s)"
  by (induction u) simp_all

lemma contains_text_split: "contains_text p s \<longleftrightarrow> (\<exists>u v. s = u @ p @ v)"
proof
  show "contains_text p s \<Longrightarrow> \<exists>u v. s = u @ p @ v"
  proof (induction p s rule: contains_text.induct)
    case (2 p c s)
    show ?case
    proof (cases "startswith p (c # s)")
      case True
      then have "c # s = [] @ p @ drop (length p) (c # s)" by (metis append_Nil append_take_drop_id startswith_def)
      then show ?thesis by blast
    next
      case False
      with 2 show ?thesis by (metis append_Cons contains_text.simps(2))
    qed
  qed simp
  have "contains_text p (p @ v)" for v
    by (cases "p @ v") (simp, metis append_eq_conv_conj contains_text.simps(2) startswith_def)
  then show "\<exists>u v. s = u @ p @ v \<Longrightarrow> contains_text p s"
    by (auto intro: contains_text_append)
qed

lemma ask_model_revoked:
  assumes "\<forall>k. set_before (calls k) \<or> set_during (calls k)"
  obtains what where "await_or_cancel tid (lit ''agent'') (calls k) = Inl (lease_revoked tid what)"
  using assms by (cases "set_before (calls k)") (auto simp: await_or_cancel_def intro: that)

text \<open>
  A worker that loses the lease of a task whose id contains 429 does not stop: the
  exception names the task, the rate-limit test finds 429 in its text, and the agent node
  sleeps 5, 10, 20, 30 and 30 seconds before it gives up.
\<close>

theorem revoked_lease_waits_for_429:
  assumes "contains_text (lit ''429'') (lit tid)" "\<forall>k. set_before (calls k) \<or> set_during (calls k)"
  shows "\<exists>what. ask_model tid calls MAX_RATE_LIMIT_RETRIES 0 = (Inl (lease_revoked tid what), [5, 10, 20, 30, 30])"
proof -
  obtain u v where "lit tid = u @ lit ''429'' @ v" using assms(1) contains_text_split by blast
  then have "lower (ex_text (lease_revoked tid what)) =
      lower (lit ''Task '' @ u) @ lit ''429'' @ lower (v @ lit '' cancelled or lease revoked '' @ what)" for what
    by (simp add: lease_revoked_def lower_def lit_def of_char_def)
  then have rate: "is_rate_limit_error (lease_revoked tid what)" for what
    unfolding is_rate_limit_error_def mentions_rate_limit_def contains_text_split by metis
  have wait: "backoff_or x (lease_revoked tid what) = x" for x what
    by (simp add: backoff_or_def get_retry_after_def walk_exception_chain_def lease_revoked_def)
  have step: "\<exists>what. ask_model tid calls left k = (Inl (lease_revoked tid what),
      map (\<lambda>i. min 30 (5 * 2 ^ i)) [k..<k + left])" for left k
  proof (induction left arbitrary: k)
    case 0
    obtain what where "await_or_cancel tid (lit ''agent'') (calls k) = Inl (lease_revoked tid what)"
      using ask_model_revoked [OF assms(2)] .
    then have "ask_model tid calls 0 k = (Inl (lease_revoked tid what), [])" by (subst ask_model.simps) simp
    then show ?case by auto
  next
    case (Suc l)
    obtain what where "await_or_cancel tid (lit ''agent'') (calls k) = Inl (lease_revoked tid what)"
      using ask_model_revoked [OF assms(2)] .
    moreover obtain what' where "ask_model tid calls l (Suc k) =
        (Inl (lease_revoked tid what'), map (\<lambda>i. min 30 (5 * 2 ^ i)) [Suc k..<Suc k + l])"
      using Suc.IH [of "Suc k"] by blast
    ultimately have "ask_model tid calls (Suc l) k =
        (Inl (lease_revoked tid what'), min 30 (5 * 2 ^ k) # map (\<lambda>i. min 30 (5 * 2 ^ i)) [Suc k..<Suc k + l])"
      by (subst ask_model.simps) (simp add: rate wait)
    moreover have "[k..<k + Suc l] = k # [Suc k..<Suc k + l]" by (simp add: upt_conv_Cons)
    ultimately show ?case by auto
  qed
  show ?thesis using step [of MAX_RATE_LIMIT_RETRIES 0] by (simp add: MAX_RATE_LIMIT_RETRIES_def upt_rec [of _ "Suc _"] upt_conv_Cons)
qed

section \<open>The flush turn\<close>

lemma flush_flag_frame [simp]:
  "effective_through raw (st\<lparr>flush_fired := b\<rparr>) = effective_through raw st"
  "hook_projection h (st\<lparr>flush_fired := b\<rparr>) = hook_projection h st"
  "keep_start h raw (st\<lparr>flush_fired := b\<rparr>) = keep_start h raw st"
  "plan_reserve e (st\<lparr>flush_fired := b\<rparr>) = plan_reserve e st"
proof -
  show pj: "hook_projection h (st\<lparr>flush_fired := b\<rparr>) = hook_projection h st"
    by (intro ext) (simp add: hook_projection_def shown_observations_def shown_rationales_def split: option.split)
  show eff: "effective_through raw (st\<lparr>flush_fired := b\<rparr>) = effective_through raw st"
    by (simp add: effective_through_def)
  show "keep_start h raw (st\<lparr>flush_fired := b\<rparr>) = keep_start h raw st" by (simp add: keep_start_def Let_def pj eff cong: if_cong)
  show "plan_reserve e (st\<lparr>flush_fired := b\<rparr>) = plan_reserve e st" by (simp add: plan_reserve_def)
qed

text \<open>
  C33. When the memory flush is due and the projection with the flush message is over the
  window, the task is dead-lettered in that turn although summarising would have made it
  fit: the same state with the flush already done asks the model. No update is returned,
  so a redrive ends the same way.
\<close>

theorem flush_turn_forfeits_compaction:
  fixes e :: "'s agent_env" and st :: run_state
  defines "h \<equiv> (ae_hook e)\<lparr>he_reserved := plan_reserve e st\<rparr>"
  defines "middle \<equiv> hook_middle h (messages st) st" and "kws \<equiv> keep_start h (messages st) st"
  assumes "should_fire_pre_tier3_flush st (he_config h) (messages st)" "\<not> fatal st"
    and "firings st < TIER_3_MAX_FIRINGS_PER_TASK" "middle \<noteq> []"
    and "trigger_tokens (he_window h) \<le> estimate h (hook_projection h st middle (drop kws (messages st)))"
    and "he_window h < estimate h (hook_projection h st middle (drop kws (messages st)) @ [flush_message])"
    and "\<forall>m. \<exists>res. he_summarizer h m middle (summary st) (int kws) = Some res \<and> \<not> sr_skipped res \<and> sr_summary res = Some new"
    and "strip new \<noteq> []"
    and "estimate h (build_projection (he_system h) (he_platform h) (strip new) [] (drop kws (messages st))
      (observations st) (commit_rationales st)) \<le> he_window h"
  shows "(\<exists>n. agent_node e model st d s = (ContextExceeded n (he_window h), d, s, []))
    \<and> (\<forall>a b. fst (agent_node e model (st\<lparr>flush_fired := True\<rparr>) d s) \<noteq> ContextExceeded a b)"
proof
  let ?pj = "hook_projection h st middle (drop kws (messages st))"
  have mid: "stub_recalled_outside_keep_window (slice (messages st) (effective_through (messages st) st) kws) = middle"
    by (simp add: middle_def hook_middle_def kws_def)
  have "turn_hook e st = \<lparr>pr_messages = ?pj @ [flush_message],
      pr_updates = (no_updates (int (length (messages st))))\<lparr>u_flush := True\<rparr>,
      pr_events = FlushFired (length (messages st)) # hard_floor h (estimate h (?pj @ [flush_message])), pr_skipped = False\<rparr>"
    unfolding turn_hook_def h_def [symmetric] compaction_pre_model_hook_def Let_def kws_def [symmetric] mid
    using assms(4-6,8) by simp
  then show "\<exists>n. agent_node e model st d s = (ContextExceeded n (he_window h), d, s, [])"
    using assms(9) by (simp add: agent_node_def Let_def hard_floor_def)
  let ?st = "st\<lparr>flush_fired := True\<rparr>"
  have no_flush: "\<not> should_fire_pre_tier3_flush ?st (he_config h) (messages st)"
    by (simp add: should_fire_pre_tier3_flush_def)
  have hook: "turn_hook e ?st = summarise h (messages st) ?st (effective_through (messages st) st) kws middle ?pj"
    unfolding turn_hook_def flush_flag_frame h_def [symmetric] compaction_pre_model_hook_def Let_def kws_def [symmetric] mid
    using assms(5,6,8) no_flush by (simp add: kws_def [symmetric] mid)
  define m where "m = (case json_get ''summarizer_model'' (json_section ''context_management'' (he_config h)) of
      Some (JStr m) \<Rightarrow> if m = [] then he_default_model h else m | _ \<Rightarrow> he_default_model h)"
  obtain res where r: "he_summarizer h m middle (summary st) (int kws) = Some res" "\<not> sr_skipped res" "sr_summary res = Some new"
    using assms(10) by blast
  have res: "turn_hook e ?st = fire h (messages st) ?st (effective_through (messages st) st) kws (strip new) res"
    unfolding hook summarise_def Let_def m_def [symmetric] using assms(7,11) by (simp add: r)
  have "first_hard_floor (pr_events (turn_hook e ?st)) = None"
    using assms(12) by (simp add: res fire_def Let_def hard_floor_def)
  then show "\<forall>a b. fst (agent_node e model ?st d s) \<noteq> ContextExceeded a b"
    by (cases rule: agent_node_ends [of e ?st model d s]) auto
qed

end
