(* ===== verification/AgentRuns.thy ===== *)
theory AgentRuns
  imports AgentNode
begin

text \<open>
  A turn of a small task, which the properties of \<open>AgentNode\<close> are applied to: nine messages, of which
  the first three are summarised, and a plan of one item.  The window is ten, and a message counts one.
\<close>

definition demo_plan :: "plan_item list" where
  "demo_plan = [\<lparr>pi_id = [1], pi_title = [2], pi_status = lit ''pending''\<rparr>]"

definition turn_state :: run_state where
  "turn_state = demo_state\<lparr>plan := demo_plan\<rparr>"

definition memory_config :: json where
  "memory_config = JObj [(''memory'', JObj [(''enabled'', JBool True)])]"

definition demo_agent :: "json \<Rightarrow> unit agent_env" where
  "demo_agent cfg = \<lparr>ae_hook = demo_env\<lparr>he_window := 10, he_config := cfg\<rparr>, ae_show = (\<lambda>_. []), ae_switch = [],
     ae_provider = ''anthropic'', ae_model = [], ae_tenant = ''t'', ae_agent = ''a'', ae_task = ''x'', ae_worker = ''w'',
     ae_printable = (\<lambda>_. True), ae_store = None, ae_now = 0, ae_now_iso = JStr [], ae_event_ok = (\<lambda>_. True),
     ae_offload_ok = True\<rparr>"

definition demo_reply :: message where
  "demo_reply = (plain_message Ai [8])\<lparr>msg_id := Some [99]\<rparr>"

definition demo_model :: "message list \<Rightarrow> nat \<Rightarrow> model_call" where
  "demo_model ms k = \<lparr>set_before = False, set_during = False, model_result = Inr demo_reply\<rparr>"

definition demo_hook :: "json \<Rightarrow> hook_env" where
  "demo_hook cfg = (ae_hook (demo_agent cfg))\<lparr>he_reserved := 1\<rparr>"

lemma plan_frame [simp]:
  "effective_through raw (st\<lparr>plan := p\<rparr>) = effective_through raw st"
  "hook_projection h (st\<lparr>plan := p\<rparr>) = hook_projection h st"
proof -
  show "hook_projection h (st\<lparr>plan := p\<rparr>) = hook_projection h st"
    by (intro ext) (simp add: hook_projection_def shown_observations_def shown_rationales_def split: option.split)
  show "effective_through raw (st\<lparr>plan := p\<rparr>) = effective_through raw st"
    by (simp add: effective_through_def)
qed

lemma demo_reserve: "plan_reserve (demo_agent cfg) turn_state = 1"
  by (simp add: plan_reserve_def plan_block_reserved_tokens_def turn_state_def demo_plan_def demo_agent_def demo_env_def)

lemma demo_messages: "messages turn_state = demo_journal" "length demo_journal = 9"
  by (simp_all add: turn_state_def demo_state_def demo_journal_def)

lemma demo_start: "keep_start (demo_hook cfg) demo_journal turn_state = 3"
proof -
  have "slice demo_journal 0 3 \<noteq> []" by (simp add: slice_def demo_journal_def)
  then show ?thesis by (simp add: keep_start_def turn_state_def demo_window Let_def)
qed

lemma turn_middle: "length (hook_middle (demo_hook cfg) demo_journal turn_state) = 3"
proof -
  have "effective_through demo_journal turn_state = 0" using demo_window(2) by (simp add: turn_state_def)
  then show ?thesis by (simp add: hook_middle_def demo_start slice_def stub_recalled_outside_keep_window_def demo_messages)
qed

lemma empty_blocks: "format_observations_block [] = []" "format_commit_rationales_block [] = []"
  by (simp_all add: format_observations_block_def format_commit_rationales_block_def)

lemma demo_channels:
  "observations turn_state = []" "commit_rationales turn_state = []" "shown_observations turn_state = []"
  "shown_rationales turn_state = []" "summary turn_state = []" "he_system (demo_hook cfg) = None"
  "he_platform (demo_hook cfg) = None" "he_estimate (demo_hook cfg) = length" "he_reserved (demo_hook cfg) = 1"
  "he_window (demo_hook cfg) = 10" "he_config (demo_hook cfg) = cfg" "fatal turn_state = False" "firings turn_state = 0"
  "summarized_through turn_state = 0" "plan turn_state = demo_plan"
  by (simp_all add: turn_state_def demo_state_def shown_observations_def shown_rationales_def demo_hook_def demo_agent_def
      demo_env_def)

lemma demo_sizes:
  "estimate (demo_hook cfg) (hook_projection (demo_hook cfg) turn_state (hook_middle (demo_hook cfg) demo_journal turn_state)
     (drop 3 demo_journal)) = 10"
  "estimate (demo_hook cfg) (hook_projection (demo_hook cfg) turn_state (hook_middle (demo_hook cfg) demo_journal turn_state)
     (drop 3 demo_journal) @ [flush_message]) = 11"
  "estimate (demo_hook cfg) (build_projection None None [6] [] (drop 3 demo_journal) [] []) = 8"
  by (simp_all add: estimate_def hook_projection_def build_projection_def turn_middle demo_messages demo_channels
      system_region_def empty_blocks)

lemma demo_agent_hook: "(ae_hook (demo_agent cfg))\<lparr>he_reserved := plan_reserve (demo_agent cfg) turn_state\<rparr> = demo_hook cfg"
  by (simp add: demo_reserve demo_hook_def)

lemma demo_trigger: "trigger_tokens 10 = 8"
  by (simp add: trigger_tokens_def float_mul_trunc_def round53_def bit_length.simps [of "numeral _"] bit_length.simps [of 1]
      bit_length.simps [of "Suc 0"] round_half_even_def Let_def)

lemma strip_6: "strip [6] = [6]"
  by (simp add: strip_def lstrip_def rstrip_def is_space_def py_spaces_def)

theorem flush_turn_forfeits_compaction_witness:
  "\<exists>n. agent_node (demo_agent memory_config) demo_model turn_state empty_db () = (ContextExceeded n 10, empty_db, (), [])"
proof -
  note flush_turn_forfeits_compaction [of turn_state "demo_agent memory_config" "[6]" demo_model empty_db "()",
      unfolded demo_agent_hook demo_messages demo_start demo_channels strip_6]
  moreover have "should_fire_pre_tier3_flush turn_state memory_config demo_journal"
    by (simp add: should_fire_pre_tier3_flush_def memory_config_def json_section_def json_get_def is_heartbeat_turn_def
        demo_messages) (simp add: turn_state_def demo_state_def)
  moreover have "hook_middle (demo_hook cfg) demo_journal turn_state \<noteq> []" for cfg
    using turn_middle [of cfg] by auto
  moreover have "\<exists>res. he_summarizer (demo_hook cfg) m ms prior n = Some res \<and> \<not> sr_skipped res \<and> sr_summary res = Some [6]"
    for cfg m ms prior n
    by (simp add: demo_hook_def demo_agent_def demo_env_def)
  ultimately show ?thesis
    by (simp add: demo_sizes demo_trigger TIER_3_MAX_FIRINGS_PER_TASK_def)
qed

text \<open>Without memory there is no flush: the middle is summarised and the model is asked.\<close>

lemma demo_fires_hook:
  "turn_hook (demo_agent JNull) turn_state =
     fire (demo_hook JNull) demo_journal turn_state 0 3 [6]
       \<lparr>sr_skipped = False, sr_reason = None, sr_summary = Some [6], sr_model = [7], sr_tokens_in = 1, sr_tokens_out = 1,
        sr_cost = 0, sr_latency = 0\<rparr>"
proof -
  have eff: "effective_through demo_journal turn_state = 0" using demo_window(2) by (simp add: turn_state_def)
  have mid: "stub_recalled_outside_keep_window (slice demo_journal 0 3) = hook_middle (demo_hook JNull) demo_journal turn_state"
    by (simp add: hook_middle_def eff demo_start)
  have "hook_middle (demo_hook JNull) demo_journal turn_state \<noteq> []" using turn_middle [of JNull] by auto
  moreover have "he_summarizer (demo_hook JNull) m ms prior n = Some
      \<lparr>sr_skipped = False, sr_reason = None, sr_summary = Some [6], sr_model = m, sr_tokens_in = 1, sr_tokens_out = 1,
        sr_cost = 0, sr_latency = 0\<rparr>" "he_default_model (demo_hook JNull) = [7]" for m ms prior n
    by (simp_all add: demo_hook_def demo_agent_def demo_env_def)
  ultimately show ?thesis
    by (simp add: turn_hook_def demo_agent_hook demo_messages compaction_pre_model_hook_def Let_def demo_start eff mid
        demo_sizes demo_channels demo_trigger TIER_3_MAX_FIRINGS_PER_TASK_def should_fire_pre_tier3_flush_def json_section_def
        json_get_def summarise_def strip_6)
qed

lemma demo_events: "pr_events (turn_hook (demo_agent JNull) turn_state) = [Tier3Fired [7] 1 1 3]"
  by (simp add: demo_fires_hook fire_def Let_def hard_floor_def demo_sizes demo_channels)

lemma demo_asks:
  "ask_model ''x'' (demo_model ms) MAX_RATE_LIMIT_RETRIES 0 = (Inr demo_reply, [])"
  by (subst ask_model.simps) (simp add: await_or_cancel_def demo_model_def)

lemma demo_fields: "ae_task (demo_agent cfg) = ''x''" "ae_store (demo_agent cfg) = None"
  by (simp_all add: demo_agent_def)

lemma demo_returns:
  "\<exists>u d'. agent_node (demo_agent JNull) demo_model turn_state d () = (Returned u, d', (), [])"
  by (simp add: agent_node_def Let_def demo_events split_beta demo_asks demo_fields)

theorem request_fits_the_window_witness:
  "length (turn_projection (demo_agent JNull) turn_state) \<le> 11 \<and> plan turn_state \<noteq> []"
proof -
  obtain u d' where "agent_node (demo_agent JNull) demo_model turn_state undefined () = (Returned u, d', (), [])"
    using demo_returns by blast
  moreover have "he_estimate (ae_hook (demo_agent JNull)) = length" "he_window (ae_hook (demo_agent JNull)) = 10"
    by (simp_all add: demo_agent_def demo_env_def)
  ultimately show ?thesis
    using request_fits_the_window [of "demo_agent JNull" demo_model turn_state undefined "()"]
    by (simp add: demo_channels) (simp add: demo_plan_def)
qed

lemma demo_no_plan_block: "m \<in> set demo_journal \<Longrightarrow> \<not> is_plan_block m"
  by (auto simp: demo_journal_def demo_call_def demo_result_def plain_message_def is_plan_block_def kwarg_true_def kwarg_def
      PLAN_BLOCK_KWARG_def)

theorem plan_block_only_in_requests_witness:
  "is_plan_block (last (messages_for_llm (demo_agent JNull) turn_state))
   \<and> (\<exists>u d'. agent_node (demo_agent JNull) demo_model turn_state empty_db () = (Returned u, d', (), [])
        \<and> (\<exists>ms. u_messages u = Some ms \<and> (\<forall>m \<in> set ms. \<not> is_plan_block m)))"
proof -
  obtain u d' where node: "agent_node (demo_agent JNull) demo_model turn_state empty_db () = (Returned u, d', (), [])"
    using demo_returns by blast
  have "\<not> is_plan_block demo_reply"
    by (simp add: demo_reply_def plain_message_def is_plan_block_def kwarg_true_def kwarg_def)
  then show ?thesis
    using plan_block_only_in_requests [OF node] node demo_no_plan_block
    by (auto simp: demo_messages demo_model_def demo_channels demo_plan_def made_block_is_plan_block)
qed

lemma merge_appends_new: "appends_new merge_by_id"
proof -
  have "find (\<lambda>r'. msg_id r' = msg_id m) (rs @ [r]) = find (\<lambda>r'. msg_id r' = msg_id m) rs" if "msg_id r \<noteq> msg_id m"
    for m r :: message and rs
    using that by (induction rs) simp_all
  then have "merge_by_id ms (rs @ [r]) = (if rs = [] then ms else merge_by_id ms rs) @ [r]"
    if "msg_id r \<notin> msg_id ` (set ms \<union> set rs)" for ms rs r
    using that by (auto simp: merge_by_id_def image_iff intro!: map_cong map_idI)
  then show ?thesis by (simp add: appends_new_def)
qed

theorem turn_is_hook_then_reply_witness:
  "\<exists>u d'. agent_node (demo_agent JNull) demo_model turn_state empty_db () = (Returned u, d', (), [])
    \<and> msg_id (last (messages (apply_updates merge_by_id turn_state u))) = Some [99]"
proof -
  obtain u d' where node: "agent_node (demo_agent JNull) demo_model turn_state empty_db () = (Returned u, d', (), [])"
    using demo_returns by blast
  have "msg_id demo_reply \<notin> msg_id ` set (messages turn_state)"
    by (auto simp: demo_reply_def demo_messages demo_journal_def demo_call_def demo_result_def plain_message_def)
  then obtain calls where "apply_updates merge_by_id turn_state u =
      (apply_updates merge_by_id turn_state (pr_updates (turn_hook (demo_agent JNull) turn_state)))
        \<lparr>messages := messages (apply_updates merge_by_id turn_state (pr_updates (turn_hook (demo_agent JNull) turn_state)))
            @ [stamp_emitted_at (ae_now_iso (demo_agent JNull)) (demo_reply\<lparr>tool_calls := calls\<rparr>)]\<rparr>"
    using turn_is_hook_then_reply [OF node merge_appends_new] demo_asks by (auto simp: demo_fields)
  moreover have "msg_id (stamp_emitted_at stamp (demo_reply\<lparr>tool_calls := calls\<rparr>)) = Some [99]" for stamp
    by (simp add: stamp_emitted_at_def demo_reply_def)
  ultimately show ?thesis using node by simp
qed

theorem turn_markers_are_unique_witness:
  "markers_unique (fst (snd (agent_node (demo_agent JNull) demo_model turn_state empty_db ())))
   \<and> has_marker ''x'' (Tier3Fired [7] 1 1 3) (fst (snd (agent_node (demo_agent JNull) demo_model turn_state empty_db ())))"
proof -
  obtain u d' where node: "agent_node (demo_agent JNull) demo_model turn_state empty_db () = (Returned u, d', (), [])"
    using demo_returns by blast
  have "markers_unique empty_db" by (simp add: markers_unique_def empty_db_def List.map_filter_simps)
  moreover have "summary_after turn_state (pr_updates (turn_hook (demo_agent JNull) turn_state)) = [6]"
    by (simp add: summary_after_def demo_fires_hook fire_def Let_def)
  moreover have "ae_event_ok (demo_agent JNull) ev" for ev by (simp add: demo_agent_def)
  ultimately show ?thesis
    using turn_markers_are_unique [OF _ node] by (simp add: node demo_events demo_fields is_scalar_def)
qed

theorem revoked_lease_waits_for_429_witness:
  "\<exists>what. ask_model ''ab429c'' (\<lambda>k. \<lparr>set_before = 0 < k, set_during = True, model_result = Inr demo_reply\<rparr>)
     MAX_RATE_LIMIT_RETRIES 0 = (Inl (lease_revoked ''ab429c'' what), [5, 10, 20, 30, 30])"
  by (rule revoked_lease_waits_for_429) (simp_all add: lit_def of_char_def startswith_def)

end
