(* ===== verification/MemoryGraph.thy ===== *)
theory MemoryGraph
  imports Transitions Compaction PromptCache Failures
begin

text \<open>
  \<open>executor/memory_graph.py\<close> and the methods of \<open>executor/graph.py\<close> it calls: which tasks write a
  memory, what the summariser is asked and how its answer is read, the row that the node and the
  dead-letter path propose, and the preamble of attached memories.  Python's \<open>TypeError\<close> on joining
  a value that is no text is \<open>None\<close>.  \<open>show\<close> is \<open>str\<close> of a value that is no text.
\<close>

section \<open>The gate\<close>

record memory_decision =
  stack_enabled :: bool
  auto_write :: bool

definition task_memory_mode :: "json option \<Rightarrow> pystr" where
  "task_memory_mode j = (case j of Some (JStr s) \<Rightarrow> s | _ \<Rightarrow> lit ''always'')"

definition effective_memory_decision :: "json \<Rightarrow> pystr \<Rightarrow> memory_decision" where
  "effective_memory_decision agent_config mode =
     (case json_get ''memory'' agent_config of
        Some (JObj memory) \<Rightarrow>
          if map_of memory ''enabled'' \<noteq> Some (JBool True) then \<lparr>stack_enabled = False, auto_write = False\<rparr>
          else if mode = lit ''always'' then \<lparr>stack_enabled = True, auto_write = True\<rparr>
          else if mode = lit ''agent_decides'' then \<lparr>stack_enabled = True, auto_write = False\<rparr>
          else \<lparr>stack_enabled = False, auto_write = False\<rparr>
      | _ \<Rightarrow> \<lparr>stack_enabled = False, auto_write = False\<rparr>)"

section \<open>Templates\<close>

definition SUMMARIZER_TEMPLATE_FALLBACK :: string where "SUMMARIZER_TEMPLATE_FALLBACK = ''template:fallback''"

definition SUMMARIZER_TEMPLATE_DEAD_LETTER :: string where
  "SUMMARIZER_TEMPLATE_DEAD_LETTER = ''template:dead_letter''"

definition TITLE_INPUT_SLICE_CHARS :: nat where "TITLE_INPUT_SLICE_CHARS = 80"

definition SUMMARY_FINAL_OUTPUT_SLICE_CHARS :: nat where "SUMMARY_FINAL_OUTPUT_SLICE_CHARS = 1024"

definition DEAD_LETTER_TITLE_INPUT_SLICE_CHARS :: nat where "DEAD_LETTER_TITLE_INPUT_SLICE_CHARS = 50"

text \<open>\<open>str.split()\<close>.\<close>

fun split_words :: "pystr \<Rightarrow> pystr \<Rightarrow> pystr list" where
  "split_words w [] = (if w = [] then [] else [w])"
| "split_words w (c # s) =
     (if is_space c then (if w = [] then [] else [w]) @ split_words [] s else split_words (w @ [c]) s)"

definition sanitize_one_line :: "pystr \<Rightarrow> pystr" where
  "sanitize_one_line s = join [32] (split_words [] s)"

definition short :: "nat \<Rightarrow> pystr \<Rightarrow> pystr" where
  "short limit s =
     (let cleaned = sanitize_one_line s in
      if length cleaned \<le> limit then cleaned else take limit cleaned @ lit ''...'')"

definition or_empty :: "pystr option \<Rightarrow> pystr" where
  "or_empty s = (case s of None \<Rightarrow> [] | Some x \<Rightarrow> x)"

definition build_pending_memory_template_fallback ::
  "pystr option \<Rightarrow> pystr option \<Rightarrow> pystr list \<Rightarrow> pystr list \<Rightarrow> pending_memory" where
  "build_pending_memory_template_fallback task_input final_output obs rationales =
     \<lparr>pm_title = lit ''Completed: '' @ take TITLE_INPUT_SLICE_CHARS (sanitize_one_line (or_empty task_input)),
      pm_summary = strip (take SUMMARY_FINAL_OUTPUT_SLICE_CHARS (or_empty final_output)
        @ lit '' [summary generation unavailable; review observations and linked task trace for detail.]''),
      pm_observations = obs, pm_rationales = rationales, pm_outcome = ''succeeded'', pm_tags = [], pm_vec = None,
      pm_model = Some SUMMARIZER_TEMPLATE_FALLBACK, pm_tokens_in = 0, pm_tokens_out = 0, pm_cost = 0,
      pm_embedding_cost = 0\<rparr>"

definition build_pending_memory_dead_letter_template ::
  "pystr option \<Rightarrow> pystr list \<Rightarrow> int option \<Rightarrow> pystr option \<Rightarrow> pystr option \<Rightarrow> pystr list \<Rightarrow> pending_memory" where
  "build_pending_memory_dead_letter_template task_input obs retries error_code error_message rationales =
     (let input_slice = take DEAD_LETTER_TITLE_INPUT_SLICE_CHARS (sanitize_one_line (or_empty task_input));
          code = (if or_empty error_code = [] then lit ''unknown_error'' else or_empty error_code);
          msg = short 500 (or_empty error_message);
          headline = lit ''Task dead-lettered after '' @ dec (case retries of None \<Rightarrow> 0 | Some n \<Rightarrow> n)
            @ lit '' retries: '' @ code
      in \<lparr>pm_title = (if input_slice = [] then lit ''[Failed]'' else lit ''[Failed] '' @ input_slice),
          pm_summary = (if msg = [] then headline else headline @ [32, 8212, 32] @ msg),
          pm_observations = obs, pm_rationales = rationales, pm_outcome = ''failed'', pm_tags = [], pm_vec = None,
          pm_model = Some SUMMARIZER_TEMPLATE_DEAD_LETTER, pm_tokens_in = 0, pm_tokens_out = 0, pm_cost = 0,
          pm_embedding_cost = 0\<rparr>)"

section \<open>What the summariser is asked\<close>

text \<open>The \<open>text\<close> of the blocks of type \<open>text\<close>, as \<open>block.get("text", "")\<close> gives it.\<close>

definition text_blocks :: "json list \<Rightarrow> json list" where
  "text_blocks bs =
     List.map_filter (\<lambda>b. case b of
         JObj kvs \<Rightarrow> if map_of kvs ''type'' = Some (JStr (lit ''text''))
                      then Some (case map_of kvs ''text'' of None \<Rightarrow> JStr [] | Some t \<Rightarrow> t) else None
       | _ \<Rightarrow> None) bs"

definition as_text :: "json \<Rightarrow> pystr option" where
  "as_text j = (case j of JStr s \<Rightarrow> Some s | _ \<Rightarrow> None)"

definition join_texts :: "pystr \<Rightarrow> json list \<Rightarrow> pystr option" where
  "join_texts sep js = map_option (join sep) (those (map as_text js))"

text \<open>Searched from the last message backwards; the outer \<open>None\<close>: joining raises.\<close>

fun final_output_from :: "message list \<Rightarrow> pystr option option" where
  "final_output_from [] = Some None"
| "final_output_from (m # ms) =
     (if role m \<noteq> Ai then final_output_from ms
      else case content m of
        Plain s \<Rightarrow> if strip s \<noteq> [] then Some (Some s) else final_output_from ms
      | content.Blocks bs \<Rightarrow>
          (case join_texts [NL] (filter json_truthy (text_blocks bs)) of
             None \<Rightarrow> None
           | Some joined \<Rightarrow> if strip joined \<noteq> [] then Some (Some joined) else final_output_from ms))"

definition extract_final_output :: "message list \<Rightarrow> pystr option option" where
  "extract_final_output ms = final_output_from (rev ms)"

definition role_upper :: "role \<Rightarrow> pystr" where
  "role_upper r = (case r of System \<Rightarrow> lit ''SYSTEM'' | Human \<Rightarrow> lit ''HUMAN'' | Ai \<Rightarrow> lit ''AI'' | ToolRole \<Rightarrow> lit ''TOOL'')"

definition SUMMARIZER_SYSTEM :: pystr where
  "SUMMARIZER_SYSTEM =
     lit ''You are the post-task memory summarizer. Produce a concise, retrospective memory entry for the task that just completed. ''
     @ lit ''Output exactly two sections, separated by a single blank line:'' @ [NL]
     @ lit ''TITLE: <one line, action-oriented, max 10 words>'' @ [NL]
     @ lit ''SUMMARY: <one paragraph, '' @ [8804] @ lit ''400 words, describing what happened and why '' @ [8212]
     @ lit '' lean on the agent findings below; treat commit rationale(s) as justification context, not content to repeat verbatim>''"

definition bullet_block :: "pystr \<Rightarrow> pystr list \<Rightarrow> pystr" where
  "bullet_block header xs =
     (if xs = [] then header @ lit '': (none)'' else header @ lit '':'' @ [NL] @ join [NL] (map (\<lambda>x. lit ''- '' @ x) xs))"

definition transcript_line :: "message \<Rightarrow> pystr option" where
  "transcript_line m =
     map_option (\<lambda>s. role_upper (role m) @ lit '': '' @ take 2000 s)
       (case content m of Plain s \<Rightarrow> Some s | content.Blocks bs \<Rightarrow> join_texts [NL] (text_blocks bs))"

definition build_summarizer_prompt :: "message list \<Rightarrow> pystr list \<Rightarrow> pystr list \<Rightarrow> (pystr \<times> pystr) option" where
  "build_summarizer_prompt ms obs rationales =
     map_option (\<lambda>lines. (SUMMARIZER_SYSTEM,
         bullet_block (lit ''AGENT FINDINGS'') obs @ NL2 @ bullet_block (lit ''COMMIT RATIONALE'') rationales
         @ NL2 @ lit ''TRANSCRIPT:'' @ [NL] @ join [NL] lines))
       (those (map transcript_line (drop (length ms - 40) ms)))"

section \<open>How its answer is read\<close>

datatype parse_mode = NoMode | AfterTitle | InSummary

definition after_colon :: "pystr \<Rightarrow> pystr" where
  "after_colon line = drop 1 (dropWhile (\<lambda>c. c \<noteq> 58) line)"

fun parse_lines :: "parse_mode \<Rightarrow> pystr \<Rightarrow> pystr list \<Rightarrow> pystr list \<Rightarrow> pystr \<times> pystr list" where
  "parse_lines mode title acc [] = (title, acc)"
| "parse_lines mode title acc (line # lines) =
     (let l = lower (lstrip line) in
      if startswith (lit ''title:'') l then parse_lines AfterTitle (strip (after_colon line)) acc lines
      else if startswith (lit ''summary:'') l then parse_lines InSummary title (acc @ [strip (after_colon line)]) lines
      else if mode = InSummary then parse_lines InSummary title (acc @ [line]) lines
      else if mode = NoMode then parse_lines InSummary (strip line) acc lines
      else parse_lines mode title acc lines)"

definition parse_summarizer_response :: "pystr \<Rightarrow> pystr \<times> pystr" where
  "parse_summarizer_response s =
     (let (title, acc) = parse_lines NoMode [] [] (map rstrip (filter (\<lambda>l. strip l \<noteq> []) (splitlines s)))
      in (if length title > 200 then take 197 title @ lit ''...'' else title,
          strip (join [NL] (filter (\<lambda>l. l \<noteq> []) acc))))"

definition stringify_chat_content :: "content \<Rightarrow> pystr option" where
  "stringify_chat_content c =
     (case c of
        Plain s \<Rightarrow> Some s
      | content.Blocks bs \<Rightarrow>
          join_texts [NL] (concat (map (\<lambda>b. case b of JStr s \<Rightarrow> [JStr s] | _ \<Rightarrow> text_blocks [b]) bs)))"

definition resolve_provider_for_model :: "string \<Rightarrow> string" where
  "resolve_provider_for_model model =
     (if contains_text (lit ''claude'') (lower (lit model)) then ''anthropic'' else ''bedrock'')"

record summarizer_result =
  mr_title :: pystr
  mr_summary :: pystr
  mr_model :: string
  mr_tokens_in :: int
  mr_tokens_out :: int
  mr_cost :: int

text \<open>
  The callable that \<open>_build_summarizer_callable\<close> returns.  \<open>chat provider model messages\<close> is the model
  call (\<open>None\<close>: it raises): the content and the response metadata with the usage merged in.
\<close>

type_synonym chat_fn = "string \<Rightarrow> string \<Rightarrow> message list \<Rightarrow> (content \<times> json) option"

definition count_field :: "string \<Rightarrow> json \<Rightarrow> int" where
  "count_field k j = (case json_get k j of Some (JNum n) \<Rightarrow> n | _ \<Rightarrow> 0)"

definition memory_summarizer ::
  "chat_fn \<Rightarrow> rate_query \<Rightarrow> rate_cache \<Rightarrow> string \<Rightarrow> pystr \<Rightarrow> pystr \<Rightarrow> string \<Rightarrow> summarizer_result option" where
  "memory_summarizer chat q cache default_model system user model =
     (let m = (if model = [] then default_model else model) in
      case chat (resolve_provider_for_model m) m [plain_message System system, plain_message Human user] of
        None \<Rightarrow> None
      | Some (c, meta) \<Rightarrow>
          (case stringify_chat_content c of
             None \<Rightarrow> None
           | Some text \<Rightarrow>
               (case fst (calculate_step_cost q (lit m) None meta cache) of
                  None \<Rightarrow> None
                | Some (cost, md) \<Rightarrow>
                    (case parse_summarizer_response text of (title, summ) \<Rightarrow>
                       Some \<lparr>mr_title = title, mr_summary = summ, mr_model = m, mr_tokens_in = count_field ''input_tokens'' md,
                             mr_tokens_out = count_field ''output_tokens'' md, mr_cost = cost\<rparr>))))"

section \<open>The node\<close>

record embedding_result =
  em_vector :: string
  em_cost :: int

definition build_embedding_text :: "pending_memory \<Rightarrow> pystr" where
  "build_embedding_text pm =
     strip (join [32] (filter (\<lambda>p. p \<noteq> [])
       [pm_title pm, pm_summary pm, join [32] (pm_observations pm), join [32] (pm_tags pm)]))"

definition with_embedding :: "(pystr \<Rightarrow> embedding_result option) \<Rightarrow> pending_memory \<Rightarrow> pending_memory" where
  "with_embedding embedding pm =
     (case embedding (build_embedding_text pm) of
        None \<Rightarrow> pm\<lparr>pm_vec := None, pm_embedding_cost := 0\<rparr>
      | Some em \<Rightarrow> pm\<lparr>pm_vec := Some (em_vector em), pm_embedding_cost := em_cost em\<rparr>)"

definition summarised_memory ::
  "(pystr \<Rightarrow> pystr \<Rightarrow> string \<Rightarrow> summarizer_result option) \<Rightarrow> string \<Rightarrow> run_state \<Rightarrow> pending_memory option" where
  "summarised_memory summarizer model st =
     (case build_summarizer_prompt (messages st) (observations st) (commit_rationales st) of
        None \<Rightarrow> None
      | Some (system, user) \<Rightarrow>
          (case summarizer system user model of
             None \<Rightarrow> None
           | Some r \<Rightarrow>
               if mr_title r = [] \<or> mr_summary r = [] then None
               else Some \<lparr>pm_title = mr_title r, pm_summary = mr_summary r, pm_observations = observations st,
                 pm_rationales = commit_rationales st, pm_outcome = ''succeeded'', pm_tags = [], pm_vec = None,
                 pm_model = Some (if mr_model r = [] then model else mr_model r), pm_tokens_in = mr_tokens_in r,
                 pm_tokens_out = mr_tokens_out r, pm_cost = mr_cost r, pm_embedding_cost = 0\<rparr>))"

definition memory_write_node ::
  "(pystr \<Rightarrow> pystr \<Rightarrow> string \<Rightarrow> summarizer_result option) \<Rightarrow> (pystr \<Rightarrow> embedding_result option)
   \<Rightarrow> string \<Rightarrow> string option \<Rightarrow> pystr option \<Rightarrow> run_state \<Rightarrow> pending_memory option" where
  "memory_write_node summarizer embedding platform_default model_id task_input st =
     (let model = (case model_id of None \<Rightarrow> platform_default | Some m \<Rightarrow> if m = [] then platform_default else m) in
      case summarised_memory summarizer model st of
        Some pm \<Rightarrow> Some (with_embedding embedding pm)
      | None \<Rightarrow>
          map_option (\<lambda>out. with_embedding embedding
              (build_pending_memory_template_fallback task_input out (observations st) (commit_rationales st)))
            (extract_final_output (messages st)))"

section \<open>Attached memories and earlier history\<close>

definition ATTACH_INJECTION_TITLE_CAP :: nat where "ATTACH_INJECTION_TITLE_CAP = 200"
definition ATTACH_INJECTION_SUMMARY_CAP :: nat where "ATTACH_INJECTION_SUMMARY_CAP = 4000"
definition ATTACH_INJECTION_OBSERVATION_CAP :: nat where "ATTACH_INJECTION_OBSERVATION_CAP = 2000"

definition attached_block :: "resolved_memory \<Rightarrow> pystr" where
  "attached_block m =
     join [NL]
       ([lit ''[Attached memory: '' @ take ATTACH_INJECTION_TITLE_CAP (rm_title m) @ lit '']'']
        @ (if rm_observations m = [] then [lit ''Observations: (none)'']
           else lit ''Observations:''
             # map (\<lambda>x. lit ''- '' @ take ATTACH_INJECTION_OBSERVATION_CAP x) (rm_observations m))
        @ [lit ''Summary: '' @ take ATTACH_INJECTION_SUMMARY_CAP (rm_summary m)])"

definition build_attached_memories_preamble :: "resolved_memory list \<Rightarrow> pystr option" where
  "build_attached_memories_preamble es = (if es = [] then None else Some (join NL2 (map attached_block es)))"

text \<open>A checkpoint as its \<open>checkpoint\<close> value; \<open>None\<close>: there is no tuple.\<close>

definition channel_value :: "string \<Rightarrow> json option \<Rightarrow> json option" where
  "channel_value k ckpt =
     Option.bind ckpt (\<lambda>c. case json_get ''channel_values'' c of
         Some (JObj vs) \<Rightarrow> map_of vs k
       | _ \<Rightarrow> None)"

definition checkpoint_has_prior_history :: "json option \<Rightarrow> bool" where
  "checkpoint_has_prior_history ckpt \<longleftrightarrow> (case channel_value ''messages'' ckpt of None \<Rightarrow> False | Some ms \<Rightarrow> json_truthy ms)"

section \<open>The dead-letter path\<close>

definition read_texts_from_checkpoint :: "(json \<Rightarrow> pystr) \<Rightarrow> string \<Rightarrow> json option \<Rightarrow> pystr list" where
  "read_texts_from_checkpoint show k ckpt =
     (case channel_value k ckpt of
        Some (JList xs) \<Rightarrow> map (\<lambda>x. case x of JStr s \<Rightarrow> s | _ \<Rightarrow> show x) (filter (\<lambda>x. x \<noteq> JNull) xs)
      | _ \<Rightarrow> [])"

definition read_observations_from_checkpoint :: "(json \<Rightarrow> pystr) \<Rightarrow> json option \<Rightarrow> pystr list" where
  "read_observations_from_checkpoint show ckpt = read_texts_from_checkpoint show ''observations'' ckpt"

definition read_commit_rationales_from_checkpoint :: "(json \<Rightarrow> pystr) \<Rightarrow> json option \<Rightarrow> pystr list" where
  "read_commit_rationales_from_checkpoint show ckpt = read_texts_from_checkpoint show ''commit_rationales'' ckpt"

definition read_memory_opt_in_from_checkpoint :: "json option \<Rightarrow> bool" where
  "read_memory_opt_in_from_checkpoint ckpt =
     (case channel_value ''memory_opt_in'' ckpt of None \<Rightarrow> False | Some j \<Rightarrow> json_truthy j)"

text \<open>
  The pre-work of \<open>_handle_dead_letter\<close>: the row it writes, if any.  \<open>ckpt\<close> is what reading the latest
  checkpoint gives (\<open>None\<close> when that fails).
\<close>

definition dead_letter_pending ::
  "(json \<Rightarrow> pystr) \<Rightarrow> (pystr \<Rightarrow> embedding_result option) \<Rightarrow> bool \<Rightarrow> string \<Rightarrow> bool \<Rightarrow> pystr \<Rightarrow> json option
   \<Rightarrow> pystr option \<Rightarrow> int option \<Rightarrow> pystr option \<Rightarrow> pystr \<Rightarrow> pending_memory option" where
  "dead_letter_pending show embedding memory_enabled reason has_checkpointer mode ckpt task_input retries error_code msg =
     (let obs = read_observations_from_checkpoint show ckpt in
      if memory_enabled \<and> reason \<noteq> ''cancelled_by_user'' \<and> has_checkpointer \<and> obs \<noteq> []
        \<and> (mode \<noteq> lit ''agent_decides'' \<or> read_memory_opt_in_from_checkpoint ckpt)
      then Some (with_embedding embedding (build_pending_memory_dead_letter_template task_input obs retries
             (Some (if or_empty error_code = [] then lit reason else or_empty error_code)) (Some (take 1024 msg))
             (read_commit_rationales_from_checkpoint show ckpt)))
      else None)"

section \<open>The table's constraints\<close>

text \<open>The \<open>CHECK\<close>s of \<open>agent_memory_entries\<close> (migrations 0011 and 0012).\<close>

definition memory_checks :: "memory_row \<Rightarrow> bool" where
  "memory_checks r \<longleftrightarrow> length (m_title r) \<le> 200 \<and> m_outcome r \<in> {''succeeded'', ''failed''}
     \<and> length (utf8 (m_summary r)) \<le> 8192 \<and> length (m_observations r) \<le> 1000
     \<and> list_all (\<lambda>x. length (utf8 x) \<le> 4096) (m_observations r)"

lemma utf8_strip_take: "length (utf8 (strip (take n s @ t))) \<le> 4 * (n + length t)"
proof -
  let ?u = "strip (take n s @ t)"
  have "length (utf8 ?u) \<le> 4 * length ?u" using utf8_length by blast
  also have "\<dots> \<le> 4 * length (take n s @ t)" by (rule mult_le_mono2) (rule length_strip)
  also have "\<dots> \<le> 4 * (n + length t)" by simp
  finally show ?thesis .
qed

lemma parsed_title_short: "parse_summarizer_response s = (title, summ) \<Longrightarrow> length title \<le> 200"
  by (auto simp: parse_summarizer_response_def Let_def length_lit split: prod.splits if_splits)

lemma summarizer_title_short: "memory_summarizer chat q cache dm sys user m = Some r \<Longrightarrow> length (mr_title r) \<le> 200"
  by (auto simp: memory_summarizer_def Let_def parsed_title_short split: option.splits prod.splits)

lemma summarised_fields:
  assumes "summarised_memory summarizer model st = Some pm"
  shows "\<exists>sys user r. summarizer sys user model = Some r \<and> pm_title pm = mr_title r \<and> mr_title r \<noteq> [] \<and> mr_summary r \<noteq> []
    \<and> pm_summary pm = mr_summary r \<and> pm_cost pm = mr_cost r
    \<and> pm_outcome pm = ''succeeded'' \<and> pm_observations pm = observations st \<and> pm_rationales pm = commit_rationales st"
  using assms by (auto simp: summarised_memory_def split: option.splits prod.splits if_splits; metis)

lemma with_embedding_keeps [simp]:
  "pm_title (with_embedding e pm) = pm_title pm" "pm_summary (with_embedding e pm) = pm_summary pm"
  "pm_observations (with_embedding e pm) = pm_observations pm" "pm_rationales (with_embedding e pm) = pm_rationales pm"
  "pm_outcome (with_embedding e pm) = pm_outcome pm" "pm_model (with_embedding e pm) = pm_model pm"
  "pm_cost (with_embedding e pm) = pm_cost pm" "pm_tokens_in (with_embedding e pm) = pm_tokens_in pm"
  "pm_tokens_out (with_embedding e pm) = pm_tokens_out pm"
  by (simp_all add: with_embedding_def split: option.split)

lemma fallback_title: "length (pm_title (build_pending_memory_template_fallback ti out obs rs)) \<le> 200"
  by (simp add: build_pending_memory_template_fallback_def TITLE_INPUT_SLICE_CHARS_def length_lit)

lemma fallback_summary: "length (utf8 (pm_summary (build_pending_memory_template_fallback ti out obs rs))) \<le> 8192"
  unfolding build_pending_memory_template_fallback_def pending_memory.simps SUMMARY_FINAL_OUTPUT_SLICE_CHARS_def
  by (rule order_trans [OF utf8_strip_take]) (simp add: length_lit)

lemma fallback_rest:
  "pm_observations (build_pending_memory_template_fallback ti out obs rs) = obs"
  "pm_rationales (build_pending_memory_template_fallback ti out obs rs) = rs"
  "pm_outcome (build_pending_memory_template_fallback ti out obs rs) = ''succeeded''"
  "pm_model (build_pending_memory_template_fallback ti out obs rs) = Some SUMMARIZER_TEMPLATE_FALLBACK"
  "pm_cost (build_pending_memory_template_fallback ti out obs rs) = 0"
  by (simp_all add: build_pending_memory_template_fallback_def)

lemma node_cases:
  assumes "memory_write_node summarizer e pd mid ti st = Some pm"
  obtains model pm0 where "summarised_memory summarizer model st = Some pm0" "pm = with_embedding e pm0"
  | model out where "summarised_memory summarizer model st = None"
      "pm = with_embedding e (build_pending_memory_template_fallback ti out (observations st) (commit_rationales st))"
  using assms by (auto simp: memory_write_node_def Let_def split: option.splits)

lemma checks_entry:
  "memory_checks (memory_entry tid tn ag pm) \<longleftrightarrow> length (pm_title pm) \<le> 200 \<and> pm_outcome pm \<in> {''succeeded'', ''failed''}
     \<and> length (utf8 (pm_summary pm)) \<le> 8192 \<and> length (pm_observations pm) \<le> 1000
     \<and> list_all (\<lambda>x. length (utf8 x) \<le> 4096) (pm_observations pm)"
  by (simp add: memory_checks_def memory_entry_def)

text \<open>
  The row that the memory node proposes satisfies every CHECK of agent_memory_entries
  whenever its notes do, except possibly the byte limit on the summary, and it satisfies
  that one too when the template replaces the summary of the model; notes and rationales
  are kept word for word.
\<close>
theorem memory_row_fits_the_table:
  assumes "memory_write_node (memory_summarizer chat q cache dm) e pd mid ti st = Some pm"
    and "length (observations st) \<le> 1000" "list_all (\<lambda>x. length (utf8 x) \<le> 4096) (observations st)"
  shows "(memory_checks (memory_entry tid tn ag pm) \<longleftrightarrow> length (utf8 (pm_summary pm)) \<le> 8192)
    \<and> ((\<forall>model. summarised_memory (memory_summarizer chat q cache dm) model st = None)
        \<longrightarrow> memory_checks (memory_entry tid tn ag pm))
    \<and> pm_observations pm = observations st \<and> pm_rationales pm = commit_rationales st"
  using assms(1)
proof (cases rule: node_cases)
  case (1 model pm0)
  from summarised_fields [OF 1(1)] obtain sys user r where r: "memory_summarizer chat q cache dm sys user model = Some r"
    and eq: "pm_title pm0 = mr_title r" "pm_outcome pm0 = ''succeeded''" "pm_observations pm0 = observations st"
      "pm_rationales pm0 = commit_rationales st" by blast
  from summarizer_title_short [OF r] eq 1 assms(2,3) show ?thesis by (auto simp: checks_entry)
next
  case (2 model out)
  with assms(2,3) show ?thesis by (simp add: checks_entry fallback_rest fallback_title fallback_summary)
qed

text \<open>
  When the answer of the summariser has no title or no summary, the node discards it and
  proposes the template with no tokens and no cost, although the call was made and cost
  money.
\<close>
theorem discarded_summary_is_not_billed:
  assumes "memory_write_node (memory_summarizer (\<lambda>p m ms. Some (Plain reply, meta)) q cache dm) e pd mid ti st = Some pm"
    and "\<not> (fst (parse_summarizer_response reply) \<noteq> [] \<and> snd (parse_summarizer_response reply) \<noteq> [])"
    and "memory_summarizer (\<lambda>p m ms. Some (Plain reply, meta)) q cache dm sys user model = Some r" "0 < mr_cost r"
  shows "pm_model pm = Some SUMMARIZER_TEMPLATE_FALLBACK \<and> pm_cost pm = 0 \<and> pm_cost pm < mr_cost r
    \<and> pm_tokens_in pm = 0 \<and> pm_tokens_out pm = 0"
  using assms(1)
proof (cases rule: node_cases)
  case (1 model pm0)
  from summarised_fields [OF 1(1)] assms(2) show ?thesis
    by (auto simp: memory_summarizer_def stringify_chat_content_def Let_def split: option.splits prod.splits)
next
  case 2
  then show ?thesis using assms(4) by (simp add: build_pending_memory_template_fallback_def)
qed

section \<open>Witnesses\<close>

definition noted_state :: "pystr list \<Rightarrow> run_state" where
  "noted_state obs =
     \<lparr>messages = [plain_message Human [72, 105]], observations = obs, commit_rationales = [], projected_observations = None,
      projected_rationales = None, memory_opt_in = False, summary = [], summarized_through = 0, flush_fired = False,
      last_count = 0, firings = 0, fatal = False, plan = []\<rparr>"

lemma parse_empty: "parse_summarizer_response [] = ([], [])"
  by (simp add: parse_summarizer_response_def splitlines_def strip_def lstrip_def rstrip_def)

theorem memory_row_fits_the_table_witness:
  "memory_checks (memory_entry [] [] [] (build_pending_memory_template_fallback None None [[122]] []))"
  using memory_row_fits_the_table [of "\<lambda>p m ms. None" QueryFails Map.empty "[]" "\<lambda>t. None" "[]" None None "noted_state [[122]]"
      "with_embedding (\<lambda>t. None) (build_pending_memory_template_fallback None None [[122]] [])" "[]" "[]" "[]"]
  by (simp add: memory_write_node_def summarised_memory_def memory_summarizer_def noted_state_def extract_final_output_def
      plain_message_def utf8_def utf8_char_def checks_entry split: option.split)

abbreviation silent_model :: chat_fn where
  "silent_model \<equiv> \<lambda>p m ms. Some (Plain [], billed_metadata (usage_from_message (Some demo_um)))"

abbreviation demo_rates :: rate_query where
  "demo_rates \<equiv> Answer (Some \<lparr>rate_input = Some 3000000, rate_output = Some 15000000, rate_creation = None, rate_read = None\<rparr>)"

lemma silent_call:
  "\<exists>r. memory_summarizer silent_model demo_rates Map.empty ''m'' sys user model = Some r
     \<and> mr_title r = [] \<and> mr_summary r = [] \<and> mr_cost r = 60"
  by (simp add: memory_summarizer_def stringify_chat_content_def calculate_step_cost_def noop_billed demo_counts
      get_model_cost_rates_def queried_rates_def usage_cost_def or_zero_def parse_empty Let_def)

lemma silent_summary: "summarised_memory (memory_summarizer silent_model demo_rates Map.empty ''m'') model st = None"
  using silent_call by (auto simp: summarised_memory_def split: option.split) (metis option.inject)

theorem discarded_summary_is_not_billed_witness:
  "\<exists>r. memory_summarizer silent_model demo_rates Map.empty ''m'' [] [] ''m'' = Some r \<and> mr_cost r = 60
     \<and> pm_cost (with_embedding (\<lambda>t. None) (build_pending_memory_template_fallback None None [] [])) < mr_cost r"
proof -
  obtain r where r: "memory_summarizer silent_model demo_rates Map.empty ''m'' [] [] ''m'' = Some r" "mr_cost r = 60"
    using silent_call by blast
  have "memory_write_node (memory_summarizer silent_model demo_rates Map.empty ''m'') (\<lambda>t. None) ''m'' None None (noted_state [])
     = Some (with_embedding (\<lambda>t. None) (build_pending_memory_template_fallback None None [] []))"
    by (simp add: memory_write_node_def silent_summary noted_state_def extract_final_output_def plain_message_def)
  from discarded_summary_is_not_billed [OF this _ r(1)] r show ?thesis by (simp add: parse_empty)
qed

end
