(* ===== verification/MemoryTools.thy ===== *)
theory MemoryTools
  imports MemoryGraph
begin

text \<open>
  \<open>tools/memory_tools.py\<close> and \<open>tools/task_history_reader.py\<close>: the four memory tools over the scope
  the worker binds when it builds them, and the reader of a past task's tool calls.  Texts have no
  lone surrogates.  A call of the HTTP client is a parameter; \<open>dumps\<close> is \<open>json.dumps\<close>, \<open>show\<close> is
  \<open>str\<close>.
\<close>

section \<open>Limits and errors\<close>

definition MEMORY_NOTE_MAX_LEN :: nat where "MEMORY_NOTE_MAX_LEN = 2048"
definition SAVE_MEMORY_REASON_MAX_LEN :: nat where "SAVE_MEMORY_REASON_MAX_LEN = 2048"
definition MEMORY_SEARCH_TOOL_LIMIT_MAX :: int where "MEMORY_SEARCH_TOOL_LIMIT_MAX = 10"
definition MEMORY_SEARCH_DEFAULT_LIMIT :: int where "MEMORY_SEARCH_DEFAULT_LIMIT = 5"
definition MEMORY_SEARCH_QUERY_MAX_LEN :: nat where "MEMORY_SEARCH_QUERY_MAX_LEN = 400"

datatype memory_tool_error =
    MemoryToolError pystr
  | MemoryToolNotFoundError pystr
  | MemorySearchVectorUnavailableError pystr
  | PythonTypeError

text \<open>The cut text is shortened from the right until it fits.\<close>

function shrink :: "nat \<Rightarrow> pystr \<Rightarrow> pystr" where
  "shrink limit s = (if length (utf8 s) \<le> limit then s else shrink limit (butlast s))"
  by pat_completeness auto
termination
proof (relation "measure (\<lambda>(_, s). length s)", goal_cases)
  case (2 limit s)
  then have "s \<noteq> []" by (auto simp: utf8_def)
  then show ?case by (cases s rule: rev_cases) simp_all
qed simp

declare shrink.simps [simp del]

definition truncate_bytes :: "nat \<Rightarrow> pystr \<Rightarrow> pystr" where
  "truncate_bytes limit s =
     (if length (utf8 s) \<le> limit then s
      else let t = shrink limit (take limit s)
           in if length t < length s then t @ lit ''...[truncated]'' else t)"

section \<open>note_finding and remember_this_run\<close>

text \<open>What a handler's \<open>Command\<close> updates; an empty list stands for a key that is not in it.\<close>

record command =
  cmd_messages :: "message list"
  cmd_observations :: "pystr list"
  cmd_rationales :: "pystr list"
  cmd_opt_in :: "bool option"

definition paired_reply :: "pystr \<Rightarrow> pystr \<Rightarrow> message" where
  "paired_reply call text = (plain_message ToolRole text)\<lparr>tool_call_id := call\<rparr>"

definition valid_note :: "pystr \<Rightarrow> bool" where
  "valid_note text \<longleftrightarrow> 1 \<le> length text \<and> length text \<le> MEMORY_NOTE_MAX_LEN"

definition valid_reason :: "pystr \<Rightarrow> bool" where
  "valid_reason text \<longleftrightarrow> 1 \<le> length text \<and> length text \<le> SAVE_MEMORY_REASON_MAX_LEN"

definition note_finding :: "pystr \<Rightarrow> pystr \<Rightarrow> command" where
  "note_finding text call =
     \<lparr>cmd_messages = [paired_reply call
        (lit ''Noted. This finding is queued in your findings list '' @ [8212]
         @ lit '' it survives context compaction and feeds the post-task summary.'')],
      cmd_observations = [text], cmd_rationales = [], cmd_opt_in = None\<rparr>"

definition count_pending_sibling_note_findings :: "message list \<Rightarrow> pystr \<Rightarrow> nat" where
  "count_pending_sibling_note_findings ms self =
     (if ms = [] then 0
      else length (filter (\<lambda>c. tc_name c = lit ''note_finding'' \<and> tc_id c \<noteq> Some self) (tool_calls (last ms))))"

definition findings_count :: "pystr \<Rightarrow> pystr list \<Rightarrow> message list \<Rightarrow> nat" where
  "findings_count call obs ms = length obs + count_pending_sibling_note_findings ms call"

definition remember_text :: "nat \<Rightarrow> pystr" where
  "remember_text n =
     (if n = 0
      then lit ''Remember confirmed. No findings captured this run '' @ [8212]
        @ lit '' the memory entry will be composed from the transcript and your rationale.''
      else lit ''Remember confirmed. '' @ dec (int n)
        @ lit '' finding(s) will persist with this task's memory entry at completion.'')"

definition remember_this_run ::
  "pystr \<Rightarrow> pystr \<Rightarrow> pystr list \<Rightarrow> message list \<Rightarrow> memory_tool_error + command" where
  "remember_this_run reason call obs ms =
     (let stripped = strip reason in
      if stripped = [] then
        Inl (MemoryToolError (lit ''remember_this_run requires a non-empty reason after whitespace is stripped.''))
      else if length stripped > SAVE_MEMORY_REASON_MAX_LEN then
        Inl (MemoryToolError (lit ''remember_this_run reason exceeds '' @ dec (int SAVE_MEMORY_REASON_MAX_LEN) @ lit '' chars.''))
      else Inr \<lparr>cmd_messages = [paired_reply call (remember_text (findings_count call obs ms))],
                cmd_observations = [], cmd_rationales = [stripped], cmd_opt_in = Some True\<rparr>)"

text \<open>
  The super-step of a turn whose calls are of these two tools.  Every handler sees the state before
  the step.  A call that fails its schema or its handler becomes an error reply; \<open>err\<close> is that
  reply's text.  A call as the model made it: the tool, the id and the text argument.
\<close>

datatype memory_call = Note pystr pystr | Remember pystr pystr

fun call_of :: "memory_call \<Rightarrow> tool_call" where
  "call_of (Note call text) = \<lparr>tc_id = Some call, tc_name = lit ''note_finding'', tc_args = [(''text'', JStr text)]\<rparr>"
| "call_of (Remember call text) = \<lparr>tc_id = Some call, tc_name = lit ''remember_this_run'', tc_args = [(''reason'', JStr text)]\<rparr>"

definition error_reply :: "(memory_call \<Rightarrow> pystr) \<Rightarrow> memory_call \<Rightarrow> pystr \<Rightarrow> command" where
  "error_reply err c call =
     \<lparr>cmd_messages = [paired_reply call (err c)], cmd_observations = [], cmd_rationales = [], cmd_opt_in = None\<rparr>"

fun run_call :: "(memory_call \<Rightarrow> pystr) \<Rightarrow> run_state \<Rightarrow> memory_call \<Rightarrow> command" where
  "run_call err st (Note call text) =
     (if valid_note text then note_finding text call else error_reply err (Note call text) call)"
| "run_call err st (Remember call text) =
     (if valid_reason text
      then case remember_this_run text call (observations st) (messages st) of
             Inl _ \<Rightarrow> error_reply err (Remember call text) call
           | Inr c \<Rightarrow> c
      else error_reply err (Remember call text) call)"

text \<open>
  The channels of \<open>RuntimeState\<close>: \<open>add_messages\<close> and \<open>operator.add\<close> for the lists; \<open>memory_opt_in\<close>
  has no reducer, so LangGraph gives it a \<open>LastValue\<close> channel, whose \<open>update\<close> on the values of one
  super-step is the parameter \<open>last_value\<close> (\<open>None\<close>: it raises).
\<close>

definition apply_commands ::
  "(message list \<Rightarrow> message list \<Rightarrow> message list) \<Rightarrow> (bool list \<Rightarrow> bool option) \<Rightarrow> run_state \<Rightarrow> command list \<Rightarrow> run_state option" where
  "apply_commands add_messages last_value st cs =
     (let st' = st\<lparr>messages := fold (\<lambda>c ms. add_messages ms (cmd_messages c)) cs (messages st),
                   observations := observations st @ concat (map cmd_observations cs),
                   commit_rationales := commit_rationales st @ concat (map cmd_rationales cs)\<rparr>
      in case List.map_filter cmd_opt_in cs of
           [] \<Rightarrow> Some st'
         | vs \<Rightarrow> map_option (\<lambda>v. st'\<lparr>memory_opt_in := v\<rparr>) (last_value vs))"

definition memory_step ::
  "(message list \<Rightarrow> message list \<Rightarrow> message list) \<Rightarrow> (bool list \<Rightarrow> bool option) \<Rightarrow> (memory_call \<Rightarrow> pystr) \<Rightarrow> run_state
   \<Rightarrow> memory_call list \<Rightarrow> run_state option" where
  "memory_step add_messages last_value err st cs = apply_commands add_messages last_value st (map (run_call err st) cs)"

section \<open>memory_search\<close>

datatype http_answer = TransportError pystr | Response int "json option"

definition allowed_modes :: "pystr list" where
  "allowed_modes = [lit ''hybrid'', lit ''text'', lit ''vector'']"

definition search_limit :: "int \<Rightarrow> int" where
  "search_limit n = max 1 (min n MEMORY_SEARCH_TOOL_LIMIT_MAX)"

definition search_url :: "pystr \<Rightarrow> string \<Rightarrow> pystr" where
  "search_url base ag = rev (dropWhile (\<lambda>c. c = 47) (rev base)) @ lit ''/v1/agents/'' @ lit ag @ lit ''/memory/search''"

text \<open>\<open>len\<close> of the results, which the log line takes.\<close>

definition has_len :: "json \<Rightarrow> bool" where
  "has_len j \<longleftrightarrow> (case j of JStr _ \<Rightarrow> True | JList _ \<Rightarrow> True | JObj _ \<Rightarrow> True | _ \<Rightarrow> False)"

definition memory_search ::
  "(pystr \<Rightarrow> (string \<times> pystr) list \<Rightarrow> http_answer) \<Rightarrow> (pystr \<Rightarrow> pystr) \<Rightarrow> pystr \<Rightarrow> string \<Rightarrow> pystr \<Rightarrow> pystr \<Rightarrow> int
   \<Rightarrow> memory_tool_error + json" where
  "memory_search http_get quoted base ag query mode limit =
     (if mode \<notin> set allowed_modes then
        Inl (MemoryToolError (lit ''Unsupported mode '' @ quoted mode @ lit ''. Use one of: hybrid, text, vector.''))
      else case http_get (search_url base ag) [(''q'', query), (''mode'', mode), (''limit'', dec (search_limit limit))] of
        TransportError name \<Rightarrow>
          Inl (MemoryToolError (lit ''Memory search transport error: '' @ name @ lit ''. Retry momentarily.''))
      | Response code body \<Rightarrow>
          if code = 503 then
            Inl (MemorySearchVectorUnavailableError
              (lit ''Embedding provider unavailable for vector-mode search. Retry with mode='' @ QUOTE @ lit ''text'' @ QUOTE
               @ lit '' to search BM25-only, or '' @ QUOTE @ lit ''hybrid'' @ QUOTE
               @ lit '' to let the server silently degrade when embeddings return.''))
          else if code = 404 then Inr (JObj [(''results'', JList []), (''ranking_used'', JStr mode)])
          else if code \<ge> 400 then
            Inl (MemoryToolError (lit ''Memory search failed with status '' @ dec code @ lit ''.''))
          else case body of
            None \<Rightarrow> Inl (MemoryToolError (lit ''Memory search returned non-JSON response.''))
          | Some (JObj kvs) \<Rightarrow>
              let results = (case map_of kvs ''results'' of None \<Rightarrow> JList [] | Some r \<Rightarrow> r);
                  ranking = (case map_of kvs ''ranking_used'' of None \<Rightarrow> JNull | Some r \<Rightarrow> r)
              in if has_len results then Inr (JObj [(''results'', results), (''ranking_used'', ranking)])
                 else Inl PythonTypeError
          | Some _ \<Rightarrow> Inr (JObj [(''results'', JList []), (''ranking_used'', JStr mode)]))"

section \<open>A past task's tool calls\<close>

definition clip_preview :: "nat \<Rightarrow> pystr \<Rightarrow> pystr" where
  "clip_preview n s = (if length s \<le> n then s else take (n - 1) s @ [8230])"

definition preview :: "(json \<Rightarrow> pystr) \<Rightarrow> nat \<Rightarrow> json \<Rightarrow> pystr option" where
  "preview dumps n v = (case v of JNull \<Rightarrow> None | JStr s \<Rightarrow> Some (clip_preview n s) | _ \<Rightarrow> Some (clip_preview n (dumps v)))"

record past_call =
  pc_id :: json
  pc_name :: json
  pc_args :: json

definition get_or_null :: "string \<Rightarrow> (string \<times> json) list \<Rightarrow> json" where
  "get_or_null k kvs = (case map_of kvs k of None \<Rightarrow> JNull | Some j \<Rightarrow> j)"

definition native_calls :: "message \<Rightarrow> past_call list" where
  "native_calls m =
     map (\<lambda>c. \<lparr>pc_id = (case tc_id c of None \<Rightarrow> JNull | Some i \<Rightarrow> JStr i), pc_name = JStr (tc_name c), pc_args = JObj (tc_args c)\<rparr>)
       (filter (\<lambda>c. tc_name c \<noteq> []) (tool_calls m))"

fun block_calls :: "past_call list \<Rightarrow> json list \<Rightarrow> past_call list" where
  "block_calls acc [] = acc"
| "block_calls acc (b # bs) =
     (case b of
        JObj kvs \<Rightarrow>
          let i = get_or_null ''id'' kvs; n = get_or_null ''name'' kvs in
          if map_of kvs ''type'' \<noteq> Some (JStr (lit ''tool_use'')) \<or> \<not> json_truthy n
             \<or> (json_truthy i \<and> (\<exists>r \<in> set acc. pc_id r = i))
          then block_calls acc bs
          else block_calls (acc @ [\<lparr>pc_id = i, pc_name = n, pc_args = get_or_null ''input'' kvs\<rparr>]) bs
      | _ \<Rightarrow> block_calls acc bs)"

definition extract_tool_calls_from_ai_message :: "message \<Rightarrow> past_call list" where
  "extract_tool_calls_from_ai_message m =
     (case content m of Plain _ \<Rightarrow> native_calls m | content.Blocks bs \<Rightarrow> block_calls (native_calls m) bs)"

definition text_fields :: "json list \<Rightarrow> pystr list" where
  "text_fields bs =
     List.map_filter (\<lambda>b. case b of JObj kvs \<Rightarrow> (case map_of kvs ''text'' of Some (JStr s) \<Rightarrow> Some s | _ \<Rightarrow> None) | _ \<Rightarrow> None) bs"

definition tool_message_content :: "content \<Rightarrow> json" where
  "tool_message_content c =
     (case c of Plain s \<Rightarrow> JStr s
      | content.Blocks bs \<Rightarrow> if text_fields bs = [] then JList bs else JStr (join [NL] (text_fields bs)))"

record call_view =
  cv_name :: json
  cv_args :: "pystr option"
  cv_result :: "pystr option"

definition call_key :: "(json \<Rightarrow> pystr) \<Rightarrow> past_call \<Rightarrow> pystr option" where
  "call_key show c = (if json_truthy (pc_id c) then Some (case pc_id c of JStr s \<Rightarrow> s | j \<Rightarrow> show j) else None)"

text \<open>The index of the last call with the id; \<open>id_to_index\<close> is overwritten by a later call.\<close>

fun index_of_id :: "(json \<Rightarrow> pystr) \<Rightarrow> pystr \<Rightarrow> nat \<Rightarrow> past_call list \<Rightarrow> nat option" where
  "index_of_id show i n [] = None"
| "index_of_id show i n (c # cs) =
     (case index_of_id show i (n + 1) cs of
        Some k \<Rightarrow> Some k
      | None \<Rightarrow> if call_key show c = Some i then Some n else None)"

definition attach_result ::
  "(json \<Rightarrow> pystr) \<Rightarrow> (json \<Rightarrow> pystr) \<Rightarrow> nat \<Rightarrow> past_call list \<Rightarrow> message \<Rightarrow> call_view list \<Rightarrow> call_view list" where
  "attach_result dumps show n cs m vs =
     (if role m \<noteq> ToolRole \<or> tool_call_id m = [] then vs
      else case index_of_id show (tool_call_id m) 0 cs of
        None \<Rightarrow> vs
      | Some k \<Rightarrow> vs[k := (vs ! k)\<lparr>cv_result := preview dumps n (tool_message_content (content m))\<rparr>])"

definition tool_call_views :: "(json \<Rightarrow> pystr) \<Rightarrow> (json \<Rightarrow> pystr) \<Rightarrow> nat \<Rightarrow> message list \<Rightarrow> call_view list" where
  "tool_call_views dumps show n ms =
     (let cs = concat (map extract_tool_calls_from_ai_message ms)
      in fold (attach_result dumps show n cs) ms
           (map (\<lambda>c. \<lparr>cv_name = pc_name c, cv_args = preview dumps n (pc_args c), cv_result = None\<rparr>) cs))"

text \<open>\<open>history\<close> is what the checkpointer gives for the thread, \<open>None\<close> where there is no message list.\<close>

definition read_tool_calls ::
  "(json \<Rightarrow> pystr) \<Rightarrow> (json \<Rightarrow> pystr) \<Rightarrow> message list option \<Rightarrow> nat \<Rightarrow> nat \<Rightarrow> call_view list" where
  "read_tool_calls dumps show history cap n =
     (case history of None \<Rightarrow> [] | Some ms \<Rightarrow> take cap (tool_call_views dumps show n ms))"

section \<open>task_history_get\<close>







section \<open>Registration\<close>

definition build_memory_tools :: "memory_decision \<Rightarrow> string list" where
  "build_memory_tools dcs =
     (if stack_enabled dcs
      then [''note_finding'', ''memory_search''] @ (if auto_write dcs then [] else [''remember_this_run'']) else [])
     @ [''task_history_get'']"

section \<open>Cutting texts\<close>

lemma prefix_all: "length (utf8 s) \<le> n \<Longrightarrow> utf8_prefix n s = s"
  by (induction n s rule: utf8_prefix.induct) (auto simp: utf8_def)

lemma prefix_snoc: "\<not> length (utf8 (s @ [c])) \<le> n \<Longrightarrow> utf8_prefix n (s @ [c]) = utf8_prefix n s"
  by (induction n s rule: utf8_prefix.induct) (auto simp: utf8_def)

lemma shrink_prefix: "shrink n s = utf8_prefix n s"
proof (induction s rule: rev_induct)
  case Nil
  then show ?case by (simp add: shrink.simps utf8_def)
next
  case (snoc c s)
  show ?case
  proof (cases "length (utf8 (s @ [c])) \<le> n")
    case True
    then show ?thesis by (subst shrink.simps) (simp add: prefix_all del: utf8_append)
  next
    case False
    then show ?thesis using snoc by (subst shrink.simps) (simp add: prefix_snoc del: utf8_append)
  qed
qed

lemma char_nonempty: "0 < length (utf8_char c)"
  by (simp add: utf8_char_def)

lemma prefix_take: "n \<le> k \<Longrightarrow> utf8_prefix n (take k s) = utf8_prefix n s"
proof (induction n s arbitrary: k rule: utf8_prefix.induct)
  case (2 n c s)
  show ?case
  proof (cases k)
    case 0
    then show ?thesis using 2(2) char_nonempty [of c] by simp
  next
    case (Suc j)
    then have "n - length (utf8_char c) \<le> j" using 2(2) char_nonempty [of c] by linarith
    then show ?thesis using 2(1) Suc by simp
  qed
qed simp

text \<open>
  The shortening loop of _truncate computes the longest prefix of the text with at most the
  given number of UTF-8 bytes; with the marker the result is at most 14 bytes longer.
\<close>

theorem truncated_text_is_longest_prefix:
  "truncate_bytes n s =
     (if length (utf8 s) \<le> n then s else utf8_prefix n s @ lit ''...[truncated]'')
   \<and> length (utf8 (truncate_bytes n s)) \<le> n + 14
   \<and> (\<forall>t. (\<exists>u. s = t @ u) \<and> length (utf8 t) \<le> n \<longrightarrow> length t \<le> length (utf8_prefix n s))"
proof (intro conjI allI impI)
  show eq: "truncate_bytes n s = (if length (utf8 s) \<le> n then s else utf8_prefix n s @ lit ''...[truncated]'')"
  proof (cases "length (utf8 s) \<le> n")
    case False
    obtain t where t: "s = utf8_prefix n s @ t" using utf8_prefix_prefix by blast
    have "t \<noteq> []" using False utf8_prefix_bound [of n s] t by (metis append_Nil2)
    then have "length (utf8_prefix n s) < length s" using t by (metis append_Nil2 append_eq_append_conv length_append
        length_greater_0_conv less_add_same_cancel1)
    with False show ?thesis by (simp add: truncate_bytes_def Let_def shrink_prefix prefix_take)
  qed (simp add: truncate_bytes_def)
  have "length (utf8 (lit ''...[truncated]'')) = 14"
    by (simp add: utf8_def lit_def utf8_char_def)
  then show "length (utf8 (truncate_bytes n s)) \<le> n + 14"
    using utf8_prefix_bound [of n s] unfolding eq by simp
  show "length t \<le> length (utf8_prefix n s)" if "(\<exists>u. s = t @ u) \<and> length (utf8 t) \<le> n" for t
  proof -
    from that obtain u where "s = t @ u" by blast
    moreover have "length t \<le> length (utf8_prefix n (t @ u))" if "length (utf8 t) \<le> n" for u
      using that by (induction n t rule: utf8_prefix.induct) (auto simp: utf8_def)
    ultimately show ?thesis using that by blast
  qed
qed

section \<open>A turn of notes\<close>

fun is_note :: "memory_call \<Rightarrow> bool" where
  "is_note (Note _ _) = True"
| "is_note (Remember _ _) = False"

fun call_text :: "memory_call \<Rightarrow> pystr" where
  "call_text (Note _ t) = t"
| "call_text (Remember _ t) = t"

fun call_id :: "memory_call \<Rightarrow> pystr" where
  "call_id (Note i _) = i"
| "call_id (Remember i _) = i"

definition accepted_note :: "memory_call \<Rightarrow> bool" where
  "accepted_note c \<longleftrightarrow> is_note c \<and> valid_note (call_text c)"

definition accepted_reason :: "memory_call \<Rightarrow> bool" where
  "accepted_reason c \<longleftrightarrow> \<not> is_note c \<and> valid_reason (call_text c) \<and> strip (call_text c) \<noteq> []"

lemma reason_fits: "valid_reason r \<Longrightarrow> length (strip r) \<le> SAVE_MEMORY_REASON_MAX_LEN"
  using length_strip [of r] by (simp add: valid_reason_def)

lemma remember_accepted:
  assumes "valid_reason r" "strip r \<noteq> []"
  shows "remember_this_run r i obs ms = Inr \<lparr>cmd_messages = [paired_reply i (remember_text (findings_count i obs ms))],
    cmd_observations = [], cmd_rationales = [strip r], cmd_opt_in = Some True\<rparr>"
  using reason_fits [OF assms(1)] assms(2) by (simp add: remember_this_run_def Let_def)

lemma run_note: "accepted_note c \<Longrightarrow> cmd_observations (run_call err st c) = [call_text c]
    \<and> cmd_rationales (run_call err st c) = [] \<and> cmd_opt_in (run_call err st c) = None"
  by (cases c) (auto simp: accepted_note_def note_finding_def)

lemma run_reason: "accepted_reason c \<Longrightarrow> cmd_observations (run_call err st c) = []
    \<and> cmd_rationales (run_call err st c) = [strip (call_text c)] \<and> cmd_opt_in (run_call err st c) = Some True"
  by (cases c) (auto simp: accepted_reason_def remember_accepted)

lemma notes_only:
  assumes "list_all accepted_note cs"
  shows "concat (map (cmd_observations \<circ> run_call err st) cs) = map call_text cs"
    "concat (map (cmd_rationales \<circ> run_call err st) cs) = []"
    "List.map_filter (cmd_opt_in \<circ> run_call err st) cs = []"
  using assms by (induction cs) (simp_all add: run_note map_filter_simps)

lemma opt_ins:
  "List.map_filter cmd_opt_in (map (run_call err st) cs @ ds)
     = List.map_filter (cmd_opt_in \<circ> run_call err st) cs @ List.map_filter cmd_opt_in ds"
  "List.map_filter cmd_opt_in (map (run_call err st) cs) = List.map_filter (cmd_opt_in \<circ> run_call err st) cs"
  by (induction cs) (auto split: option.split)

lemma siblings:
  assumes "ms \<noteq> []" "tool_calls (last ms) = map call_of cs" "\<forall>c \<in> set cs. call_id c = i \<longrightarrow> \<not> is_note c"
  shows "count_pending_sibling_note_findings ms i = length (filter is_note cs)"
proof -
  have "(tc_name (call_of c) = lit ''note_finding'' \<and> tc_id (call_of c) \<noteq> Some i) \<longleftrightarrow> is_note c" if "c \<in> set cs" for c
    using assms(3) that by (cases c) (auto simp: lit_def)
  then show ?thesis using assms(1,2) by (simp add: count_pending_sibling_note_findings_def filter_map o_def cong: filter_cong)
qed

text \<open>
  C34. When a turn makes one accepted remember_this_run call among accepted notes, the
  number of findings it promises is the number of findings there are after the super-step,
  although every handler sees the state before it; the notes are appended in call order,
  the rationale is kept and the run is opted in.
\<close>

theorem remembered_findings_are_counted:
  assumes "messages st \<noteq> []" "tool_calls (last (messages st)) = map call_of (xs @ Remember i r # ys)"
    and "list_all accepted_note (xs @ ys)" "\<forall>c \<in> set (xs @ ys). call_id c \<noteq> i"
    and "valid_reason r" "strip r \<noteq> []" "last_value [True] = Some True"
  shows "\<exists>st'. memory_step add_messages last_value err st (xs @ Remember i r # ys) = Some st' \<and> memory_opt_in st'
    \<and> observations st' = observations st @ map call_text (xs @ ys)
    \<and> commit_rationales st' = commit_rationales st @ [strip r]
    \<and> cmd_messages (run_call err st (Remember i r)) = [paired_reply i (remember_text (length (observations st')))]"
proof -
  have xs: "list_all accepted_note xs" and ys: "list_all accepted_note ys" using assms(3) by simp_all
  have all_notes: "filter is_note zs = zs" if "list_all accepted_note zs" for zs
    using that by (induction zs) (auto simp: accepted_note_def)
  have "count_pending_sibling_note_findings (messages st) i = length (filter is_note (xs @ Remember i r # ys))"
    using assms(4) by (intro siblings [OF assms(1,2)]) auto
  then have count: "findings_count i (observations st) (messages st) = length (observations st) + length (xs @ ys)"
    by (simp add: findings_count_def all_notes xs ys)
  have rem: "run_call err st (Remember i r) = \<lparr>cmd_messages = [paired_reply i (remember_text (length (observations st) + length (xs @ ys)))],
      cmd_observations = [], cmd_rationales = [strip r], cmd_opt_in = Some True\<rparr>"
    using assms(5,6) by (simp add: remember_accepted count)
  show ?thesis
    unfolding memory_step_def apply_commands_def Let_def
    by (simp add: rem notes_only [OF xs] notes_only [OF ys] opt_ins assms(7) del: run_call.simps)
qed

text \<open>
  C35. Two accepted remember_this_run calls in one turn write memory_opt_in twice in one
  super-step; the channel has no reducer, so LangGraph rejects the step and the turn
  fails.
\<close>

theorem second_opt_in_breaks_the_step:
  assumes "c \<in> set xs" "accepted_reason c" "d \<in> set ys" "accepted_reason d"
    and last_value_contract: "\<forall>v w vs. last_value (v # w # vs) = None"
  shows "memory_step add_messages last_value err st (xs @ ys) = None"
proof -
  have present: "List.map_filter cmd_opt_in (map (run_call err st) zs) \<noteq> []" if "e \<in> set zs" "accepted_reason e" for e zs
    using that run_reason [of e err st] by (auto simp: List.map_filter_def filter_empty_conv)
  obtain v vs where v: "List.map_filter cmd_opt_in (map (run_call err st) xs) = v # vs"
    using present [OF assms(1,2)] by (meson list.exhaust)
  obtain w ws where w: "List.map_filter cmd_opt_in (map (run_call err st) ys) = w # ws"
    using present [OF assms(3,4)] by (meson list.exhaust)
  obtain u us where "vs @ w # ws = u # us" by (cases vs) auto
  then have "List.map_filter cmd_opt_in (map (run_call err st) (xs @ ys)) = v # u # us"
    using v w by (simp add: List.map_filter_def)
  then show ?thesis using assms(5) by (simp add: memory_step_def apply_commands_def Let_def)
qed

section \<open>Results and calls\<close>

lemma index_sound: "index_of_id show i n cs = Some k \<Longrightarrow> n \<le> k \<and> k - n < length cs \<and> call_key show (cs ! (k - n)) = Some i"
proof (induction "show" i n cs rule: index_of_id.induct)
  case (2 sh i n c cs)
  show ?case
  proof (cases "index_of_id sh i (n + 1) cs")
    case None
    then show ?thesis using 2(2) by (auto split: if_splits)
  next
    case (Some k')
    then have "k' = k" using 2(2) by simp
    with 2(1) Some have "n + 1 \<le> k" "k - (n + 1) < length cs" "call_key sh (cs ! (k - (n + 1))) = Some i" by auto
    then show ?thesis by (auto simp: nth_Cons' Suc_diff_Suc)
  qed
qed simp

lemma index_complete: "j < length cs \<Longrightarrow> call_key show (cs ! j) = Some i \<Longrightarrow> index_of_id show i n cs \<noteq> None"
proof (induction "show" i n cs arbitrary: j rule: index_of_id.induct)
  case (2 sh i n c cs)
  show ?case
  proof (cases j)
    case 0
    then show ?thesis using 2(3) by (simp split: option.split)
  next
    case (Suc l)
    then have "index_of_id sh i (n + 1) cs \<noteq> None" using 2 by simp
    then show ?thesis by auto
  qed
qed simp

lemma index_unique:
  assumes "k < length cs" "\<forall>j < length cs. call_key show (cs ! j) = Some i \<longleftrightarrow> j = k"
  shows "index_of_id show i 0 cs = Some k"
  using index_complete [of k cs "show" i 0] index_sound [of "show" i 0 cs] assms by auto

lemma attach_length [simp]: "length (attach_result dumps show n cs m vs) = length vs"
  by (simp add: attach_result_def split: option.split)

lemma attach_fold_length [simp]: "length (fold (attach_result dumps show n cs) ms vs) = length vs"
  by (induction ms arbitrary: vs) simp_all

lemma attach_other:
  assumes "index_of_id show (tool_call_id m) 0 cs \<noteq> Some k \<or> role m \<noteq> ToolRole \<or> tool_call_id m = []"
  shows "attach_result dumps show n cs m vs ! k = vs ! k"
  using assms by (cases "k < length vs") (auto simp: attach_result_def split: option.split)

lemma attach_keeps:
  assumes "k < length vs"
  shows "cv_name (attach_result dumps show n cs m vs ! k) = cv_name (vs ! k)
     \<and> cv_args (attach_result dumps show n cs m vs ! k) = cv_args (vs ! k)"
proof (cases "index_of_id show (tool_call_id m) 0 cs = Some k")
  case True
  then show ?thesis using assms by (simp add: attach_result_def)
next
  case False
  then show ?thesis by (simp add: attach_other)
qed

lemma attach_fold_keeps:
  "k < length vs \<Longrightarrow> cv_name (fold (attach_result dumps show n cs) ms vs ! k) = cv_name (vs ! k)
     \<and> cv_args (fold (attach_result dumps show n cs) ms vs ! k) = cv_args (vs ! k)"
  by (induction ms arbitrary: vs) (simp_all add: attach_keeps)

definition answers_to :: "pystr \<Rightarrow> message list \<Rightarrow> message list" where
  "answers_to i ms = filter (\<lambda>m. role m = ToolRole \<and> tool_call_id m = i) ms"

lemma attach_fold_result:
  assumes "k < length cs" "\<forall>j < length cs. call_key show (cs ! j) = Some i \<longleftrightarrow> j = k" "i \<noteq> []" "length vs = length cs"
  shows "cv_result (fold (attach_result dumps show n cs) ms vs ! k) =
    (if answers_to i ms = [] then cv_result (vs ! k)
     else preview dumps n (tool_message_content (content (last (answers_to i ms)))))"
  using assms(4)
proof (induction ms arbitrary: vs)
  case Nil
  then show ?case by (simp add: answers_to_def)
next
  case (Cons m ms)
  let ?vs = "attach_result dumps show n cs m vs"
  have IH: "cv_result (fold (attach_result dumps show n cs) ms ?vs ! k) =
    (if answers_to i ms = [] then cv_result (?vs ! k)
     else preview dumps n (tool_message_content (content (last (answers_to i ms)))))"
    using Cons by simp
  show ?case
  proof (cases "role m = ToolRole \<and> tool_call_id m = i")
    case True
    then have "cv_result (?vs ! k) = preview dumps n (tool_message_content (content m))"
      using index_unique [OF assms(1,2)] assms(1,3) Cons.prems by (simp add: attach_result_def)
    with IH True show ?thesis by (simp add: answers_to_def)
  next
    case False
    have "?vs ! k = vs ! k"
    proof (rule attach_other)
      show "index_of_id show (tool_call_id m) 0 cs \<noteq> Some k \<or> role m \<noteq> ToolRole \<or> tool_call_id m = []"
        using False index_sound [of "show" "tool_call_id m" 0 cs k] assms(1,2) by auto
    qed
    with IH False show ?thesis by (auto simp: answers_to_def)
  qed
qed

text \<open>
  C37. In the history of a task every tool call with an id of its own is shown with its
  name, the preview of its arguments and the preview of the last answer to its id, none
  when there is no answer, oldest first up to the cap.
\<close>

theorem past_calls_show_their_last_answer:
  assumes "cs = concat (map extract_tool_calls_from_ai_message ms)" "k < length cs" "k < cap" "i \<noteq> []"
    and "\<forall>j < length cs. call_key show (cs ! j) = Some i \<longleftrightarrow> j = k"
  shows "read_tool_calls dumps show (Some ms) cap n ! k =
      \<lparr>cv_name = pc_name (cs ! k), cv_args = preview dumps n (pc_args (cs ! k)),
       cv_result = (if answers_to i ms = [] then None
         else preview dumps n (tool_message_content (content (last (answers_to i ms)))))\<rparr>
    \<and> length (read_tool_calls dumps show (Some ms) cap n) = min cap (length cs)"
proof -
  let ?vs = "map (\<lambda>c. \<lparr>cv_name = pc_name c, cv_args = preview dumps n (pc_args c), cv_result = None\<rparr>) cs"
  let ?out = "fold (attach_result dumps show n cs) ms ?vs"
  have "cv_result (?out ! k) = (if answers_to i ms = [] then None
         else preview dumps n (tool_message_content (content (last (answers_to i ms)))))"
    using attach_fold_result [OF assms(2,5,4), of ?vs dumps n ms] assms(2) by simp
  moreover have "cv_name (?out ! k) = pc_name (cs ! k) \<and> cv_args (?out ! k) = preview dumps n (pc_args (cs ! k))"
    using attach_fold_keeps [of k ?vs dumps "show" n cs ms] assms(2) by simp
  ultimately show ?thesis using assms(1,3) by (simp add: read_tool_calls_def tool_call_views_def Let_def)
qed

section \<open>Scope\<close>





section \<open>Notes that the table refuses\<close>






section \<open>Witnesses\<close>


definition turn_state :: "memory_call list \<Rightarrow> run_state" where
  "turn_state cs = (noted_state [[110]])\<lparr>messages := [(plain_message Ai [])\<lparr>tool_calls := map call_of cs\<rparr>]\<rparr>"

definition last_value :: "bool list \<Rightarrow> bool option" where
  "last_value vs = (case vs of [v] \<Rightarrow> Some v | _ \<Rightarrow> None)"

theorem remembered_findings_are_counted_witness:
  "\<exists>st'. memory_step (@) last_value (\<lambda>c. []) (turn_state [Note [97] [120], Remember [98] [114], Note [99] [121]])
        [Note [97] [120], Remember [98] [114], Note [99] [121]] = Some st'
     \<and> memory_opt_in st' \<and> observations st' = [[110], [120], [121]]"
proof -
  let ?cs = "[Note [97] [120]] @ Remember [98] [114] # [Note [99] [121]]"
  have "messages (turn_state ?cs) \<noteq> []" "tool_calls (last (messages (turn_state ?cs))) = map call_of ?cs"
    by (simp_all add: turn_state_def)
  moreover have "list_all accepted_note ([Note [97] [120]] @ [Note [99] [121]])" "valid_reason [114]"
    by (simp_all add: accepted_note_def valid_note_def valid_reason_def MEMORY_NOTE_MAX_LEN_def SAVE_MEMORY_REASON_MAX_LEN_def)
  moreover have "strip [114] \<noteq> []" by (simp add: strip_def lstrip_def rstrip_def is_space_def py_spaces_def)
  moreover have "last_value [True] = Some True" by (simp add: last_value_def)
  ultimately have "\<exists>st'. memory_step (@) last_value (\<lambda>c. []) (turn_state ?cs) ?cs = Some st' \<and> memory_opt_in st'
      \<and> observations st' = observations (turn_state ?cs) @ map call_text ([Note [97] [120]] @ [Note [99] [121]])"
    using remembered_findings_are_counted [of "turn_state ?cs" "[Note [97] [120]]" "[98]" "[114]" "[Note [99] [121]]"
        last_value "(@)" "\<lambda>c. []"] by fastforce
  then show ?thesis by (simp add: turn_state_def noted_state_def)
qed

theorem second_opt_in_breaks_the_step_witness:
  "memory_step (@) last_value (\<lambda>c. []) (turn_state [Remember [97] [114], Remember [98] [114]])
     [Remember [97] [114], Remember [98] [114]] = None"
proof -
  have "strip [114] \<noteq> []" by (simp add: strip_def lstrip_def rstrip_def is_space_def py_spaces_def)
  then have ok: "accepted_reason (Remember i [114])" for i
    by (simp add: accepted_reason_def valid_reason_def SAVE_MEMORY_REASON_MAX_LEN_def)
  have "\<forall>v w vs. last_value (v # w # vs) = None" by (simp add: last_value_def)
  from second_opt_in_breaks_the_step [OF _ ok _ ok this, of "[97]" "[Remember [97] [114]]" "[98]" "[Remember [98] [114]]"]
  show ?thesis by simp
qed

definition asked :: "message list" where
  "asked = [(plain_message Ai [])\<lparr>tool_calls := [\<lparr>tc_id = Some [97], tc_name = [110], tc_args = []\<rparr>]\<rparr>,
            paired_reply [97] [111, 107], paired_reply [97] [113]]"

theorem past_calls_show_their_last_answer_witness:
  "read_tool_calls (\<lambda>j. [123, 125]) (\<lambda>j. []) (Some asked) 20 512 ! 0
     = \<lparr>cv_name = JStr [110], cv_args = Some [123, 125], cv_result = Some [113]\<rparr>"
proof -
  let ?cs = "concat (map extract_tool_calls_from_ai_message asked)"
  have cs: "?cs = [\<lparr>pc_id = JStr [97], pc_name = JStr [110], pc_args = JObj []\<rparr>]"
    by (simp add: asked_def plain_message_def paired_reply_def extract_tool_calls_from_ai_message_def native_calls_def)
  have "\<forall>j < length ?cs. call_key (\<lambda>j. []) (?cs ! j) = Some [97] \<longleftrightarrow> j = 0"
    by (simp add: cs call_key_def json_truthy_def)
  from past_calls_show_their_last_answer [OF refl, of 0 asked 20 "[97]" "\<lambda>j. []" "\<lambda>j. [123, 125]" 512, OF _ _ _ this]
  show ?thesis
    by (simp add: cs answers_to_def preview_def clip_preview_def)
      (simp add: asked_def plain_message_def paired_reply_def tool_message_content_def clip_preview_def)
qed


end
