(* ===== verification/Dispatch.thy ===== *)
theory Dispatch
  imports MemoryTools Supervisor Ingestion
begin

text \<open>
  The edge out of the agent node and the sub-agent node of the ReAct graph (\<open>executor/graph.py\<close>) with
  \<open>tools/subagent_tools.py\<close>: which calls of a turn go to the tool node and which to sub-agents, what a
  sub-agent is given, and how its result comes back.  LangGraph's \<open>ToolNode\<close> is the parameter
  \<open>run_tools\<close>, \<open>show\<close> is \<open>str\<close> of a value that is no text, \<open>today\<close> is the current-date line.
\<close>

section \<open>Budgets\<close>

definition DISPATCH_SUBAGENT_TOOL_NAME :: pystr where "DISPATCH_SUBAGENT_TOOL_NAME = lit ''dispatch_subagent''"
definition MIN_SUBAGENT_TURN_BUDGET :: int where "MIN_SUBAGENT_TURN_BUDGET = 1"
definition MAX_SUBAGENT_TURN_BUDGET :: int where "MAX_SUBAGENT_TURN_BUDGET = 30"
definition DEFAULT_SUBAGENT_TURN_BUDGET :: int where "DEFAULT_SUBAGENT_TURN_BUDGET = 8"
definition SUBAGENT_TOKEN_CEILING_PER_TURN :: int where "SUBAGENT_TOKEN_CEILING_PER_TURN = 50000"

text \<open>\<open>True\<close> and \<open>False\<close> are integers in Python.\<close>

definition as_int :: "json \<Rightarrow> int option" where
  "as_int j = (case j of JNum n \<Rightarrow> Some n | JBool b \<Rightarrow> Some (if b then 1 else 0) | _ \<Rightarrow> None)"

definition budget_to_ceiling :: "json \<Rightarrow> subagent_ceiling" where
  "budget_to_ceiling budget =
     (let turns = (case as_int budget of
             None \<Rightarrow> DEFAULT_SUBAGENT_TURN_BUDGET
           | Some n \<Rightarrow> if n < MIN_SUBAGENT_TURN_BUDGET then DEFAULT_SUBAGENT_TURN_BUDGET else min n MAX_SUBAGENT_TURN_BUDGET)
      in \<lparr>max_turns = turns, max_tokens = turns * SUBAGENT_TOKEN_CEILING_PER_TURN\<rparr>)"

section \<open>Routing\<close>

definition is_dispatch :: "tool_call \<Rightarrow> bool" where
  "is_dispatch c \<longleftrightarrow> tc_name c = DISPATCH_SUBAGENT_TOOL_NAME"

definition partition_tool_calls :: "tool_call list \<Rightarrow> tool_call list \<times> bool" where
  "partition_tool_calls cs = (filter is_dispatch cs, list_ex (\<lambda>c. \<not> is_dispatch c) cs)"

record send =
  snd_call :: "pystr option"
  snd_prompt :: json
  snd_tools :: json
  snd_budget :: json
  snd_depth :: int

definition arg_or :: "json \<Rightarrow> string \<Rightarrow> tool_call \<Rightarrow> json" where
  "arg_or d k c = (case map_of (tc_args c) k of None \<Rightarrow> d | Some j \<Rightarrow> j)"

definition send_of :: "int \<Rightarrow> tool_call \<Rightarrow> send" where
  "send_of parent_depth c =
     \<lparr>snd_call = tc_id c, snd_prompt = arg_or (JStr []) ''prompt'' c, snd_tools = arg_or (JList []) ''tools'' c,
      snd_budget = arg_or JNull ''budget'' c, snd_depth = parent_depth + 1\<rparr>"

datatype route = ToTools | ToMemoryWrite | ToEnd | ToSends "send list" bool

definition route_after_agent :: "bool \<Rightarrow> memory_decision \<Rightarrow> int \<Rightarrow> run_state \<Rightarrow> route" where
  "route_after_agent dispatch_enabled dcs parent_depth st =
     (let calls = (if messages st = [] then [] else tool_calls (last (messages st))) in
      if calls \<noteq> [] then
        (let (dispatch_calls, has_other) = (if dispatch_enabled then partition_tool_calls calls else ([], True)) in
         if dispatch_calls \<noteq> [] then ToSends (map (send_of parent_depth) dispatch_calls) has_other else ToTools)
      else if stack_enabled dcs \<and> (auto_write dcs \<or> memory_opt_in st) then ToMemoryWrite
      else ToEnd)"

definition strip_dispatch_tool_calls :: "message list \<Rightarrow> message list" where
  "strip_dispatch_tool_calls ms =
     (if ms = [] then ms
      else let calls = tool_calls (last ms); kept = filter (\<lambda>c. \<not> is_dispatch c) calls in
        if length kept = length calls then ms else butlast ms @ [(last ms)\<lparr>tool_calls := kept\<rparr>])"

section \<open>The sub-agent node\<close>

text \<open>
  The names a tools argument yields; \<open>None\<close>: iterating it, or looking an element up in the dictionary
  of the parent's tools, raises \<open>TypeError\<close>.
\<close>

definition hashable :: "json \<Rightarrow> bool" where
  "hashable j \<longleftrightarrow> (case j of JList _ \<Rightarrow> False | JObj _ \<Rightarrow> False | _ \<Rightarrow> True)"

definition requested_names :: "json \<Rightarrow> pystr list option" where
  "requested_names j =
     (if \<not> json_truthy j then Some []
      else case j of
        JList xs \<Rightarrow> if list_all hashable xs then Some (List.map_filter (\<lambda>x. case x of JStr s \<Rightarrow> Some s | _ \<Rightarrow> None) xs) else None
      | JStr s \<Rightarrow> Some (map (\<lambda>c. [c]) s)
      | JObj kvs \<Rightarrow> Some (map (\<lambda>(k, _). lit k) kvs)
      | _ \<Rightarrow> None)"

text \<open>\<open>_tools_by_name\<close> is a dict comprehension: of two tools of one name the later wins.\<close>

definition delegated_tools :: "tool list \<Rightarrow> pystr list \<Rightarrow> tool list" where
  "delegated_tools parent names =
     List.map_filter (\<lambda>n. if n = DISPATCH_SUBAGENT_TOOL_NAME then None else find (\<lambda>t. t_name t = n) (rev parent)) names"

definition text_of_json :: "(json \<Rightarrow> pystr) \<Rightarrow> json \<Rightarrow> pystr" where
  "text_of_json show j = (case j of JStr s \<Rightarrow> s | _ \<Rightarrow> show j)"

definition subagent_prompt :: "(json \<Rightarrow> pystr) \<Rightarrow> pystr \<Rightarrow> json \<Rightarrow> pystr" where
  "subagent_prompt show today j = today @ NL2 @ (if json_truthy j then text_of_json show j else [])"

fun node_reason :: "reason option \<Rightarrow> pystr" where
  "node_reason (Some RCeiling) = lit ''ceiling''"
| "node_reason (Some RTimeout) = lit ''timeout''"
| "node_reason (Some RDepth) = lit ''depth''"
| "node_reason _ = lit ''error''"

definition subagent_reply :: "subagent_result \<Rightarrow> pystr" where
  "subagent_reply r =
     (if sa_ok r then (if sa_summary r = [] then lit ''(sub-agent returned no summary)'' else sa_summary r)
      else lit ''sub-agent did not complete (reason: '' @ node_reason (sa_reason r) @ lit '')''
        @ (if sa_summary r = [] then [] else lit '': '' @ sa_summary r)
        @ lit ''. You may retry with a narrower prompt or smaller budget, proceed without it, or stop.'')"

definition subagent_env :: "sub_env \<Rightarrow> tool list \<Rightarrow> json \<Rightarrow> sub_env" where
  "subagent_env e ts budget = e\<lparr>sg_tools := ts, sg_ceiling := budget_to_ceiling budget\<rparr>"

text \<open>\<open>None\<close>: the node raises.  \<open>e\<close> is the environment of the sub-agent of each call.\<close>

definition subagent_node :: "(json \<Rightarrow> pystr) \<Rightarrow> pystr \<Rightarrow> tool list \<Rightarrow> (pystr \<Rightarrow> sub_env) \<Rightarrow> send \<Rightarrow> message list option" where
  "subagent_node show today parent e s =
     (case snd_call s of
        None \<Rightarrow> Some []
      | Some call \<Rightarrow>
          if call = [] then Some []
          else case requested_names (snd_tools s) of
            None \<Rightarrow> None
          | Some names \<Rightarrow>
              Some [paired_reply call (subagent_reply
                (run_subagent (subagent_env (e call) (delegated_tools parent names) (snd_budget s)) (snd_depth s)
                  (subagent_prompt show today (snd_prompt s))))])"

section \<open>The super-step after a turn\<close>

text \<open>
  What the scheduled nodes return, the tool node's outputs first; \<open>None\<close>: a node raises.  The tool node
  hides the dispatch calls from LangGraph's \<open>ToolNode\<close>.
\<close>

definition dispatch_tool_node ::
  "bool \<Rightarrow> (nat \<Rightarrow> bool) \<Rightarrow> 's put_fn option \<Rightarrow> pystr \<Rightarrow> pystr \<Rightarrow> json \<Rightarrow> (message list \<Rightarrow> tool_output list)
   \<Rightarrow> message list \<Rightarrow> 's \<Rightarrow> tool_output list \<times> 's \<times> offload_event list" where
  "dispatch_tool_node dispatch_enabled printable store tn tk now_iso run_tools =
     tool_node printable store tn tk now_iso
       (\<lambda>ms. run_tools (if dispatch_enabled then strip_dispatch_tool_calls ms else ms))"

definition tool_step ::
  "bool \<Rightarrow> memory_decision \<Rightarrow> int \<Rightarrow> (message list \<Rightarrow> 's \<Rightarrow> tool_output list \<times> 's \<times> offload_event list)
   \<Rightarrow> (send \<Rightarrow> message list option) \<Rightarrow> run_state \<Rightarrow> 's \<Rightarrow> tool_output list option" where
  "tool_step dispatch_enabled dcs parent_depth tools_node sub_node st s =
     (case route_after_agent dispatch_enabled dcs parent_depth st of
        ToTools \<Rightarrow> Some (fst (tools_node (messages st) s))
      | ToSends sends has_other \<Rightarrow>
          map_option (\<lambda>rs. (if has_other then fst (tools_node (messages st) s) else []) @ map Msg (concat rs))
            (those (map sub_node sends))
      | _ \<Rightarrow> Some [])"

section \<open>Every call is answered once\<close>

text \<open>The call an output answers; \<open>cmd_id\<close> reads it off a \<open>Command\<close>.\<close>

definition answered :: "(json \<Rightarrow> pystr option) \<Rightarrow> tool_output \<Rightarrow> pystr option" where
  "answered cmd_id out =
     (case out of Msg m \<Rightarrow> if is_tool m then Some (tool_call_id m) else None | Command c \<Rightarrow> cmd_id c)"

lemma answered_tag [simp]: "answered f (tag_output x) = answered f x"
  by (simp add: answered_def tag_output_def tag_recall_message_def is_tool_def split: tool_output.split)

lemma answered_stamp [simp]: "answered f (stamp_output now_iso x) = answered f x"
  by (simp add: answered_def stamp_output_def stamp_emitted_at_def is_tool_def split: tool_output.split)

lemma answered_offload: "answered f (fst (offload_tool_message pr put tn tk x s)) = answered f x"
  by (auto simp: answered_def offload_tool_message_def is_tool_def Let_def split: tool_output.split content.split option.split)

lemma answered_thread: "map (answered f) (fst (thread_list (node_step pr put tn tk ms) xs s)) = map (answered f) xs"
  by (induction xs arbitrary: s) (auto simp: split_beta node_step_def answered_offload)

lemma tool_node_answers:
  "map (answered f) (fst (tool_node pr store tn tk now_iso run_tools ms s)) = map (answered f) (run_tools ms)"
proof (cases store)
  case None
  then show ?thesis by (auto simp: tool_node_def tag_recall_outputs_def)
next
  case (Some put)
  have "map (answered f) (map (stamp_output now_iso) xs) = map (answered f) xs" for xs by simp
  with Some show ?thesis
    by (simp add: tool_node_threads split_beta Let_def answered_thread del: map_map)
qed

lemma stripped_calls:
  "ms \<noteq> [] \<Longrightarrow> strip_dispatch_tool_calls ms \<noteq> []
    \<and> tool_calls (last (strip_dispatch_tool_calls ms)) = filter (\<lambda>c. \<not> is_dispatch c) (tool_calls (last ms))"
  by (auto simp: strip_dispatch_tool_calls_def Let_def filter_id_conv length_filter_less)
    (metis filter_True length_filter_less less_irrefl)

lemma mset_split: "mset (map g (filter (\<lambda>x. \<not> P x) xs) @ map g (filter P xs)) = mset (map g xs)"
  by (induction xs) auto

lemma subagent_answer:
  assumes "snd_call s = Some i" "i \<noteq> []" "requested_names (snd_tools s) \<noteq> None"
  shows "\<exists>m. subagent_node show today parent e s = Some [m] \<and> answered f (Msg m) = Some i"
  using assms by (auto simp: subagent_node_def paired_reply_def plain_message_def answered_def is_tool_def)

lemma subagent_answers:
  assumes "\<forall>c \<in> set cs. (\<exists>i. tc_id c = Some i \<and> i \<noteq> []) \<and> requested_names (arg_or (JList []) ''tools'' c) \<noteq> None"
  shows "\<exists>rs. those (map (subagent_node show today parent e) (map (send_of pd) cs)) = Some rs
    \<and> map (answered f) (map Msg (concat rs)) = map tc_id cs"
  using assms
proof (induction cs)
  case (Cons c cs)
  then obtain rs where rs: "those (map (subagent_node show today parent e) (map (send_of pd) cs)) = Some rs"
    "map (answered f) (map Msg (concat rs)) = map tc_id cs" by auto
  obtain i where i: "tc_id c = Some i" "i \<noteq> []" using Cons.prems by auto
  then obtain m where "subagent_node show today parent e (send_of pd c) = Some [m]" "answered f (Msg m) = Some i"
    using subagent_answer [of "send_of pd c" i "show" today parent e f] Cons.prems by (auto simp: send_of_def)
  with rs i show ?case by auto
qed simp

text \<open>
  C39. After a turn of the ReAct agent every tool call is answered exactly once, whatever
  mixture of dispatch_subagent and other calls it makes: the dispatch calls by the sub-
  agent node, the others by the tool node, none twice and none not at all.
\<close>

theorem turn_is_answered_once:
  assumes "messages st \<noteq> []"
    and "\<forall>c \<in> set (tool_calls (last (messages st))). (\<exists>i. tc_id c = Some i \<and> i \<noteq> [])
      \<and> (is_dispatch c \<longrightarrow> requested_names (arg_or (JList []) ''tools'' c) \<noteq> None)"
    and tool_node_contract: "\<forall>ms. ms \<noteq> [] \<and> (\<forall>c \<in> set (tool_calls (last ms)). tc_id c \<noteq> None)
      \<longrightarrow> map (answered f) (run_tools ms) = map tc_id (tool_calls (last ms))"
  shows "\<exists>outs. tool_step enabled dcs pd (dispatch_tool_node enabled pr store tn tk now_iso run_tools)
        (subagent_node show today parent e) st s = Some outs
      \<and> mset (map (answered f) outs) = mset (map tc_id (tool_calls (last (messages st))))"
proof -
  let ?calls = "tool_calls (last (messages st))"
  let ?d = "filter is_dispatch ?calls"
  let ?o = "filter (\<lambda>c. \<not> is_dispatch c) ?calls"
  have node: "map (answered f) (fst (dispatch_tool_node enabled pr store tn tk now_iso run_tools (messages st) s))
      = map tc_id (if enabled then ?o else ?calls)"
  proof -
    have "\<forall>c \<in> set ?calls. tc_id c \<noteq> None" using assms(2) by fastforce
    then show ?thesis
      using stripped_calls [OF assms(1)] assms(1,3) by (simp add: dispatch_tool_node_def tool_node_answers)
  qed
  show ?thesis
  proof (cases "enabled \<and> ?d \<noteq> []")
    case False
    then have "enabled \<Longrightarrow> ?o = ?calls" by (auto simp: filter_empty_conv filter_id_conv)
    with node have all: "map (answered f) (fst (dispatch_tool_node enabled pr store tn tk now_iso run_tools (messages st) s)) = map tc_id ?calls"
      by (cases enabled) simp_all
    show ?thesis
    proof (cases "?calls = []")
      case True
      then have "route_after_agent enabled dcs pd st \<in> {ToMemoryWrite, ToEnd}" by (simp add: route_after_agent_def)
      with True show ?thesis by (auto simp: tool_step_def)
    next
      case nonempty: False
      have "route_after_agent enabled dcs pd st = ToTools"
        using False nonempty assms(1) by (auto simp: route_after_agent_def partition_tool_calls_def Let_def)
      then show ?thesis using all by (simp add: tool_step_def flip: mset_map)
    qed
  next
    case True
    have "\<forall>c \<in> set ?d. (\<exists>i. tc_id c = Some i \<and> i \<noteq> []) \<and> requested_names (arg_or (JList []) ''tools'' c) \<noteq> None"
      using assms(2) by auto
    from subagent_answers [OF this, of "show" today parent e pd f] obtain rs where
      rs: "those (map (subagent_node show today parent e) (map (send_of pd) ?d)) = Some rs"
        "map (answered f) (map Msg (concat rs)) = map tc_id ?d" by blast
    have route: "route_after_agent enabled dcs pd st = ToSends (map (send_of pd) ?d) (?o \<noteq> [])"
      using True assms(1) by (auto simp: route_after_agent_def partition_tool_calls_def Let_def list_ex_iff filter_empty_conv)
    let ?outs = "(if ?o \<noteq> [] then fst (dispatch_tool_node enabled pr store tn tk now_iso run_tools (messages st) s) else [])
      @ map Msg (concat rs)"
    have "map (answered f) ?outs = map tc_id ?o @ map tc_id ?d"
      using node True rs(2) by auto
    then have "mset (map (answered f) ?outs) = mset (map tc_id ?calls)"
      unfolding mset_split [of tc_id is_dispatch ?calls, symmetric] by (rule arg_cong)
    moreover have "tool_step enabled dcs pd (dispatch_tool_node enabled pr store tn tk now_iso run_tools)
        (subagent_node show today parent e) st s = Some ?outs"
      unfolding tool_step_def route route.case rs(1) option.map by (rule refl)
    ultimately show ?thesis by blast
  qed
qed

text \<open>
  C40. Whatever arguments the model gives dispatch_subagent: the sub-agent runs one level
  deeper than the state says, with 1 to 30 turns and 50000 tokens a turn, and every tool
  it can call is one of the parent that was named, never dispatch_subagent, an
  interrupting tool or one that writes the parent state.
\<close>

theorem dispatched_agent_is_bounded:
  assumes "route_after_agent enabled dcs pd st = ToSends sends other" "s \<in> set sends"
    and "env = subagent_env e (delegated_tools parent names) (snd_budget s)"
  shows "snd_depth s = pd + 1 \<and> 1 \<le> max_turns (sg_ceiling env) \<and> max_turns (sg_ceiling env) \<le> 30
    \<and> max_tokens (sg_ceiling env) = 50000 * max_turns (sg_ceiling env)
    \<and> (\<forall>t \<in> set (filter_headless_tools (sg_tools env)). t \<in> set parent \<and> t_name t \<in> set names
        \<and> t_name t \<notin> set (DISPATCH_SUBAGENT_TOOL_NAME # INTERRUPT_BEARING_TOOL_NAMES @ PARENT_STATE_TOOL_NAMES))
    \<and> (MAX_SUBAGENT_DEPTH \<le> pd \<longrightarrow> sa_reason (run_subagent env (snd_depth s) prompt) = Some RDepth)"
proof -
  have depth: "snd_depth s = pd + 1"
    using assms(1,2) by (auto simp: route_after_agent_def send_of_def partition_tool_calls_def Let_def split: if_splits)
  have "1 \<le> max_turns (budget_to_ceiling b) \<and> max_turns (budget_to_ceiling b) \<le> 30
      \<and> max_tokens (budget_to_ceiling b) = 50000 * max_turns (budget_to_ceiling b)" for b
    by (simp add: budget_to_ceiling_def Let_def MIN_SUBAGENT_TURN_BUDGET_def MAX_SUBAGENT_TURN_BUDGET_def
        DEFAULT_SUBAGENT_TURN_BUDGET_def SUBAGENT_TOKEN_CEILING_PER_TURN_def split: option.split)
  moreover have "t \<in> set parent \<and> t_name t \<in> set names \<and> t_name t \<noteq> DISPATCH_SUBAGENT_TOOL_NAME"
    if "t \<in> set (delegated_tools parent names)" for t
    using that by (auto simp: delegated_tools_def set_map_filter find_Some_iff rev_nth split: if_splits)
  moreover have "sa_reason (run_subagent env (snd_depth s) prompt) = Some RDepth" if "MAX_SUBAGENT_DEPTH \<le> pd"
    using that depth by (simp add: run_subagent_def sa_failure_def)
  ultimately show ?thesis
    using depth assms(3) by (auto simp: subagent_env_def filter_headless_tools_def)
qed

text \<open>
  The arguments of dispatch_subagent are never validated: a call whose tools argument is a
  number or a list of lists makes the sub-agent node raise and with it the whole super-
  step, also the other tool calls of the turn.
\<close>

theorem malformed_dispatch_fails_the_turn:
  assumes "messages st \<noteq> []" "c \<in> set (tool_calls (last (messages st)))" "is_dispatch c"
    and "tc_id c = Some i" "i \<noteq> []" "requested_names (arg_or (JList []) ''tools'' c) = None"
  shows "tool_step True dcs pd tools_node (subagent_node show today parent e) st s = None"
proof -
  let ?d = "filter is_dispatch (tool_calls (last (messages st)))"
  have "subagent_node show today parent e (send_of pd c) = None"
    using assms(4,5,6) by (simp add: subagent_node_def send_of_def)
  moreover have "those xs = None" if "None \<in> set xs" for xs :: "message list option list"
    using that by (induction xs) (auto split: option.split)
  moreover have "c \<in> set ?d" using assms(2,3) by simp
  ultimately have "those (map (subagent_node show today parent e) (map (send_of pd) ?d)) = None"
    by (metis (no_types, lifting) image_eqI set_map)
  moreover have "route_after_agent True dcs pd st = ToSends (map (send_of pd) ?d) (list_ex (\<lambda>c. \<not> is_dispatch c) (tool_calls (last (messages st))))"
    using assms(1,2,3) by (auto simp: route_after_agent_def partition_tool_calls_def filter_empty_conv Let_def)
  ultimately show ?thesis by (simp add: tool_step_def del: map_map)
qed

section \<open>Witnesses\<close>

definition dispatch_call :: "json \<Rightarrow> tool_call" where
  "dispatch_call ts = \<lparr>tc_id = Some [100], tc_name = DISPATCH_SUBAGENT_TOOL_NAME,
     tc_args = [(''prompt'', JStr [112]), (''tools'', ts), (''budget'', JNum 40)]\<rparr>"

definition plain_call :: tool_call where
  "plain_call = \<lparr>tc_id = Some [99], tc_name = [120], tc_args = []\<rparr>"

definition mixed_state :: "json \<Rightarrow> run_state" where
  "mixed_state ts = (noted_state [])\<lparr>messages := [(plain_message Ai [])\<lparr>tool_calls := [dispatch_call ts, plain_call]\<rparr>]\<rparr>"

definition answer_all :: "message list \<Rightarrow> tool_output list" where
  "answer_all ms = map (\<lambda>c. Msg (paired_reply (case tc_id c of None \<Rightarrow> [] | Some i \<Rightarrow> i) [])) (tool_calls (last ms))"

lemma plain_is_other: "\<not> is_dispatch plain_call" "is_dispatch (dispatch_call ts)"
  by (simp_all add: is_dispatch_def plain_call_def dispatch_call_def DISPATCH_SUBAGENT_TOOL_NAME_def lit_def)

lemma mixed_calls: "messages (mixed_state ts) \<noteq> [] \<and> tool_calls (last (messages (mixed_state ts))) = [dispatch_call ts, plain_call]"
  by (simp add: mixed_state_def)

theorem malformed_dispatch_fails_the_turn_witness:
  "tool_step True \<lparr>stack_enabled = False, auto_write = False\<rparr> 0 (\<lambda>ms s. ([], s, []))
     (subagent_node (\<lambda>j. []) [] [] (\<lambda>c. slow_env)) (mixed_state (JNum 5)) () = None"
proof -
  have "requested_names (arg_or (JList []) ''tools'' (dispatch_call (JNum 5))) = None"
    by (simp add: requested_names_def arg_or_def dispatch_call_def json_truthy_def)
  moreover have "tc_id (dispatch_call (JNum 5)) = Some [100]" by (simp add: dispatch_call_def)
  ultimately show ?thesis
    using malformed_dispatch_fails_the_turn [of "mixed_state (JNum 5)" "dispatch_call (JNum 5)" "[100]"] mixed_calls plain_is_other
    by simp
qed

theorem dispatched_agent_is_bounded_witness:
  "max_turns (sg_ceiling (subagent_env slow_env (delegated_tools [] []) (JNum 40))) \<le> 30"
proof -
  let ?sends = "map (send_of 0) [dispatch_call (JList [])]"
  have "route_after_agent True \<lparr>stack_enabled = False, auto_write = False\<rparr> 0 (mixed_state (JList [])) = ToSends ?sends True"
    using mixed_calls [of "JList []"] by (simp add: route_after_agent_def partition_tool_calls_def plain_is_other)
  from dispatched_agent_is_bounded [OF this _ refl, of "send_of 0 (dispatch_call (JList []))" slow_env "[]" "[]"]
  show ?thesis by (simp add: send_of_def arg_or_def dispatch_call_def)
qed

theorem turn_is_answered_once_witness:
  "\<exists>outs. tool_step True \<lparr>stack_enabled = False, auto_write = False\<rparr> 0
       (dispatch_tool_node True (\<lambda>c. True) None [] [] JNull answer_all)
       (subagent_node (\<lambda>j. []) [] [] (\<lambda>c. slow_env)) (mixed_state (JList [])) () = Some outs
     \<and> mset (map (answered (\<lambda>j. None)) outs) = {#Some [100], Some [99]#}"
proof -
  have ids: "\<forall>c \<in> set (tool_calls (last (messages (mixed_state (JList []))))). (\<exists>i. tc_id c = Some i \<and> i \<noteq> [])
      \<and> (is_dispatch c \<longrightarrow> requested_names (arg_or (JList []) ''tools'' c) \<noteq> None)"
    using mixed_calls [of "JList []"]
    by (simp add: dispatch_call_def plain_call_def requested_names_def arg_or_def json_truthy_def)
  have contract: "\<forall>ms. ms \<noteq> [] \<and> (\<forall>c \<in> set (tool_calls (last ms)). tc_id c \<noteq> None)
      \<longrightarrow> map (answered (\<lambda>j. None)) (answer_all ms) = map tc_id (tool_calls (last ms))"
    by (auto simp: answer_all_def answered_def paired_reply_def plain_message_def is_tool_def)
  have calls: "map tc_id (tool_calls (last (messages (mixed_state (JList []))))) = [Some [100], Some [99]]"
    using mixed_calls [of "JList []"] by (simp add: dispatch_call_def plain_call_def)
  from turn_is_answered_once [OF _ ids contract, of True _ 0 "\<lambda>c. True" None "[]" "[]" JNull "\<lambda>j. []" "[]" "[]" "\<lambda>c. slow_env" "()"]
  show ?thesis unfolding calls using mixed_calls by simp
qed

end
