(* ===== verification/Spec2Isabelle.thy ===== *)
theory Spec2Isabelle
  imports Worker Heartbeat Budget Checkpointer RecallPointer SummaryCost ResearchRuns AgentRuns Dispatch
begin

text \<open>
  The worker service of the durable agent runtime.
\<close>

end
